(* ===== verification/Prelude.thy ===== *)
theory Prelude
  imports Main "HOL-Library.Word" "HOL-Library.Monad_Syntax" "HOL-Library.Sublist"
begin

text \<open>
  What every component shares: the machine types of the C++ sources, byte arrays and C strings
  (a byte is an Isabelle \<open>char\<close>, so \<open>std::string\<close> is \<open>string\<close> and an array \<open>char[n]\<close> is a
  \<open>string\<close> of length \<open>n\<close>), the little pieces of the C++ library the code uses on strings
  (\<open>find\<close>, \<open>find_last_of\<close>, \<open>tolower\<close>, decimal printing).
\<close>


type_synonym u8 = "8 word"
type_synonym u16 = "16 word"
type_synonym u32 = "32 word"
type_synonym u64 = "64 word"

definition NUL :: char where
  "NUL = CHR 0x00"

section \<open>Byte arrays and C strings\<close>

text \<open>
  \<open>c_str\<close> is what a C function sees of a \<open>std::string\<close> passed as \<open>s.c_str()\<close>. \<open>c_array\<close> is the
  conversion of a \<open>char[n]\<close> to \<open>std::string\<close>: it reads up to the first NUL, and \<open>None\<close> stands for
  the undefined behaviour of an array with no NUL in it (the read leaves the array).
\<close>

definition c_str :: "string \<Rightarrow> string" where
  "c_str s = takeWhile (\<lambda>c. c \<noteq> NUL) s"

definition c_array :: "string \<Rightarrow> string option" where
  "c_array a = (if NUL \<in> set a then Some (c_str a) else None)"

text \<open>
  \<open>overlay\<close> is a receive into a buffer: the first bytes of the buffer are replaced and the rest
  keeps what it held. \<open>write_at\<close> is a copy to an offset inside a buffer.
\<close>

definition overlay :: "string \<Rightarrow> string \<Rightarrow> string" where
  "overlay buf d = take (length buf) d @ drop (length d) buf"

definition write_at :: "nat \<Rightarrow> string \<Rightarrow> string \<Rightarrow> string" where
  "write_at off bs buf = take off buf @ bs @ drop (off + length bs) buf"

definition zeros :: "nat \<Rightarrow> string" where
  "zeros n = replicate n NUL"

lemma c_str_no_nul [simp]: "NUL \<notin> set (c_str s)"
  by (auto simp: c_str_def dest: set_takeWhileD)

lemma c_str_id [simp]: "NUL \<notin> set s \<Longrightarrow> c_str s = s"
  by (induction s) (auto simp: c_str_def)

lemma c_str_append_nul [simp]: "NUL \<notin> set s \<Longrightarrow> c_str (s @ NUL # r) = s"
  by (induction s) (auto simp: c_str_def)

lemma c_str_append_zeros: "NUL \<notin> set s \<Longrightarrow> c_str (s @ zeros n) = s"
  by (cases n) (simp_all add: zeros_def)

lemma c_array_append_nul [simp]: "NUL \<notin> set s \<Longrightarrow> c_array (s @ NUL # r) = Some s"
  by (simp add: c_array_def)

lemma c_array_append_zeros: "NUL \<notin> set s \<Longrightarrow> 0 < n \<Longrightarrow> c_array (s @ zeros n) = Some s"
  by (cases n) (simp_all add: zeros_def c_array_def)

lemma c_array_SomeD: "c_array a = Some s \<Longrightarrow> NUL \<notin> set s"
  by (auto simp: c_array_def split: if_splits)

lemma c_array_None_iff: "c_array a = None \<longleftrightarrow> NUL \<notin> set a"
  by (simp add: c_array_def)

lemma length_c_str_le: "length (c_str s) \<le> length s"
  by (simp add: c_str_def length_takeWhile_le)

lemma length_c_array_less: "c_array a = Some s \<Longrightarrow> length s < length a"
  by (induction a arbitrary: s) (auto simp: c_array_def c_str_def split: if_splits)

lemma length_zeros [simp]: "length (zeros n) = n"
  by (simp add: zeros_def)

lemma drop_zeros [simp]: "drop k (zeros n) = zeros (n - k)"
  by (simp add: zeros_def)

lemma take_zeros [simp]: "take k (zeros n) = zeros (min k n)"
  by (simp add: zeros_def min.commute)

lemma length_overlay [simp]: "length (overlay buf d) = length buf"
  by (simp add: overlay_def)

lemma overlay_full [simp]: "length d = length buf \<Longrightarrow> overlay buf d = d"
  by (simp add: overlay_def)

lemma overlay_zeros: "length d \<le> n \<Longrightarrow> overlay (zeros n) d = d @ zeros (n - length d)"
  by (simp add: overlay_def)

lemma length_write_at: "off + length bs \<le> length buf \<Longrightarrow> length (write_at off bs buf) = length buf"
  by (simp add: write_at_def)

section \<open>Searching in strings\<close>

fun contains :: "string \<Rightarrow> string \<Rightarrow> bool" where
  "contains p [] \<longleftrightarrow> p = []"
| "contains p (c # cs) \<longleftrightarrow> take (length p) (c # cs) = p \<or> contains p cs"

definition find_char :: "char \<Rightarrow> string \<Rightarrow> nat option" where
  "find_char c s = (if c \<in> set s then Some (length (takeWhile (\<lambda>x. x \<noteq> c) s)) else None)"

fun find_last_of :: "char list \<Rightarrow> string \<Rightarrow> nat option" where
  "find_last_of cs [] = None"
| "find_last_of cs (x # xs) =
     (case find_last_of cs xs of
        Some i \<Rightarrow> Some (Suc i)
      | None \<Rightarrow> if x \<in> set cs then Some 0 else None)"

lemma contains_iff: "contains p s \<longleftrightarrow> sublist p s"
proof (induction s)
  case Nil
  then show ?case by simp
next
  case (Cons c s)
  have "take (length p) (c # s) = p \<longleftrightarrow> prefix p (c # s)"
    by (metis append_eq_conv_conj prefix_def)
  with Cons show ?case by (auto simp: sublist_Cons_right)
qed

lemma find_last_of_None_iff: "find_last_of cs s = None \<longleftrightarrow> set s \<inter> set cs = {}"
  by (induction s) (auto split: option.splits)

lemma find_last_of_SomeD:
  "find_last_of cs s = Some i \<Longrightarrow>
     i < length s \<and> s ! i \<in> set cs \<and> set (drop (Suc i) s) \<inter> set cs = {}"
  by (induction s arbitrary: i)
     (auto split: option.splits if_splits simp: find_last_of_None_iff)

lemma find_last_of_append:
  "set v \<inter> set cs = {} \<Longrightarrow> x \<in> set cs \<Longrightarrow> find_last_of cs (u @ x # v) = Some (length u)"
  by (induction u) (auto split: option.splits simp: find_last_of_None_iff[THEN iffD2])

section \<open>Characters and numbers\<close>

definition tolower :: "char \<Rightarrow> char" where
  "tolower c =
     (let n = of_char c :: nat in if 65 \<le> n \<and> n \<le> 90 then char_of (n + 32) else c)"

definition isspace :: "char \<Rightarrow> bool" where
  "isspace c \<longleftrightarrow> (let n = of_char c :: nat in n = 32 \<or> 9 \<le> n \<and> n \<le> 13)"

text \<open>Decimal and hexadecimal printing as \<open>operator<<\<close> and \<open>std::to_string\<close> do it.\<close>

definition digit_char :: "nat \<Rightarrow> char" where
  "digit_char d = (if d < 10 then char_of (48 + d) else char_of (87 + d))"

fun print_nat :: "nat \<Rightarrow> string" where
  "print_nat n = (if n < 10 then [digit_char n] else print_nat (n div 10) @ [digit_char (n mod 10)])"

declare print_nat.simps [simp del]

lemma print_nat_nonempty [simp]: "print_nat n \<noteq> []"
  by (subst print_nat.simps) simp

lemma tolower_idem [simp]: "tolower (tolower c) = tolower c"
  by (simp add: tolower_def Let_def)

end
