(* ===== verification/Error_Codes.thy ===== *)
theory Error_Codes
  imports Prelude
begin

text \<open>
  \<open>include/common/error_codes.h\<close> and \<open>src/common/error_codes.cpp\<close>. \<open>ErrorCode\<close> is an
  \<open>enum class\<close> over \<open>uint16_t\<close>: a value of the type is any 16-bit number, so the enumerators are
  constructors and \<open>Unnamed\<close> carries the numbers no enumerator has (they enter the program
  through \<open>fromNetworkError\<close>).
\<close>

datatype ErrorCode =
    SUCCESS
  | UNKNOWN_ERROR | INVALID_ARGUMENT | TIMEOUT | CANCELLED
  | FILE_NOT_FOUND | FILE_EXISTS | FILE_OPEN_ERROR | FILE_READ_ERROR | FILE_WRITE_ERROR
  | FILE_DELETE_ERROR | FILE_RENAME_ERROR | INVALID_FILENAME | PATH_TRAVERSAL_ATTEMPT
  | FILE_TOO_LARGE
  | DIRECTORY_NOT_FOUND | DIRECTORY_CREATE_ERROR | DIRECTORY_READ_ERROR
  | SOCKET_CREATE_ERROR | SOCKET_BIND_ERROR | SOCKET_LISTEN_ERROR | SOCKET_ACCEPT_ERROR
  | SOCKET_CONNECT_ERROR | SOCKET_SEND_ERROR | SOCKET_RECV_ERROR
  | CONNECTION_CLOSED | CONNECTION_TIMEOUT
  | INVALID_COMMAND | INVALID_MESSAGE | UNEXPECTED_RESPONSE | PROTOCOL_ERROR
  | SERVER_BUSY | SERVER_SHUTDOWN
  | Unnamed u16

text \<open>The enumerators with their numbers, in the order of the header.\<close>

definition error_table :: "(ErrorCode \<times> u16) list" where
  "error_table =
     [(SUCCESS, 0),
      (UNKNOWN_ERROR, 1), (INVALID_ARGUMENT, 2), (TIMEOUT, 3), (CANCELLED, 4),
      (FILE_NOT_FOUND, 100), (FILE_EXISTS, 101), (FILE_OPEN_ERROR, 102),
      (FILE_READ_ERROR, 103), (FILE_WRITE_ERROR, 104), (FILE_DELETE_ERROR, 105),
      (FILE_RENAME_ERROR, 106), (INVALID_FILENAME, 107), (PATH_TRAVERSAL_ATTEMPT, 108),
      (FILE_TOO_LARGE, 109),
      (DIRECTORY_NOT_FOUND, 200), (DIRECTORY_CREATE_ERROR, 201), (DIRECTORY_READ_ERROR, 202),
      (SOCKET_CREATE_ERROR, 300), (SOCKET_BIND_ERROR, 301), (SOCKET_LISTEN_ERROR, 302),
      (SOCKET_ACCEPT_ERROR, 303), (SOCKET_CONNECT_ERROR, 304), (SOCKET_SEND_ERROR, 305),
      (SOCKET_RECV_ERROR, 306), (CONNECTION_CLOSED, 307), (CONNECTION_TIMEOUT, 308),
      (INVALID_COMMAND, 400), (INVALID_MESSAGE, 401), (UNEXPECTED_RESPONSE, 402),
      (PROTOCOL_ERROR, 403),
      (SERVER_BUSY, 500), (SERVER_SHUTDOWN, 501)]"

definition toNetworkError :: "ErrorCode \<Rightarrow> u16" where
  "toNetworkError code =
     (case code of
        Unnamed w \<Rightarrow> w
      | _ \<Rightarrow> (case map_of error_table code of Some w \<Rightarrow> w | None \<Rightarrow> 0))"

definition fromNetworkError :: "u16 \<Rightarrow> ErrorCode" where
  "fromNetworkError w =
     (case map_of (map (\<lambda>(c, n). (n, c)) error_table) w of
        Some c \<Rightarrow> c
      | None \<Rightarrow> Unnamed w)"

definition isSuccess :: "ErrorCode \<Rightarrow> bool" where
  "isSuccess code \<longleftrightarrow> code = SUCCESS"

fun errorCodeToString :: "ErrorCode \<Rightarrow> string" where
  "errorCodeToString SUCCESS = ''SUCCESS''"
| "errorCodeToString UNKNOWN_ERROR = ''UNKNOWN_ERROR''"
| "errorCodeToString INVALID_ARGUMENT = ''INVALID_ARGUMENT''"
| "errorCodeToString TIMEOUT = ''TIMEOUT''"
| "errorCodeToString CANCELLED = ''CANCELLED''"
| "errorCodeToString FILE_NOT_FOUND = ''FILE_NOT_FOUND''"
| "errorCodeToString FILE_EXISTS = ''FILE_EXISTS''"
| "errorCodeToString FILE_OPEN_ERROR = ''FILE_OPEN_ERROR''"
| "errorCodeToString FILE_READ_ERROR = ''FILE_READ_ERROR''"
| "errorCodeToString FILE_WRITE_ERROR = ''FILE_WRITE_ERROR''"
| "errorCodeToString FILE_DELETE_ERROR = ''FILE_DELETE_ERROR''"
| "errorCodeToString FILE_RENAME_ERROR = ''FILE_RENAME_ERROR''"
| "errorCodeToString INVALID_FILENAME = ''INVALID_FILENAME''"
| "errorCodeToString PATH_TRAVERSAL_ATTEMPT = ''PATH_TRAVERSAL_ATTEMPT''"
| "errorCodeToString FILE_TOO_LARGE = ''FILE_TOO_LARGE''"
| "errorCodeToString DIRECTORY_NOT_FOUND = ''DIRECTORY_NOT_FOUND''"
| "errorCodeToString DIRECTORY_CREATE_ERROR = ''DIRECTORY_CREATE_ERROR''"
| "errorCodeToString DIRECTORY_READ_ERROR = ''DIRECTORY_READ_ERROR''"
| "errorCodeToString SOCKET_CREATE_ERROR = ''SOCKET_CREATE_ERROR''"
| "errorCodeToString SOCKET_BIND_ERROR = ''SOCKET_BIND_ERROR''"
| "errorCodeToString SOCKET_LISTEN_ERROR = ''SOCKET_LISTEN_ERROR''"
| "errorCodeToString SOCKET_ACCEPT_ERROR = ''SOCKET_ACCEPT_ERROR''"
| "errorCodeToString SOCKET_CONNECT_ERROR = ''SOCKET_CONNECT_ERROR''"
| "errorCodeToString SOCKET_SEND_ERROR = ''SOCKET_SEND_ERROR''"
| "errorCodeToString SOCKET_RECV_ERROR = ''SOCKET_RECV_ERROR''"
| "errorCodeToString CONNECTION_CLOSED = ''CONNECTION_CLOSED''"
| "errorCodeToString CONNECTION_TIMEOUT = ''CONNECTION_TIMEOUT''"
| "errorCodeToString INVALID_COMMAND = ''INVALID_COMMAND''"
| "errorCodeToString INVALID_MESSAGE = ''INVALID_MESSAGE''"
| "errorCodeToString UNEXPECTED_RESPONSE = ''UNEXPECTED_RESPONSE''"
| "errorCodeToString PROTOCOL_ERROR = ''PROTOCOL_ERROR''"
| "errorCodeToString SERVER_BUSY = ''SERVER_BUSY''"
| "errorCodeToString SERVER_SHUTDOWN = ''SERVER_SHUTDOWN''"
| "errorCodeToString (Unnamed w) = ''UNKNOWN''"

text \<open>
  \<open>std::to_string(static_cast<int>(code))\<close> prints the 16-bit number, which is never negative.
\<close>

fun getErrorDescription :: "ErrorCode \<Rightarrow> string" where
  "getErrorDescription SUCCESS = ''Operation completed successfully''"
| "getErrorDescription UNKNOWN_ERROR = ''An unknown error occurred''"
| "getErrorDescription INVALID_ARGUMENT = ''Invalid argument provided''"
| "getErrorDescription TIMEOUT = ''Operation timed out''"
| "getErrorDescription CANCELLED = ''Operation was cancelled''"
| "getErrorDescription FILE_NOT_FOUND = ''File not found''"
| "getErrorDescription FILE_EXISTS = ''File already exists''"
| "getErrorDescription FILE_OPEN_ERROR = ''Failed to open file''"
| "getErrorDescription FILE_READ_ERROR = ''Failed to read file''"
| "getErrorDescription FILE_WRITE_ERROR = ''Failed to write file''"
| "getErrorDescription FILE_DELETE_ERROR = ''Failed to delete file''"
| "getErrorDescription FILE_RENAME_ERROR = ''Failed to rename file''"
| "getErrorDescription INVALID_FILENAME = ''Invalid filename''"
| "getErrorDescription PATH_TRAVERSAL_ATTEMPT = ''Path traversal attempt detected''"
| "getErrorDescription FILE_TOO_LARGE = ''File is too large''"
| "getErrorDescription DIRECTORY_NOT_FOUND = ''Directory not found''"
| "getErrorDescription DIRECTORY_CREATE_ERROR = ''Failed to create directory''"
| "getErrorDescription DIRECTORY_READ_ERROR = ''Failed to read directory''"
| "getErrorDescription SOCKET_CREATE_ERROR = ''Failed to create socket''"
| "getErrorDescription SOCKET_BIND_ERROR = ''Failed to bind socket''"
| "getErrorDescription SOCKET_LISTEN_ERROR = ''Failed to listen on socket''"
| "getErrorDescription SOCKET_ACCEPT_ERROR = ''Failed to accept connection''"
| "getErrorDescription SOCKET_CONNECT_ERROR = ''Failed to connect to server''"
| "getErrorDescription SOCKET_SEND_ERROR = ''Failed to send data''"
| "getErrorDescription SOCKET_RECV_ERROR = ''Failed to receive data''"
| "getErrorDescription CONNECTION_CLOSED = ''Connection closed by peer''"
| "getErrorDescription CONNECTION_TIMEOUT = ''Connection timed out''"
| "getErrorDescription INVALID_COMMAND = ''Invalid command received''"
| "getErrorDescription INVALID_MESSAGE = ''Invalid message format''"
| "getErrorDescription UNEXPECTED_RESPONSE = ''Unexpected response from server''"
| "getErrorDescription PROTOCOL_ERROR = ''Protocol error''"
| "getErrorDescription SERVER_BUSY = ''Server is busy''"
| "getErrorDescription SERVER_SHUTDOWN = ''Server is shutting down''"
| "getErrorDescription (Unnamed w) = ''Unknown error code: '' @ print_nat (unat w)"

section \<open>Numbers and enumerators\<close>

text \<open>A code is \<open>named\<close> unless it is an \<open>Unnamed\<close> wrapper around an enumerator's number.\<close>

definition well_named :: "ErrorCode \<Rightarrow> bool" where
  "well_named code = (case code of Unnamed w \<Rightarrow> w \<notin> snd ` set error_table | _ \<Rightarrow> True)"

lemma distinct_error_table: "distinct (map fst error_table)" "distinct (map snd error_table)"
  by (simp_all add: error_table_def)

lemma named_in_error_table: "(\<forall>w. code \<noteq> Unnamed w) \<Longrightarrow> \<exists>w. (code, w) \<in> set error_table"
  by (cases code) (auto simp: error_table_def)

lemma toNetworkError_table: "(code, w) \<in> set error_table \<Longrightarrow> toNetworkError code = w"
  by (auto simp: error_table_def toNetworkError_def)

lemma map_of_swap_error_table:
  "map_of (map (\<lambda>(c, n). (n, c)) error_table) w = Some code \<longleftrightarrow> (code, w) \<in> set error_table"
proof -
  have "distinct (map fst (map (\<lambda>(c, n). (n, c)) error_table))"
    by (simp add: error_table_def)
  then have "map_of (map (\<lambda>(c, n). (n, c)) error_table) w = Some code \<longleftrightarrow>
      (w, code) \<in> set (map (\<lambda>(c, n). (n, c)) error_table)"
    by (rule map_of_eq_Some_iff)
  then show ?thesis by auto
qed

lemma fromNetworkError_table: "(code, w) \<in> set error_table \<Longrightarrow> fromNetworkError w = code"
  by (simp add: fromNetworkError_def map_of_swap_error_table[THEN iffD2])

text \<open>
  An error number sent over the wire is recovered: converting any received 16-bit number to
  an \<open>ErrorCode\<close> and back is the identity.
\<close>

theorem network_error_roundtrip: "toNetworkError (fromNetworkError w) = w"
proof (cases "map_of (map (\<lambda>(c, n). (n, c)) error_table) w")
  case None
  then show ?thesis by (simp add: fromNetworkError_def toNetworkError_def)
next
  case (Some code)
  then have "(code, w) \<in> set error_table"
    by (simp add: map_of_swap_error_table)
  with Some show ?thesis
    by (simp add: fromNetworkError_def toNetworkError_table)
qed

lemma error_code_roundtrip: "well_named code \<Longrightarrow> fromNetworkError (toNetworkError code) = code"
proof (cases "\<exists>w. code = Unnamed w")
  case True
  assume "well_named code"
  with True obtain w where w: "code = Unnamed w" "w \<notin> snd ` set error_table"
    by (auto simp: well_named_def)
  have "map_of (map (\<lambda>(c, n). (n, c)) error_table) w = None"
    using w(2) by (force simp: map_of_eq_None_iff image_iff)
  with w show ?thesis by (simp add: fromNetworkError_def toNetworkError_def)
next
  case False
  then obtain w where "(code, w) \<in> set error_table"
    using named_in_error_table by blast
  then show ?thesis by (simp add: toNetworkError_table fromNetworkError_table)
qed

lemma toNetworkError_eq_0_iff: "well_named code \<Longrightarrow> toNetworkError code = 0 \<longleftrightarrow> isSuccess code"
  by (metis error_code_roundtrip fromNetworkError_table isSuccess_def list.set_intros(1)
      error_table_def toNetworkError_table)

end
