(* ===== verification/Utils.thy ===== *)
theory Utils
  imports Prelude
begin

text \<open>
  \<open>src/common/utils.cpp\<close>: filename validation, the path and string helpers and the request
  identifiers. The POSIX branches of the conditional code are modelled. \<open>formatBytes\<close> and
  the clock functions are in \<open>Doubles\<close> and not here.
\<close>

section \<open>Filename validation\<close>

definition toLower :: "string \<Rightarrow> string" where
  "toLower str = map tolower str"

definition invalidChars :: string where
  "invalidChars = [CHR ''<'', CHR ''>'', CHR '':'', CHR 0x22, CHR ''|'', CHR ''?'', CHR ''*'']"

definition is_control :: "char \<Rightarrow> bool" where
  "is_control c \<longleftrightarrow> of_char c < (32 :: nat)"

definition backslash :: char where
  "backslash = CHR 0x5C"

definition slash :: char where
  "slash = CHR ''/''"

definition is_sep :: "char \<Rightarrow> bool" where
  "is_sep c \<longleftrightarrow> c = slash \<or> c = backslash"

definition reserved :: "string list" where
  "reserved =
     [''con'', ''prn'', ''aux'', ''nul'',
      ''com1'', ''com2'', ''com3'', ''com4'', ''com5'', ''com6'', ''com7'', ''com8'', ''com9'',
      ''lpt1'', ''lpt2'', ''lpt3'', ''lpt4'', ''lpt5'', ''lpt6'', ''lpt7'', ''lpt8'', ''lpt9'']"

text \<open>The loop over the characters: the first offending character decides the message.\<close>

fun scan_chars :: "string \<Rightarrow> string" where
  "scan_chars [] = []"
| "scan_chars (c # cs) =
     (if c \<in> set invalidChars then ''Invalid character in filename: '' @ [c]
      else if is_control c then ''Control characters are not allowed''
      else scan_chars cs)"

definition stem :: "string \<Rightarrow> string" where
  "stem name =
     (case find_char (CHR ''.'') name of None \<Rightarrow> name | Some dotPos \<Rightarrow> take dotPos name)"

definition getFilenameValidationError :: "string \<Rightarrow> string" where
  "getFilenameValidationError filename =
     (if filename = [] then ''Filename cannot be empty''
      else if 255 < length filename then ''Filename too long (max 255 characters)''
      else if contains ''..'' filename then ''Path traversal attempt detected (..)''
      else if is_sep (filename ! 0) then ''Absolute paths are not allowed''
      else if 2 \<le> length filename \<and> filename ! 1 = CHR '':'' then
        ''Windows absolute paths are not allowed''
      else if slash \<in> set filename \<or> backslash \<in> set filename then
        ''Path separators are not allowed in filename''
      else if NUL \<in> set filename then ''Null bytes are not allowed''
      else if scan_chars filename \<noteq> [] then scan_chars filename
      else if stem (toLower filename) \<in> set reserved then ''Reserved filename: '' @ filename
      else [])"

definition isValidFilename :: "string \<Rightarrow> bool" where
  "isValidFilename filename \<longleftrightarrow> getFilenameValidationError filename = []"

definition drop_trailing :: "(char \<Rightarrow> bool) \<Rightarrow> string \<Rightarrow> string" where
  "drop_trailing p s = rev (dropWhile p (rev s))"

definition edge :: "char \<Rightarrow> bool" where
  "edge c \<longleftrightarrow> c = CHR '' '' \<or> c = CHR ''.''"

fun replaceChars :: "string \<Rightarrow> string" where
  "replaceChars [] = []"
| "replaceChars (c # cs) =
     (if c \<in> set invalidChars \<or> c = backslash \<or> c = slash then CHR ''_'' # replaceChars cs
      else if is_control c then replaceChars cs
      else c # replaceChars cs)"

definition sanitizeFilename :: "string \<Rightarrow> string" where
  "sanitizeFilename filename =
     (let result = replaceChars filename;
          result = dropWhile edge result;
          result = drop_trailing edge result
      in if result = [] then ''unnamed'' else result)"

section \<open>Paths\<close>

definition joinPath :: "string \<Rightarrow> string \<Rightarrow> string" where
  "joinPath base child =
     (if base = [] then child
      else if child = [] then base
      else let hasTrailingSep = is_sep (last base); hasLeadingSep = is_sep (hd child)
        in if hasTrailingSep \<and> hasLeadingSep then base @ tl child
           else if \<not> hasTrailingSep \<and> \<not> hasLeadingSep then base @ [slash] @ child
           else base @ child)"

definition getFilename :: "string \<Rightarrow> string" where
  "getFilename path =
     (case find_last_of [slash, backslash] path of None \<Rightarrow> path | Some pos \<Rightarrow> drop (pos + 1) path)"

definition getDirectory :: "string \<Rightarrow> string" where
  "getDirectory path =
     (case find_last_of [slash, backslash] path of None \<Rightarrow> [] | Some pos \<Rightarrow> take pos path)"

section \<open>Strings\<close>

text \<open>\<open>str.substr(start, end - start + 1)\<close> between the first and the last non-blank.\<close>

definition trim :: "string \<Rightarrow> string" where
  "trim str =
     (if \<forall>c \<in> set str. isspace c then []
      else let start = length (takeWhile isspace str);
               stop = length str - length (takeWhile isspace (rev str))
        in take (stop - start) (drop start str))"

text \<open>Repeated \<open>std::getline\<close>: a delimiter at the end of the input opens no further token.\<close>

function getlines :: "char \<Rightarrow> string \<Rightarrow> string list" where
  "getlines d s =
     (if s = [] then []
      else case dropWhile (\<lambda>c. c \<noteq> d) s of
             [] \<Rightarrow> [s]
           | _ # rest \<Rightarrow> takeWhile (\<lambda>c. c \<noteq> d) s # getlines d rest)"
  by pat_completeness auto
termination
proof (relation "measure (\<lambda>(d, s). length s)", simp)
  fix d :: char and s y rest
  assume "dropWhile (\<lambda>c. c \<noteq> d) s = y # rest"
  then have "length (y # rest) \<le> length s" using length_dropWhile_le by metis
  then show "((d, rest), (d, s)) \<in> measure (\<lambda>(d, s). length s)" by simp
qed

declare getlines.simps [simp del]

definition split :: "string \<Rightarrow> char \<Rightarrow> string list" where
  "split str delimiter = (if str = [] then [[]] else getlines delimiter str)"

fun join :: "char \<Rightarrow> string list \<Rightarrow> string" where
  "join d [] = []"
| "join d [s] = s"
| "join d (s # t # ts) = s @ d # join d (t # ts)"

section \<open>Request identifiers\<close>

text \<open>
  \<open>ms\<close> is the steady clock in milliseconds (an \<open>int64_t\<close>), \<open>counter\<close> the static atomic counter,
  returned incremented. \<open>std::hex\<close> with width 8 and fill \<open>'0'\<close> prints eight hexadecimal digits.
\<close>

definition hex_digits :: "nat \<Rightarrow> nat \<Rightarrow> string" where
  "hex_digits k n = map (\<lambda>i. digit_char (n div 16 ^ (k - 1 - i) mod 16)) [0..<k]"

unbundle bit_operations_syntax

definition mix_bits :: "int \<Rightarrow> u32 \<Rightarrow> u32" where
  "mix_bits ms cnt = (let ms64 = word_of_int ms :: u64 in
     ucast (push_bit 16 (ms64 AND 0xFFFF)) OR (cnt AND 0xFFFF))"

definition generateRequestId :: "int \<Rightarrow> u32 \<Rightarrow> string \<times> u32" where
  "generateRequestId ms counter = (hex_digits 8 (unat (mix_bits ms counter)), counter + 1)"

section \<open>What the validator accepts\<close>

definition filename_ok :: "string \<Rightarrow> bool" where
  "filename_ok name \<longleftrightarrow>
     name \<noteq> [] \<and> length name \<le> 255 \<and> \<not> sublist ''..'' name \<and>
     (\<forall>c \<in> set name. \<not> is_sep c \<and> c \<notin> set invalidChars \<and> \<not> is_control c) \<and>
     stem (toLower name) \<notin> set reserved"

lemma scan_chars_Nil_iff:
  "scan_chars s = [] \<longleftrightarrow> (\<forall>c \<in> set s. c \<notin> set invalidChars \<and> \<not> is_control c)"
  by (induction s) auto

lemma is_control_NUL [simp]: "is_control NUL"
  by (simp add: is_control_def NUL_def)

lemma isValidFilename_iff: "isValidFilename name \<longleftrightarrow> filename_ok name"
proof -
  have second: "2 \<le> length name \<Longrightarrow> name ! 1 \<in> set name" by simp
  have colon: "2 \<le> length name \<Longrightarrow> name ! 1 = CHR '':'' \<Longrightarrow> \<exists>c \<in> set name. c \<in> set invalidChars"
    using second by (auto simp: invalidChars_def)
  have first: "name \<noteq> [] \<Longrightarrow> name ! 0 \<in> set name" by simp
  have nul: "NUL \<in> set name \<Longrightarrow> \<exists>c \<in> set name. is_control c"
    using is_control_NUL by blast
  have seps: "slash \<in> set name \<or> backslash \<in> set name \<longleftrightarrow> (\<exists>c \<in> set name. is_sep c)"
    by (auto simp: is_sep_def)
  show ?thesis
    using colon first nul seps
    by (auto simp: isValidFilename_def getFilenameValidationError_def filename_ok_def contains_iff
        scan_chars_Nil_iff)
qed

text \<open>
  C12: the validator accepts exactly the names that are non-empty, at most 255 bytes long, free of
  \<open>..\<close>, of path separators, of the characters Windows forbids and of control characters (NUL
  included), and whose part before the first dot is not a reserved device name in any case.
\<close>

theorem isValidFilename_spec: "isValidFilename name \<longleftrightarrow> filename_ok name"
  by (rule isValidFilename_iff)

lemma isValidFilenameD:
  assumes "isValidFilename name"
  shows "name \<noteq> []" "length name \<le> 255" "NUL \<notin> set name" "slash \<notin> set name" "name \<noteq> ''..''"
    "\<forall>c \<in> set name. \<not> is_sep c"
  using assms is_control_NUL by (auto simp: isValidFilename_iff filename_ok_def is_sep_def)

text \<open>Names used in examples.\<close>

lemma valid_names [simp]:
  "isValidFilename ''.''" "isValidFilename ''a.txt''" "isValidFilename ''b.txt''"
  by code_simp+

section \<open>Paths come apart as they were put together\<close>

lemma no_sep_disjoint: "(\<forall>c \<in> set s. \<not> is_sep c) \<longleftrightarrow> set s \<inter> set [slash, backslash] = {}"
  by (auto simp: is_sep_def)

lemma getFilename_joinPath:
  assumes "child \<noteq> []" "\<forall>c \<in> set child. \<not> is_sep c"
  shows "getFilename (joinPath base child) = child"
proof -
  have none: "find_last_of [slash, backslash] child = None"
    using assms(2) unfolding find_last_of_None_iff no_sep_disjoint .
  have last: "getFilename (b @ x # child) = child" if "is_sep x" for b x
  proof -
    have "find_last_of [slash, backslash] (b @ x # child) = Some (length b)"
      using assms(2) that unfolding no_sep_disjoint
      by (intro find_last_of_append) (auto simp: is_sep_def)
    then show ?thesis by (simp add: getFilename_def)
  qed
  have hd: "\<not> is_sep (hd child)" using assms by (cases child) auto
  show ?thesis
  proof (cases "base = []")
    case True
    with none show ?thesis by (simp add: joinPath_def getFilename_def)
  next
    case False
    show ?thesis
    proof (cases "is_sep (last base)")
      case True
      with False hd assms(1) have "joinPath base child = butlast base @ last base # child"
        by (simp add: joinPath_def)
      with last True show ?thesis by simp
    next
      case nosep: False
      with False hd assms(1) have "joinPath base child = base @ slash # child"
        by (simp add: joinPath_def)
      with last show ?thesis by (simp add: is_sep_def)
    qed
  qed
qed

text \<open>
  A path with a separator is its directory, one separator and its filename, and the filename
  contains no separator.
\<close>

theorem getDirectory_getFilename:
  assumes "\<exists>c \<in> set path. is_sep c"
  shows "\<exists>s. is_sep s \<and> path = getDirectory path @ [s] @ getFilename path \<and>
     (\<forall>c \<in> set (getFilename path). \<not> is_sep c)"
proof -
  obtain i where i: "find_last_of [slash, backslash] path = Some i"
    using assms unfolding Bex_def
    by (metis find_last_of_None_iff no_sep_disjoint not_None_eq)
  note d = find_last_of_SomeD[OF i]
  have "path = take i path @ [path ! i] @ drop (Suc i) path"
    using d by (simp add: id_take_nth_drop[symmetric])
  moreover have "is_sep (path ! i)" using d by (auto simp: is_sep_def)
  moreover have "\<forall>c \<in> set (drop (Suc i) path). \<not> is_sep c"
    using d unfolding no_sep_disjoint by blast
  ultimately show ?thesis using i by (auto simp: getDirectory_def getFilename_def)
qed

theorem getDirectory_getFilename_witness:
  "\<exists>s. is_sep s \<and> ''d/a'' = getDirectory ''d/a'' @ [s] @ getFilename ''d/a'' \<and>
     (\<forall>c \<in> set (getFilename ''d/a''). \<not> is_sep c)"
proof -
  have "\<exists>c \<in> set ''d/a''. is_sep c" by (simp add: is_sep_def slash_def)
  then show ?thesis by (rule getDirectory_getFilename)
qed

section \<open>Strings\<close>

lemma toLower_idem: "toLower (toLower s) = toLower s"
  by (simp add: toLower_def)

lemma split_at_delim:
  "dropWhile (\<lambda>c. c \<noteq> d) s = y # r \<Longrightarrow> s = takeWhile (\<lambda>c. c \<noteq> d) s @ d # r"
  by (metis (mono_tags, lifting) hd_dropWhile list.distinct(1) list.sel(1) takeWhile_dropWhile_id)

lemma getlines_Nil_iff: "getlines d s = [] \<longleftrightarrow> s = []"
  by (subst getlines.simps) (auto split: list.splits)

lemma join_Cons: "ts \<noteq> [] \<Longrightarrow> join d (s # ts) = s @ d # join d ts"
  by (cases ts) auto

lemma join_getlines:
  "s \<noteq> [] \<Longrightarrow> join d (getlines d s) = (if last s = d then butlast s else s)"
proof (induction d s rule: getlines.induct)
  case (1 d s)
  show ?case
  proof (cases "dropWhile (\<lambda>c. c \<noteq> d) s")
    case Nil
    then have "d \<notin> set s" by (metis (mono_tags, lifting) dropWhile_eq_Nil_conv)
    with 1(2) have "last s \<noteq> d" using last_in_set by metis
    moreover have "getlines d s = [s]"
      by (subst getlines.simps) (simp only: Nil 1(2) list.case if_False)
    ultimately show ?thesis by simp
  next
    case (Cons y r)
    let ?t = "takeWhile (\<lambda>c. c \<noteq> d) s"
    have s: "s = ?t @ d # r" using Cons by (rule split_at_delim)
    have g: "getlines d s = ?t # getlines d r"
      using Cons 1(2) by (simp add: getlines.simps[of d s])
    show ?thesis
    proof (cases "r = []")
      case True
      then have "getlines d r = []" by (simp add: getlines_Nil_iff)
      then show ?thesis using g s True by (metis append_is_Nil_conv butlast_snoc join.simps(2) last_snoc)
    next
      case False
      with 1(1)[OF 1(2) Cons] have ih: "join d (getlines d r) = (if last r = d then butlast r else r)"
        by simp
      have "join d (getlines d s) = ?t @ d # join d (getlines d r)"
        using g False by (simp add: join_Cons getlines_Nil_iff)
      moreover have "last s = last r" "butlast s = ?t @ d # butlast r"
        using s False by (metis last.simps last_appendR list.distinct(1), metis butlast.simps(2) butlast_append list.distinct(1))
      ultimately show ?thesis using ih s by auto
    qed
  qed
qed

lemma getlines_no_delim: "\<forall>t \<in> set (getlines d s). d \<notin> set t"
proof (induction d s rule: getlines.induct)
  case (1 d s)
  then show ?case
    by (subst getlines.simps)
       (auto split: list.splits dest: set_takeWhileD simp: dropWhile_eq_Nil_conv)
qed

text \<open>
  Splitting and joining with the delimiter gives back the string, less one delimiter at its
  end if it has one there (\<open>std::getline\<close> opens no token after a final delimiter), and no token
  contains the delimiter.
\<close>

theorem split_join:
  "join d (split s d) = (if s \<noteq> [] \<and> last s = d then butlast s else s) \<and>
   d \<notin> set (concat (split s d))"
  using join_getlines[of s d] getlines_no_delim[of d s] by (auto simp: split_def)

lemma set_drop_trailing: "set (drop_trailing p s) \<subseteq> set s"
  by (auto simp: drop_trailing_def dest: set_dropWhileD)

lemma drop_trailing_last: "drop_trailing p s \<noteq> [] \<Longrightarrow> \<not> p (last (drop_trailing p s))"
  by (simp add: drop_trailing_def last_rev hd_dropWhile)

lemma drop_trailing_id: "s = [] \<or> \<not> p (last s) \<Longrightarrow> drop_trailing p s = s"
  by (cases s rule: rev_cases) (auto simp: drop_trailing_def)

lemma drop_trailing_prefix: "prefix (drop_trailing p s) s"
  by (metis drop_trailing_def rev_rev_ident suffix_dropWhile suffix_to_prefix)

lemma dropWhile_drop_trailing:
  assumes "drop_trailing p (dropWhile p s) \<noteq> []"
  shows "\<not> p (hd (drop_trailing p (dropWhile p s)))"
proof -
  obtain z where z: "dropWhile p s = drop_trailing p (dropWhile p s) @ z"
    using drop_trailing_prefix[of p "dropWhile p s"] by (auto simp: prefix_def)
  then have "hd (drop_trailing p (dropWhile p s)) = hd (dropWhile p s)"
    using assms by (metis hd_append2)
  moreover have "dropWhile p s \<noteq> []" using assms z by (metis append_is_Nil_conv)
  ultimately show ?thesis using hd_dropWhile[of p s] by metis
qed

lemma drop_trailing_take: "drop_trailing p r = take (length r - length (takeWhile p (rev r))) r"
proof -
  have "r = rev (dropWhile p (rev r)) @ rev (takeWhile p (rev r))"
    by (metis rev_append rev_rev_ident takeWhile_dropWhile_id)
  then show ?thesis
    by (metis append_eq_conv_conj length_append length_rev add_diff_cancel_right' drop_trailing_def)
qed

lemma drop_trailing_split:
  "\<exists>v. r = drop_trailing p r @ v \<and> (\<forall>c \<in> set v. p c)"
proof -
  have "r = drop_trailing p r @ rev (takeWhile p (rev r))"
    by (metis drop_trailing_def rev_append rev_rev_ident takeWhile_dropWhile_id)
  then show ?thesis by (auto dest: set_takeWhileD intro!: exI[of _ "rev (takeWhile p (rev r))"])
qed

lemma trim_alt: "trim s = drop_trailing isspace (dropWhile isspace s)"
proof (cases "\<forall>c \<in> set s. isspace c")
  case True
  then show ?thesis by (simp add: trim_def drop_trailing_def dropWhile_eq_Nil_conv[THEN iffD2])
next
  case False
  let ?r = "dropWhile isspace s" and ?l = "takeWhile isspace s"
  have r: "?r \<noteq> []" "\<not> isspace (hd ?r)" using False by (auto simp: hd_dropWhile)
  then have "\<exists>c \<in> set (rev ?r). \<not> isspace c" using hd_in_set[of ?r] by (metis set_rev)
  moreover have "rev s = rev ?r @ rev ?l" by (metis rev_append takeWhile_dropWhile_id)
  ultimately have t: "takeWhile isspace (rev s) = takeWhile isspace (rev ?r)"
    by (metis takeWhile_append1)
  have l: "length s = length ?l + length ?r" by (metis length_append takeWhile_dropWhile_id)
  have "drop (length ?l) s = ?r" by (metis append_eq_conv_conj takeWhile_dropWhile_id)
  then have "trim s = take (length s - length (takeWhile isspace (rev ?r)) - length ?l) ?r"
    using False by (simp add: trim_def Let_def t)
  then show ?thesis by (simp add: drop_trailing_take l)
qed

text \<open>
  \<open>trim\<close> removes whitespace at the two ends and nothing else, and what it returns neither
  begins nor ends with whitespace.
\<close>

theorem trim_spec:
  "\<exists>u v. s = u @ trim s @ v \<and> (\<forall>c \<in> set (u @ v). isspace c) \<and>
     (trim s \<noteq> [] \<longrightarrow> \<not> isspace (hd (trim s)) \<and> \<not> isspace (last (trim s)))"
proof -
  obtain v where v: "dropWhile isspace s = trim s @ v" "\<forall>c \<in> set v. isspace c"
    using drop_trailing_split[of "dropWhile isspace s" isspace] by (auto simp: trim_alt)
  have "s = takeWhile isspace s @ trim s @ v" using v(1) by (metis takeWhile_dropWhile_id)
  moreover have "\<forall>c \<in> set (takeWhile isspace s @ v). isspace c"
    using v(2) by (auto dest: set_takeWhileD)
  moreover have "trim s \<noteq> [] \<longrightarrow> \<not> isspace (hd (trim s)) \<and> \<not> isspace (last (trim s))"
    using dropWhile_drop_trailing[of isspace s] drop_trailing_last[of isspace "dropWhile isspace s"]
    by (simp add: trim_alt)
  ultimately show ?thesis by blast
qed

theorem trim_spec_witness:
  "\<exists>u v. '' a '' = u @ trim '' a '' @ v \<and> (\<forall>c \<in> set (u @ v). isspace c) \<and>
     (trim '' a '' \<noteq> [] \<longrightarrow> \<not> isspace (hd (trim '' a '')) \<and> \<not> isspace (last (trim '' a '')))"
  by (rule trim_spec)

section \<open>Sanitizing\<close>

definition harmless :: "char \<Rightarrow> bool" where
  "harmless c \<longleftrightarrow> \<not> is_sep c \<and> c \<notin> set invalidChars \<and> \<not> is_control c"

lemma harmless_underscore: "harmless (CHR ''_'')"
  by (simp add: harmless_def is_sep_def slash_def backslash_def invalidChars_def is_control_def)

lemma replaceChars_harmless: "\<forall>c \<in> set (replaceChars s). harmless c"
proof (induction s)
  case (Cons c s)
  then show ?case
    using harmless_underscore by (simp add: harmless_def is_sep_def)
qed simp

lemma replaceChars_id: "\<forall>c \<in> set s. harmless c \<Longrightarrow> replaceChars s = s"
  by (induction s) (simp_all add: harmless_def is_sep_def)

lemma sanitized_shape:
  "sanitizeFilename s \<noteq> [] \<and> (\<forall>c \<in> set (sanitizeFilename s). harmless c) \<and>
   \<not> edge (hd (sanitizeFilename s)) \<and> \<not> edge (last (sanitizeFilename s))"
proof -
  let ?r = "drop_trailing edge (dropWhile edge (replaceChars s))"
  have h: "\<forall>c \<in> set ?r. harmless c"
    using replaceChars_harmless[of s] set_drop_trailing[of edge "dropWhile edge (replaceChars s)"]
    by (auto dest: set_dropWhileD)
  have u: "\<forall>c \<in> set ''unnamed''. harmless c" "\<not> edge (hd ''unnamed'')" "\<not> edge (last ''unnamed'')"
    by (simp_all add: harmless_def is_sep_def slash_def backslash_def invalidChars_def
        is_control_def edge_def)
  show ?thesis
    using h u dropWhile_drop_trailing[of edge "replaceChars s"] drop_trailing_last[of edge "dropWhile edge (replaceChars s)"]
    by (auto simp: sanitizeFilename_def Let_def)
qed

lemma sanitize_shaped_id:
  assumes "s \<noteq> []" "\<forall>c \<in> set s. harmless c" "\<not> edge (hd s)" "\<not> edge (last s)"
  shows "sanitizeFilename s = s"
proof -
  have "dropWhile edge s = s" using assms(1,3) by (cases s) auto
  then show ?thesis
    using assms by (simp add: sanitizeFilename_def replaceChars_id drop_trailing_id Let_def)
qed

text \<open>
  Sanitizing is idempotent, and a sanitized name passes the validator exactly when it is short
  enough, has no \<open>..\<close> and is not a reserved device name (sanitizing removes every other reason for
  a rejection, and only those).
\<close>

theorem sanitizeFilename_sound:
  "sanitizeFilename (sanitizeFilename s) = sanitizeFilename s \<and>
   (isValidFilename (sanitizeFilename s) \<longleftrightarrow>
      length (sanitizeFilename s) \<le> 255 \<and> \<not> sublist ''..'' (sanitizeFilename s) \<and>
      stem (toLower (sanitizeFilename s)) \<notin> set reserved)"
  using sanitized_shape[of s] sanitize_shaped_id[of "sanitizeFilename s"]
  by (auto simp: isValidFilename_iff filename_ok_def harmless_def)

section \<open>Request identifiers\<close>

lemma length_hex_digits [simp]: "length (hex_digits k n) = k"
  by (simp add: hex_digits_def)

lemma digit_char_inject: "a < 16 \<Longrightarrow> b < 16 \<Longrightarrow> digit_char a = digit_char b \<longleftrightarrow> a = b"
  by (auto simp: digit_char_def char_of_quasi_inj split: if_splits)

lemma hex_digits_last4:
  assumes "hex_digits 8 a = hex_digits 8 b"
  shows "a mod 65536 = b mod 65536"
proof -
  have d: "a div 16 ^ i mod 16 = b div 16 ^ i mod 16" if "i < 8" for i
  proof -
    have "hex_digits 8 a ! (7 - i) = hex_digits 8 b ! (7 - i)" using assms by simp
    moreover have "hex_digits 8 n ! (7 - i) = digit_char (n div 16 ^ i mod 16)" for n
    proof -
      have i: "7 - i < 8" "8 - 1 - (7 - i) = i" using that by simp_all
      then have "[0..<8] ! (7 - i) = 7 - i" by (subst nth_upt) simp_all
      with i show ?thesis by (simp add: hex_digits_def del: upt_rec_numeral)
    qed
    ultimately have "digit_char (a div 16 ^ i mod 16) = digit_char (b div 16 ^ i mod 16)"
      by simp
    then show ?thesis by (simp add: digit_char_inject)
  qed
  have split: "n mod 65536 = n div 16 ^ 0 mod 16 + 16 * (n div 16 ^ 1 mod 16) + 256 * (n div 16 ^ 2 mod 16)
      + 4096 * (n div 16 ^ 3 mod 16)" for n :: nat
    using mod_mult2_eq[of n 16 4096] mod_mult2_eq[of "n div 16" 16 256]
      mod_mult2_eq[of "n div 16 div 16" 16 16] by (simp add: div_mult2_eq[symmetric])
  show ?thesis
    unfolding split[of a] split[of b] using d[of 0] d[of 1] d[of 2] d[of 3] by simp
qed

lemma mix_bits_low: "unat (mix_bits ms cnt) mod 65536 = unat cnt mod 65536"
proof -
  have m: "(0xFFFF :: u32) = mask 16" "(0xFFFF :: u64) = mask 16"
    by (simp_all add: mask_eq_exp_minus_1)
  have "take_bit 16 (mix_bits ms cnt) = take_bit 16 cnt"
    unfolding mix_bits_def Let_def m by (rule bit_word_eqI) (auto simp: bit_simps)
  then have "unat (take_bit 16 (mix_bits ms cnt)) = unat (take_bit 16 cnt)" by simp
  then show ?thesis unfolding unsigned_take_bit_eq by (simp add: take_bit_eq_mod)
qed

text \<open>
  Request identifiers have eight characters and two calls fewer than 65536 calls apart never
  return the same one, whatever the clock says.
\<close>

theorem request_ids_distinct:
  assumes "0 < k" "k < 65536"
  shows "length (fst (generateRequestId ms counter)) = 8 \<and>
    fst (generateRequestId ms counter) \<noteq> fst (generateRequestId ms' (counter + of_nat k))"
proof -
  define c where "c = counter + of_nat k"
  have c: "unat c mod 65536 = (unat counter + k) mod 65536"
    unfolding c_def
    by (simp add: unat_word_ariths unsigned_of_nat take_bit_eq_mod mod_mod_cancel mod_simps)
  have "(unat counter + k) mod 65536 \<noteq> unat counter mod 65536"
    using assms by (simp add: mod_eq_dvd_iff_nat nat_dvd_not_less)
  then have "unat (mix_bits ms counter) mod 65536 \<noteq> unat (mix_bits ms' c) mod 65536"
    unfolding mix_bits_low c by (rule not_sym)
  then have "hex_digits 8 (unat (mix_bits ms counter)) \<noteq> hex_digits 8 (unat (mix_bits ms' c))"
    using hex_digits_last4 by blast
  then show ?thesis
    unfolding c_def[symmetric] generateRequestId_def fst_conv length_hex_digits by simp
qed

theorem request_ids_distinct_witness:
  "fst (generateRequestId 0 0) \<noteq> fst (generateRequestId 0 (0 + of_nat 1))"
proof -
  have "(0::nat) < 1" "(1::nat) < 65536" by simp_all
  from request_ids_distinct[OF this] show ?thesis by blast
qed

end
