(* ===== verification/File_System.thy ===== *)
theory File_System
  imports Utils "HOL-Library.AList"
begin

text \<open>
  The part of a POSIX file system the program uses, and \<open>src/common/file_utils.cpp\<close> on top of it.
  The file system is a finite tree of inodes addressed by absolute paths, kept as an association
  list in the order \<open>readdir\<close> returns the entries. Not modelled: symbolic links, hard links, the
  length limits of the kernel and write errors after a successful \<open>open\<close>.
\<close>

section \<open>Inodes and path resolution\<close>

type_synonym path = "string list"

datatype inode = RegularFile string | Directory | Socket | Fifo | CharDevice | BlockDevice

text \<open>
  \<open>writable q\<close>: the process may create, write, unlink and rename the entry \<open>q\<close>. \<open>dir_size\<close> is what
  \<open>stat\<close> reports as the size of a directory.
\<close>

record filesystem =
  nodes :: "(path \<times> inode) list"
  cwd :: path
  writable :: "path \<Rightarrow> bool"
  dir_size :: nat

definition lookup :: "filesystem \<Rightarrow> path \<Rightarrow> inode option" where
  "lookup fs q = (if q = [] then Some Directory else map_of (nodes fs) q)"

fun components :: "string \<Rightarrow> string list" where
  "components [] = [[]]"
| "components (c # cs) =
     (if c = slash then [] # components cs
      else (c # hd (components cs)) # tl (components cs))"

text \<open>Every directory passed on the way must exist; the last component need not.\<close>

fun walk :: "filesystem \<Rightarrow> path \<Rightarrow> string list \<Rightarrow> path option" where
  "walk fs d [] = Some d"
| "walk fs d (c # cs) =
     (if lookup fs d \<noteq> Some Directory then None
      else if c = [] \<or> c = ''.'' then walk fs d cs
      else if c = ''..'' then walk fs (butlast d) cs
      else walk fs (d @ [c]) cs)"

definition resolve :: "filesystem \<Rightarrow> string \<Rightarrow> path option" where
  "resolve fs p =
     (let s = c_str p in
      if s = [] then None
      else walk fs (if hd s = slash then [] else cwd fs) (components s))"

definition stat :: "filesystem \<Rightarrow> string \<Rightarrow> inode option" where
  "stat fs p = Option.bind (resolve fs p) (lookup fs)"

definition S_IFREG :: u32 where "S_IFREG = 0x8000"
definition S_IFDIR :: u32 where "S_IFDIR = 0x4000"

text \<open>The file-type bits of \<open>st_mode\<close> as Linux defines them.\<close>

fun st_mode :: "inode \<Rightarrow> u32" where
  "st_mode (RegularFile content) = 0x8000"
| "st_mode Directory = 0x4000"
| "st_mode Socket = 0xC000"
| "st_mode Fifo = 0x1000"
| "st_mode CharDevice = 0x2000"
| "st_mode BlockDevice = 0x6000"

definition set_node :: "path \<Rightarrow> inode \<Rightarrow> filesystem \<Rightarrow> filesystem" where
  "set_node q n fs = fs\<lparr>nodes := AList.update q n (nodes fs)\<rparr>"

definition del_node :: "path \<Rightarrow> filesystem \<Rightarrow> filesystem" where
  "del_node q fs = fs\<lparr>nodes := AList.delete q (nodes fs)\<rparr>"

definition move_node :: "path \<Rightarrow> path \<Rightarrow> filesystem \<Rightarrow> filesystem" where
  "move_node a b fs = fs\<lparr>nodes :=
     map (\<lambda>(q, n). (if prefix a q then b @ drop (length a) q else q, n))
       (filter (\<lambda>(q, n). q \<noteq> b) (nodes fs))\<rparr>"

definition children :: "filesystem \<Rightarrow> path \<Rightarrow> string list" where
  "children fs d = map (\<lambda>(q, n). last q) (filter (\<lambda>(q, n). q \<noteq> [] \<and> butlast q = d) (nodes fs))"

section \<open>System calls\<close>

text \<open>\<open>std::ofstream(path, std::ios::binary)\<close>, writing \<open>content\<close> and closing. \<open>None\<close>: not opened.\<close>

definition write_file :: "string \<Rightarrow> string \<Rightarrow> filesystem \<Rightarrow> filesystem option" where
  "write_file p content fs =
     (case resolve fs p of
        None \<Rightarrow> None
      | Some q \<Rightarrow>
          (case lookup fs q of
             None \<Rightarrow> if writable fs q then Some (set_node q (RegularFile content) fs) else None
           | Some (RegularFile old) \<Rightarrow>
               if writable fs q then Some (set_node q (RegularFile content) fs) else None
           | Some other \<Rightarrow> None))"

definition unlink :: "string \<Rightarrow> filesystem \<Rightarrow> filesystem option" where
  "unlink p fs =
     (case resolve fs p of
        None \<Rightarrow> None
      | Some q \<Rightarrow>
          (case lookup fs q of
             None \<Rightarrow> None
           | Some Directory \<Rightarrow> None
           | Some n \<Rightarrow> if writable fs q then Some (del_node q fs) else None))"

definition rename :: "string \<Rightarrow> string \<Rightarrow> filesystem \<Rightarrow> filesystem option" where
  "rename p1 p2 fs =
     (case (resolve fs p1, resolve fs p2) of
        (Some a, Some b) \<Rightarrow>
          (case lookup fs a of
             None \<Rightarrow> None
           | Some n \<Rightarrow>
               if a = b then Some fs
               else if \<not> (writable fs a \<and> writable fs b) then None
               else if n = Directory then
                 (if prefix a b then None
                  else case lookup fs b of
                         None \<Rightarrow> Some (move_node a b fs)
                       | Some Directory \<Rightarrow>
                           if children fs b = [] then Some (move_node a b fs) else None
                       | Some other \<Rightarrow> None)
               else if lookup fs b = Some Directory then None
               else Some (move_node a b fs))
      | _ \<Rightarrow> None)"

definition mkdir :: "string \<Rightarrow> filesystem \<Rightarrow> filesystem option" where
  "mkdir p fs =
     (case resolve fs (drop_trailing (\<lambda>c. c = slash) p) of
        None \<Rightarrow> None
      | Some q \<Rightarrow>
          if lookup fs q = None \<and> writable fs q then Some (set_node q Directory fs) else None)"

section \<open>\<open>file_utils.cpp\<close>\<close>

definition fileExists :: "string \<Rightarrow> filesystem \<Rightarrow> bool" where
  "fileExists p fs \<longleftrightarrow>
     (case stat fs p of None \<Rightarrow> False | Some n \<Rightarrow> st_mode n AND S_IFREG \<noteq> 0)"

definition directoryExists :: "string \<Rightarrow> filesystem \<Rightarrow> bool" where
  "directoryExists p fs \<longleftrightarrow>
     (case stat fs p of None \<Rightarrow> False | Some n \<Rightarrow> st_mode n AND S_IFDIR \<noteq> 0)"

definition createDirectory :: "string \<Rightarrow> filesystem \<Rightarrow> bool \<times> filesystem" where
  "createDirectory p fs =
     (if directoryExists p fs then (True, fs)
      else case mkdir p fs of None \<Rightarrow> (False, fs) | Some fs' \<Rightarrow> (True, fs'))"

definition getFileSize :: "string \<Rightarrow> filesystem \<Rightarrow> u64" where
  "getFileSize p fs =
     (case stat fs p of
        None \<Rightarrow> 0
      | Some (RegularFile content) \<Rightarrow> of_nat (length content)
      | Some Directory \<Rightarrow> of_nat (dir_size fs)
      | Some other \<Rightarrow> 0)"

text \<open>\<open>opendir\<close> fails on everything that is not a directory; \<open>readdir\<close> also returns the two dots.\<close>

definition readdir :: "string \<Rightarrow> filesystem \<Rightarrow> string list option" where
  "readdir p fs =
     (case resolve fs p of
        None \<Rightarrow> None
      | Some d \<Rightarrow>
          if lookup fs d = Some Directory then Some (''.'' # ''..'' # children fs d) else None)"

definition listDirectory :: "string \<Rightarrow> filesystem \<Rightarrow> string list" where
  "listDirectory p fs =
     (case readdir p fs of
        None \<Rightarrow> []
      | Some names \<Rightarrow>
          filter (\<lambda>name. name \<noteq> ''.'' \<and> name \<noteq> ''..'' \<and> fileExists (p @ [slash] @ name) fs) names)"

definition deleteFile :: "string \<Rightarrow> filesystem \<Rightarrow> bool \<times> filesystem" where
  "deleteFile p fs = (case unlink p fs of None \<Rightarrow> (False, fs) | Some fs' \<Rightarrow> (True, fs'))"

definition renameFile :: "string \<Rightarrow> string \<Rightarrow> filesystem \<Rightarrow> bool \<times> filesystem" where
  "renameFile oldPath newPath fs =
     (case rename oldPath newPath fs of None \<Rightarrow> (False, fs) | Some fs' \<Rightarrow> (True, fs'))"

text \<open>
  Opening a directory for reading succeeds and the first read fails: \<open>istreambuf_iterator\<close> lets the
  exception of the stream buffer through (\<open>Inl\<close>), \<open>istream::read\<close> catches it and reads nothing.
\<close>

datatype ios_failure = IosFailure

definition readFile :: "string \<Rightarrow> filesystem \<Rightarrow> ios_failure + string option" where
  "readFile p fs =
     (case stat fs p of
        Some (RegularFile content) \<Rightarrow> Inr (Some content)
      | Some Directory \<Rightarrow> Inl IosFailure
      | _ \<Rightarrow> Inr None)"

definition writeFile :: "string \<Rightarrow> string \<Rightarrow> filesystem \<Rightarrow> bool \<times> filesystem" where
  "writeFile p content fs =
     (case write_file p content fs of None \<Rightarrow> (False, fs) | Some fs' \<Rightarrow> (True, fs'))"

definition readFileToBuffer :: "string \<Rightarrow> nat \<Rightarrow> string \<Rightarrow> filesystem \<Rightarrow> int \<times> string" where
  "readFileToBuffer p maxSize buffer fs =
     (case stat fs p of
        Some (RegularFile content) \<Rightarrow>
          (let got = take maxSize content in (int (length got), got @ drop (length got) buffer))
      | Some Directory \<Rightarrow> (0, buffer)
      | _ \<Rightarrow> (-1, buffer))"

definition writeBufferToFile :: "string \<Rightarrow> string \<Rightarrow> nat \<Rightarrow> filesystem \<Rightarrow> bool \<times> filesystem" where
  "writeBufferToFile p buffer count fs = writeFile p (take count buffer) fs"


section \<open>Well-formed trees\<close>

definition good_name :: "string \<Rightarrow> bool" where
  "good_name n \<longleftrightarrow> n \<noteq> [] \<and> slash \<notin> set n \<and> NUL \<notin> set n \<and> n \<noteq> ''.'' \<and> n \<noteq> ''..''"

definition fs_wf :: "filesystem \<Rightarrow> bool" where
  "fs_wf fs \<longleftrightarrow>
     distinct (map fst (nodes fs)) \<and>
     (\<forall>(q, n) \<in> set (nodes fs).
        q \<noteq> [] \<and> good_name (last q) \<and> lookup fs (butlast q) = Some Directory)"

definition is_dir :: "filesystem \<Rightarrow> path \<Rightarrow> bool" where
  "is_dir fs q \<longleftrightarrow> lookup fs q = Some Directory"

lemma lookup_set_node:
  "q \<noteq> [] \<Longrightarrow> lookup (set_node q n fs) p = (if p = q then Some n else lookup fs p)"
  by (simp add: lookup_def set_node_def update_conv')

lemma lookup_del_node:
  "q \<noteq> [] \<Longrightarrow> lookup (del_node q fs) p = (if p = q then None else lookup fs p)"
  by (simp add: lookup_def del_node_def delete_conv')

lemma fs_wf_lookup:
  "fs_wf fs \<Longrightarrow> lookup fs q = Some n \<Longrightarrow> q \<noteq> [] \<Longrightarrow> good_name (last q) \<and> is_dir fs (butlast q)"
  by (auto simp: fs_wf_def lookup_def is_dir_def dest!: map_of_SomeD)

lemma fs_wf_member:
  "fs_wf fs \<Longrightarrow> (q, n) \<in> set (nodes fs) \<longleftrightarrow> q \<noteq> [] \<and> lookup fs q = Some n"
  by (auto simp: fs_wf_def lookup_def)

text \<open>Nothing lies below an entry that is not a directory.\<close>

lemma fs_wf_below:
  assumes "fs_wf fs" "lookup fs (a @ r) \<noteq> None" "r \<noteq> []"
  shows "is_dir fs a"
  using assms(2,3)
proof (induction r rule: rev_induct)
  case (snoc x r)
  then obtain n where "lookup fs (a @ r @ [x]) = Some n" by auto
  with assms(1) have d: "is_dir fs (a @ r)"
    using fs_wf_lookup[of fs "a @ r @ [x]" n] by (simp add: butlast_append)
  show ?case
  proof (cases "r = []")
    case True
    with d show ?thesis by simp
  next
    case False
    with d snoc.IH show ?thesis by (simp add: is_dir_def)
  qed
qed simp

section \<open>Resolution looks at directories only\<close>

lemma components_nonempty [simp]: "components s \<noteq> []"
  by (induction s) auto

lemma components_append: "components (u @ slash # v) = components u @ components v"
  by (induction u) auto

lemma components_no_slash: "slash \<notin> set s \<Longrightarrow> components s = [s]"
  by (induction s) auto

lemma walk_append:
  "walk fs d (xs @ ys) = Option.bind (walk fs d xs) (\<lambda>d'. walk fs d' ys)"
  by (induction fs d xs rule: walk.induct) auto

lemma walk_cong:
  "(\<And>q. is_dir fs' q \<longleftrightarrow> is_dir fs q) \<Longrightarrow> walk fs' d cs = walk fs d cs"
  by (induction fs d cs rule: walk.induct) (auto simp: is_dir_def)

lemma resolve_cong:
  "(\<And>q. is_dir fs' q \<longleftrightarrow> is_dir fs q) \<Longrightarrow> cwd fs' = cwd fs \<Longrightarrow> resolve fs' p = resolve fs p"
  by (simp add: resolve_def Let_def walk_cong[of fs' fs])

text \<open>
  \<open>is_base fs b d\<close>: the configured directory name \<open>b\<close> denotes the directory \<open>d\<close>. A name that ends
  in a backslash is left out: \<open>joinPath\<close> takes the backslash for a separator, POSIX does not.
\<close>

definition is_base :: "filesystem \<Rightarrow> string \<Rightarrow> path \<Rightarrow> bool" where
  "is_base fs b d \<longleftrightarrow> b \<noteq> [] \<and> NUL \<notin> set b \<and> last b \<noteq> backslash \<and> resolve fs b = Some d \<and> is_dir fs d"

lemma resolve_child:
  assumes b: "is_base fs b d" and n: "NUL \<notin> set n" "slash \<notin> set n" "n \<noteq> []"
  shows "resolve fs (b @ slash # n) =
     Some (if n = ''.'' then d else if n = ''..'' then butlast d else d @ [n])"
proof -
  have ns: "NUL \<notin> set (b @ slash # n)" using b n by (auto simp: is_base_def slash_def NUL_def)
  have "components (b @ slash # n) = components b @ [n]"
    using n by (simp add: components_append components_no_slash)
  moreover have "hd (b @ slash # n) = hd b" using b by (simp add: is_base_def)
  ultimately have "resolve fs (b @ slash # n) = Option.bind (resolve fs b) (\<lambda>d'. walk fs d' [n])"
    using ns b by (simp add: resolve_def Let_def walk_append is_base_def)
  then show ?thesis using b n(3) by (simp add: is_base_def is_dir_def)
qed

lemma resolve_joinPath:
  assumes b: "is_base fs b d" and n: "NUL \<notin> set n" "n \<noteq> []" "\<forall>c \<in> set n. \<not> is_sep c"
  shows "resolve fs (joinPath b n) =
     Some (if n = ''.'' then d else if n = ''..'' then butlast d else d @ [n])"
proof -
  have sn: "slash \<notin> set n" using n(3) by (auto simp: is_sep_def)
  have hd: "\<not> is_sep (hd n)" using n by (cases n) auto
  have b': "b \<noteq> []" "last b \<noteq> backslash" using b by (simp_all add: is_base_def)
  show ?thesis
  proof (cases "is_sep (last b)")
    case False
    then have "joinPath b n = b @ slash # n" using b' hd n(2) by (simp add: joinPath_def)
    then show ?thesis using resolve_child[OF b n(1) sn n(2)] by simp
  next
    case True
    then obtain u where u: "b = u @ [slash]" using b' by (metis append_butlast_last_id is_sep_def)
    have j: "joinPath b n = u @ slash # n" using True b' hd n(2) u by (simp add: joinPath_def)
    have ns: "NUL \<notin> set (u @ slash # n)" "NUL \<notin> set (u @ [slash])"
      using b n(1) u by (auto simp: is_base_def)
    have "components b = components u @ [[]]" "components (u @ slash # n) = components u @ [n]"
      using u sn by (simp_all add: components_append components_no_slash)
    moreover have "hd (u @ slash # n) = hd b" using u by (cases u) auto
    ultimately have
      "resolve fs b = Option.bind (walk fs (if hd b = slash then [] else cwd fs) (components u)) (\<lambda>d'. walk fs d' [[]])"
      "resolve fs (u @ slash # n) = Option.bind (walk fs (if hd b = slash then [] else cwd fs) (components u)) (\<lambda>d'. walk fs d' [n])"
      using ns u by (simp_all add: resolve_def Let_def walk_append)
    then show ?thesis using b n(2) unfolding j
      by (auto simp: is_base_def is_dir_def bind_eq_Some_conv split: if_splits)
  qed
qed

lemma valid_names_confined:
  assumes "is_base fs b d" "isValidFilename n"
  shows "resolve fs (joinPath b n) = Some (if n = ''.'' then d else d @ [n])"
  using resolve_joinPath[OF assms(1)] isValidFilenameD[OF assms(2)] by simp

text \<open>
  C11: confinement. A name the validator accepts, joined to the backup directory, denotes an entry
  directly inside that directory, never the directory above or a path elsewhere; the one exception
  is the accepted name \<open>.\<close>, which denotes the directory itself.
\<close>

theorem valid_name_inside:
  assumes "is_base fs b d" "isValidFilename n" "resolve fs (joinPath b n) = Some q"
  shows "q = d \<and> n = ''.'' \<or> q = d @ [n] \<and> butlast q = d"
  using valid_names_confined[OF assms(1,2)] assms(3) by (auto split: if_splits)

theorem valid_name_inside_witness:
  "resolve \<lparr>nodes = [([''backup''], Directory)], cwd = [], writable = (\<lambda>q. True), dir_size = 0\<rparr>
     (joinPath ''backup'' ''a.txt'') = Some [''backup'', ''a.txt'']"
proof -
  let ?f = "\<lparr>nodes = [([''backup''], Directory)], cwd = [], writable = (\<lambda>q. True), dir_size = 0\<rparr>"
  have b: "is_base ?f ''backup'' [''backup'']"
    by (simp add: is_base_def is_dir_def resolve_def lookup_def slash_def c_str_def NUL_def backslash_def)
  obtain q where q: "resolve ?f (joinPath ''backup'' ''a.txt'') = Some q"
    using valid_names_confined[OF b, of "''a.txt''"] by auto
  then show ?thesis using valid_name_inside[OF b _ q] by auto
qed


section \<open>Effect of the system calls\<close>

lemma write_file_effect:
  assumes "write_file p content fs = Some fs'"
  obtains q where "resolve fs p = Some q" "q \<noteq> []" "\<not> is_dir fs q"
    "lookup fs q = None \<or> (\<exists>old. lookup fs q = Some (RegularFile old))"
    "fs' = set_node q (RegularFile content) fs"
    "lookup fs' = (lookup fs)(q \<mapsto> RegularFile content)"
proof -
  obtain q where q: "resolve fs p = Some q" "fs' = set_node q (RegularFile content) fs"
    "lookup fs q = None \<or> (\<exists>old. lookup fs q = Some (RegularFile old))"
    using assms by (auto simp: write_file_def split: option.splits inode.splits if_splits)
  then have "q \<noteq> []" by (auto simp: lookup_def)
  with q show ?thesis
    by (intro that[of q]) (auto simp: lookup_set_node is_dir_def)
qed

lemma unlink_effect:
  assumes "unlink p fs = Some fs'"
  obtains q where "resolve fs p = Some q" "q \<noteq> []" "\<not> is_dir fs q" "lookup fs q \<noteq> None"
    "fs' = del_node q fs" "lookup fs' = (lookup fs)(q := None)"
proof -
  obtain q n where q: "resolve fs p = Some q" "fs' = del_node q fs"
    "lookup fs q = Some n" "n \<noteq> Directory"
    using assms by (auto simp: unlink_def split: option.splits inode.splits if_splits)
  then have "q \<noteq> []" by (auto simp: lookup_def)
  with q show ?thesis
    by (intro that[of q]) (auto simp: lookup_del_node is_dir_def)
qed

lemma map_of_move:
  assumes "\<forall>(q, n) \<in> set xs. prefix a q \<longrightarrow> q = a" "distinct (map fst xs)" "a \<noteq> b"
  shows "map_of (map (\<lambda>(q, n). (if prefix a q then b @ drop (length a) q else q, n))
       (filter (\<lambda>(q, n). q \<noteq> b) xs)) p =
     (if p = b then map_of xs a else if p = a then None else map_of xs p)"
  using assms
proof (induction xs)
  case (Cons x xs)
  obtain q n where x: "x = (q, n)" by (cases x)
  have ih: "map_of (map (\<lambda>(q, n). (if prefix a q then b @ drop (length a) q else q, n))
       (filter (\<lambda>(q, n). q \<noteq> b) xs)) p =
     (if p = b then map_of xs a else if p = a then None else map_of xs p)"
    using Cons by auto
  have "q = a \<longrightarrow> map_of xs a = None"
    using Cons.prems(2) x by (auto simp: map_of_eq_None_iff)
  moreover have "prefix a q \<longleftrightarrow> q = a" using Cons.prems(1) x by auto
  ultimately show ?case using ih x Cons.prems(3) by auto
qed simp

lemma nondir_no_prefix:
  assumes "fs_wf fs" "\<not> is_dir fs a"
  shows "\<forall>(q, n) \<in> set (nodes fs). prefix a q \<longrightarrow> q = a"
proof (safe)
  fix q n assume m: "(q, n) \<in> set (nodes fs)" and "prefix a q"
  then obtain r where r: "q = a @ r" by (auto simp: prefix_def)
  have "lookup fs (a @ r) \<noteq> None" using m r fs_wf_member[OF assms(1)] by auto
  with assms show "q = a" using fs_wf_below[OF assms(1)] r by (cases "r = []") auto
qed

lemma lookup_move_node:
  assumes "fs_wf fs" "\<not> is_dir fs a" "a \<noteq> b" "b \<noteq> []"
  shows "lookup (move_node a b fs) = (lookup fs)(a := None, b := lookup fs a)"
proof
  fix p
  have a: "a \<noteq> []" using assms(2) by (auto simp: is_dir_def lookup_def)
  have "distinct (map fst (nodes fs))" using assms(1) by (simp add: fs_wf_def)
  from map_of_move[OF nondir_no_prefix[OF assms(1,2)] this assms(3)]
  show "lookup (move_node a b fs) p = ((lookup fs)(a := None, b := lookup fs a)) p"
    using a assms(3,4) by (auto simp: lookup_def move_node_def)
qed

lemma rename_effect:
  assumes "rename p1 p2 fs = Some fs'" "fs_wf fs" "resolve fs p1 = Some a" "\<not> is_dir fs a"
  obtains b where "resolve fs p2 = Some b" "lookup fs a \<noteq> None" "b \<noteq> []" "\<not> is_dir fs b"
    "fs' = (if a = b then fs else move_node a b fs)"
    "lookup fs' = (if a = b then lookup fs else (lookup fs)(a := None, b := lookup fs a))"
proof -
  obtain b n where b: "resolve fs p2 = Some b" "lookup fs a = Some n" "n \<noteq> Directory"
    "a = b \<and> fs' = fs \<or> a \<noteq> b \<and> lookup fs b \<noteq> Some Directory \<and> fs' = move_node a b fs"
    using assms
    by (auto simp: rename_def is_dir_def split: option.splits if_splits)
  then have "b \<noteq> []" by (auto simp: lookup_def)
  with b show ?thesis
    using lookup_move_node[OF assms(2,4)] by (intro that[of b]) (auto simp: is_dir_def)
qed

section \<open>The operations keep the tree well-formed\<close>

lemma resolve_components:
  "c \<in> set (components s) \<Longrightarrow> slash \<notin> set c \<and> set c \<subseteq> set s"
proof (induction s arbitrary: c)
  case (Cons x s)
  obtain p ps where p: "components s = p # ps" by (cases "components s") auto
  show ?case
  proof (cases "x = slash")
    case True
    then show ?thesis using Cons by auto
  next
    case False
    then have "c = x # p \<or> c \<in> set ps" using Cons.prems p by simp
    then show ?thesis using Cons.IH[of p] Cons.IH[of c] p False by auto
  qed
qed simp

definition placed :: "filesystem \<Rightarrow> path \<Rightarrow> bool" where
  "placed fs q \<longleftrightarrow> is_dir fs q \<or> q \<noteq> [] \<and> good_name (last q) \<and> is_dir fs (butlast q)"

lemma is_dir_butlast: "fs_wf fs \<Longrightarrow> is_dir fs d \<Longrightarrow> is_dir fs (butlast d)"
  using fs_wf_lookup[of fs d Directory] by (cases "d = []") (auto simp: is_dir_def)

lemma walk_placed:
  "fs_wf fs \<Longrightarrow> placed fs d \<Longrightarrow> \<forall>c \<in> set cs. slash \<notin> set c \<and> NUL \<notin> set c \<Longrightarrow>
     walk fs d cs = Some q \<Longrightarrow> placed fs q"
proof (induction fs d cs rule: walk.induct)
  case (2 fs d c cs)
  then have d: "is_dir fs d" by (auto simp: is_dir_def split: if_splits)
  have "placed fs (butlast d)" using is_dir_butlast 2(4) d by (simp add: placed_def)
  moreover have "c \<noteq> [] \<Longrightarrow> c \<noteq> ''.'' \<Longrightarrow> c \<noteq> ''..'' \<Longrightarrow> placed fs (d @ [c])"
    using 2(6) d by (simp add: placed_def good_name_def)
  ultimately show ?case using 2 d by (auto simp: is_dir_def split: if_splits)
qed simp

definition fs_ok :: "filesystem \<Rightarrow> bool" where
  "fs_ok fs \<longleftrightarrow> fs_wf fs \<and> is_dir fs (cwd fs)"

lemma is_dir_root [simp]: "is_dir fs []"
  by (simp add: is_dir_def lookup_def)

lemma resolve_placed:
  assumes "fs_ok fs" "resolve fs p = Some q"
  shows "placed fs q"
proof -
  obtain d where d: "walk fs d (components (c_str p)) = Some q" "is_dir fs d"
    using assms by (auto simp: resolve_def Let_def fs_ok_def split: if_splits)
  have "\<forall>c \<in> set (components (c_str p)). slash \<notin> set c \<and> NUL \<notin> set c"
    using resolve_components c_str_no_nul by blast
  with d assms(1) show ?thesis
    using walk_placed[of fs d] by (simp add: fs_ok_def placed_def)
qed


text \<open>\<open>same_dirs\<close>: the directories, and so the meaning of every path, did not change.\<close>

definition same_dirs :: "filesystem \<Rightarrow> filesystem \<Rightarrow> bool" where
  "same_dirs fs fs' \<longleftrightarrow>
     (\<forall>q. is_dir fs' q \<longleftrightarrow> is_dir fs q) \<and> cwd fs' = cwd fs \<and> writable fs' = writable fs"

lemma same_dirs_refl [simp]: "same_dirs fs fs"
  by (simp add: same_dirs_def)

lemma same_dirs_trans: "same_dirs fs fs' \<Longrightarrow> same_dirs fs' fs'' \<Longrightarrow> same_dirs fs fs''"
  by (simp add: same_dirs_def)

lemma same_dirs_resolve: "same_dirs fs fs' \<Longrightarrow> resolve fs' p = resolve fs p"
  unfolding same_dirs_def by (rule resolve_cong) blast+

lemma same_dirs_base: "same_dirs fs fs' \<Longrightarrow> is_base fs' b d \<longleftrightarrow> is_base fs b d"
proof -
  assume sd: "same_dirs fs fs'"
  then have "is_dir fs' d \<longleftrightarrow> is_dir fs d" by (simp add: same_dirs_def)
  then show ?thesis unfolding is_base_def same_dirs_resolve[OF sd] by simp
qed

lemma fs_wfI:
  assumes "distinct (map fst (nodes fs'))"
    "\<And>q n. q \<noteq> [] \<Longrightarrow> lookup fs' q = Some n \<Longrightarrow> good_name (last q) \<and> is_dir fs' (butlast q)"
    "[] \<notin> fst ` set (nodes fs')"
  shows "fs_wf fs'"
  unfolding fs_wf_def
proof (intro conjI assms(1) ballI, clarify, intro conjI)
  fix q n assume m: "(q, n) \<in> set (nodes fs')"
  then show q: "q \<noteq> []" using assms(3) by (metis fst_conv image_eqI)
  have "lookup fs' q = Some n" using m q assms(1) by (simp add: lookup_def)
  with assms(2) q show "good_name (last q)" "lookup fs' (butlast q) = Some Directory"
    by (auto simp: is_dir_def)
qed

lemma no_root_node: "fs_wf fs \<Longrightarrow> [] \<notin> fst ` set (nodes fs)"
  by (auto simp: fs_wf_def)

lemma write_file_keeps:
  assumes ok: "fs_ok fs" and w: "write_file p content fs = Some fs'"
  shows "fs_ok fs' \<and> same_dirs fs fs'"
proof -
  obtain q where q: "resolve fs p = Some q" "q \<noteq> []" "\<not> is_dir fs q"
    "fs' = set_node q (RegularFile content) fs" "lookup fs' = (lookup fs)(q \<mapsto> RegularFile content)"
    using w by (rule write_file_effect)
  have dirs: "is_dir fs' p \<longleftrightarrow> is_dir fs p" for p
    using q(3,5) by (auto simp: is_dir_def)
  then have sd: "same_dirs fs fs'" using q(4) by (simp add: same_dirs_def set_node_def)
  have pl: "good_name (last q) \<and> is_dir fs (butlast q)"
    using resolve_placed[OF ok q(1)] q(3) by (simp add: placed_def)
  have wf: "fs_wf fs" using ok by (simp add: fs_ok_def)
  have "fs_wf fs'"
  proof (rule fs_wfI)
    show "distinct (map fst (nodes fs'))"
      using wf q(4) by (simp add: set_node_def fs_wf_def distinct_update)
    show "[] \<notin> fst ` set (nodes fs')"
      using no_root_node[OF wf] q(2,4) by (simp add: set_node_def dom_update)
    fix r n assume "r \<noteq> []" "lookup fs' r = Some n"
    then show "good_name (last r) \<and> is_dir fs' (butlast r)"
      using pl fs_wf_lookup[OF wf] q(5) unfolding dirs by (cases "r = q") auto
  qed
  with sd ok show ?thesis unfolding fs_ok_def same_dirs_def by simp
qed

lemma unlink_keeps:
  assumes ok: "fs_ok fs" and u: "unlink p fs = Some fs'"
  shows "fs_ok fs' \<and> same_dirs fs fs'"
proof -
  obtain q where q: "q \<noteq> []" "\<not> is_dir fs q" "fs' = del_node q fs" "lookup fs' = (lookup fs)(q := None)"
    using u by (rule unlink_effect)
  have dirs: "is_dir fs' p \<longleftrightarrow> is_dir fs p" for p
    using q(2,4) by (auto simp: is_dir_def)
  then have sd: "same_dirs fs fs'" using q(3) by (simp add: same_dirs_def del_node_def)
  have wf: "fs_wf fs" using ok by (simp add: fs_ok_def)
  have "fs_wf fs'"
  proof (rule fs_wfI)
    show "distinct (map fst (nodes fs'))"
      using wf q(3) by (simp add: del_node_def fs_wf_def distinct_delete)
    show "[] \<notin> fst ` set (nodes fs')"
      using no_root_node[OF wf] q(3) dom_delete_subset[of q "nodes fs"] by (auto simp: del_node_def)
    fix r n assume "r \<noteq> []" "lookup fs' r = Some n"
    then show "good_name (last r) \<and> is_dir fs' (butlast r)"
      using fs_wf_lookup[OF wf] q(4) unfolding dirs by (cases "r = q") auto
  qed
  with sd ok show ?thesis unfolding fs_ok_def same_dirs_def by simp
qed

lemma map_fst_move:
  "\<forall>(q, n) \<in> set xs. prefix a q \<longrightarrow> q = a \<Longrightarrow>
   map fst (map (\<lambda>(q, n). (if prefix a q then b @ drop (length a) q else q, n))
       (filter (\<lambda>(q, n). q \<noteq> b) xs)) =
     map (\<lambda>q. if q = a then b else q) (filter (\<lambda>q. q \<noteq> b) (map fst xs))"
  by (induction xs) auto

lemma rename_keeps:
  assumes ok: "fs_ok fs" and r: "rename p1 p2 fs = Some fs'" "resolve fs p1 = Some a" "\<not> is_dir fs a"
  shows "fs_ok fs' \<and> same_dirs fs fs'"
proof -
  have wf: "fs_wf fs" using ok by (simp add: fs_ok_def)
  obtain b where b: "resolve fs p2 = Some b" "lookup fs a \<noteq> None" "b \<noteq> []" "\<not> is_dir fs b"
    "fs' = (if a = b then fs else move_node a b fs)"
    "lookup fs' = (if a = b then lookup fs else (lookup fs)(a := None, b := lookup fs a))"
    using rename_effect[OF r(1) wf r(2,3)] by blast
  show ?thesis
  proof (cases "a = b")
    case True
    with b(5) ok show ?thesis by simp
  next
    case False
    have dirs: "is_dir fs' p \<longleftrightarrow> is_dir fs p" for p
      using b(4,6) r(3) False by (auto simp: is_dir_def)
    then have sd: "same_dirs fs fs'" using b(5) False by (simp add: same_dirs_def move_node_def)
    have pl: "good_name (last b) \<and> is_dir fs (butlast b)"
      using resolve_placed[OF ok b(1)] b(4) by (simp add: placed_def)
    have keys: "map fst (nodes fs') =
        map (\<lambda>q. if q = a then b else q) (filter (\<lambda>q. q \<noteq> b) (map fst (nodes fs)))"
      using map_fst_move[OF nondir_no_prefix[OF wf r(3)]] b(5) False by (simp add: move_node_def)
    have d: "distinct (map fst (nodes fs'))"
      unfolding keys using wf by (auto simp: fs_wf_def distinct_map inj_on_def)
    have "[] \<notin> set (map fst (nodes fs'))"
      unfolding keys using no_root_node[OF wf] b(3) by auto
    then have "[] \<notin> fst ` set (nodes fs')" by simp
    from d _ this have "fs_wf fs'"
    proof (rule fs_wfI)
      fix r n assume "r \<noteq> []" "lookup fs' r = Some n"
      then show "good_name (last r) \<and> is_dir fs' (butlast r)"
        using pl fs_wf_lookup[OF wf] b(6) False unfolding dirs by (cases "r = b") (auto split: if_splits)
    qed
    with sd ok show ?thesis unfolding fs_ok_def same_dirs_def by simp
  qed
qed

section \<open>The contract of the file utilities\<close>

text \<open>A path that does not denote what one of \<open>ps\<close> denotes shows what it showed before.\<close>

definition elsewhere :: "string list \<Rightarrow> filesystem \<Rightarrow> filesystem \<Rightarrow> bool" where
  "elsewhere ps f g \<longleftrightarrow> (\<forall>p'. (\<forall>p \<in> set ps. resolve f p' \<noteq> resolve f p) \<longrightarrow> stat g p' = stat f p')"

lemma elsewhereI:
  assumes "same_dirs f g" "\<And>q. (\<forall>p \<in> set ps. resolve f p \<noteq> Some q) \<Longrightarrow> lookup g q = lookup f q"
  shows "elsewhere ps f g"
  unfolding elsewhere_def stat_def
proof (intro allI impI)
  fix p' assume p: "\<forall>p \<in> set ps. resolve f p' \<noteq> resolve f p"
  have "lookup g q = lookup f q" if "resolve f p' = Some q" for q
    using p that by (intro assms(2)) (metis option.inject)
  then show "Option.bind (resolve g p') (lookup g) = Option.bind (resolve f p') (lookup f)"
    using same_dirs_resolve[OF assms(1)] by (cases "resolve f p'") simp_all
qed

text \<open>When the system lets the process write, delete, move (what is no directory) or create.\<close>

definition can_write :: "filesystem \<Rightarrow> string \<Rightarrow> bool" where
  "can_write f p \<longleftrightarrow>
     (case resolve f p of
        None \<Rightarrow> False
      | Some q \<Rightarrow> writable f q \<and> (case lookup f q of None \<Rightarrow> True | Some (RegularFile y) \<Rightarrow> True | _ \<Rightarrow> False))"

definition can_delete :: "filesystem \<Rightarrow> string \<Rightarrow> bool" where
  "can_delete f p \<longleftrightarrow>
     (case resolve f p of
        None \<Rightarrow> False
      | Some q \<Rightarrow> writable f q \<and> lookup f q \<noteq> None \<and> lookup f q \<noteq> Some Directory)"

definition can_move :: "filesystem \<Rightarrow> string \<Rightarrow> string \<Rightarrow> bool" where
  "can_move f old new \<longleftrightarrow>
     (case (resolve f old, resolve f new) of
        (Some a, Some b) \<Rightarrow>
          lookup f a \<noteq> None \<and> lookup f b \<noteq> Some Directory \<and> (a = b \<or> writable f a \<and> writable f b)
      | _ \<Rightarrow> False)"

definition can_create :: "filesystem \<Rightarrow> string \<Rightarrow> bool" where
  "can_create f p \<longleftrightarrow>
     (case resolve f (drop_trailing (\<lambda>c. c = slash) p) of
        None \<Rightarrow> False
      | Some q \<Rightarrow> lookup f q = None \<and> writable f q)"

lemma write_file_None: "write_file p x f = None \<longleftrightarrow>
    \<not> can_write f p"
  by (auto simp: write_file_def can_write_def split: option.splits inode.splits)

lemma writeFile_contract:
  assumes "fs_ok f"
  shows "case writeFile p x f of (b, g) \<Rightarrow> fs_ok g \<and>
    (b \<longleftrightarrow> can_write f p) \<and>
    (if b then fileExists p g \<and> readFile p g = Inr (Some x) \<and> getFileSize p g = of_nat (length x) \<and> elsewhere [p] f g
     else g = f)"
proof (cases "write_file p x f")
  case None
  then show ?thesis using write_file_None[of p x f] assms by (simp add: writeFile_def)
next
  case (Some g)
  obtain q where q: "resolve f p = Some q" "lookup g = (lookup f)(q \<mapsto> RegularFile x)"
    using Some by (rule write_file_effect)
  have k: "fs_ok g" "same_dirs f g" using write_file_keeps[OF assms Some] by simp_all
  then have "stat g p = Some (RegularFile x)" using q same_dirs_resolve[OF k(2)] by (simp add: stat_def)
  moreover have "elsewhere [p] f g" using q by (intro elsewhereI[OF k(2)]) simp
  ultimately show ?thesis
    using Some k write_file_None[of p x f]
    by (simp add: writeFile_def fileExists_def readFile_def getFileSize_def S_IFREG_def)
qed

lemma unlink_None: "unlink p f = None \<longleftrightarrow>
    \<not> can_delete f p"
  by (auto simp: unlink_def can_delete_def split: option.splits inode.splits)

lemma deleteFile_contract:
  assumes "fs_ok f"
  shows "case deleteFile p f of (b, g) \<Rightarrow> fs_ok g \<and>
    (b \<longleftrightarrow> can_delete f p) \<and>
    (if b then stat g p = None \<and> elsewhere [p] f g else g = f)"
proof (cases "unlink p f")
  case None
  then show ?thesis using unlink_None[of p f] assms by (simp add: deleteFile_def)
next
  case (Some g)
  obtain q where q: "resolve f p = Some q" "lookup g = (lookup f)(q := None)"
    using Some by (rule unlink_effect)
  have k: "fs_ok g" "same_dirs f g" using unlink_keeps[OF assms Some] by simp_all
  then have "stat g p = None" using q same_dirs_resolve[OF k(2)] by (simp add: stat_def)
  moreover have "elsewhere [p] f g" using q by (intro elsewhereI[OF k(2)]) simp
  ultimately show ?thesis using Some k unlink_None[of p f] by (simp add: deleteFile_def)
qed

lemma rename_None: "stat f old \<noteq> Some Directory \<Longrightarrow> rename old new f = None \<longleftrightarrow>
    \<not> can_move f old new"
  by (auto simp: rename_def stat_def can_move_def split: option.splits)

lemma renameFile_contract:
  assumes "fs_ok f" "stat f old \<noteq> Some Directory"
  shows "case renameFile old new f of (b, g) \<Rightarrow> fs_ok g \<and>
    (b \<longleftrightarrow> can_move f old new) \<and>
    (if b then stat g new = stat f old \<and> (resolve f old \<noteq> resolve f new \<longrightarrow> stat g old = None) \<and> elsewhere [old, new] f g
     else g = f)"
proof (cases "rename old new f")
  case None
  then show ?thesis using rename_None[OF assms(2), of new] assms(1) by (simp add: renameFile_def)
next
  case (Some g)
  then obtain a where a: "resolve f old = Some a" by (auto simp: rename_def split: option.splits)
  then have d: "\<not> is_dir f a" using assms(2) by (simp add: stat_def is_dir_def)
  have wf: "fs_wf f" using assms(1) by (simp add: fs_ok_def)
  obtain b where b: "resolve f new = Some b" "lookup g = (if a = b then lookup f else (lookup f)(a := None, b := lookup f a))"
    using rename_effect[OF Some wf a d] by metis
  have k: "fs_ok g" "same_dirs f g" using rename_keeps[OF assms(1) Some a d] by simp_all
  have "stat g new = stat f old" "resolve f old \<noteq> resolve f new \<longrightarrow> stat g old = None"
    using a b same_dirs_resolve[OF k(2)] by (auto simp: stat_def)
  moreover have "elsewhere [old, new] f g" using a b by (intro elsewhereI[OF k(2)]) auto
  ultimately show ?thesis using Some k rename_None[OF assms(2), of new] by (simp add: renameFile_def)
qed

text \<open>Creating a directory: paths that led somewhere still lead there.\<close>

lemma walk_mono:
  "(\<And>q. is_dir f q \<Longrightarrow> is_dir g q) \<Longrightarrow> walk f d cs = Some q \<Longrightarrow> walk g d cs = Some q"
  by (induction f d cs rule: walk.induct) (auto simp: is_dir_def split: if_splits)

lemma resolve_mono:
  "(\<And>q. is_dir f q \<Longrightarrow> is_dir g q) \<Longrightarrow> cwd g = cwd f \<Longrightarrow> resolve f p = Some q \<Longrightarrow> resolve g p = Some q"
  by (auto simp: resolve_def Let_def split: if_splits intro: walk_mono)

lemma resolve_one_slash:
  assumes "resolve f x = Some q" "is_dir f q" "NUL \<notin> set x" "x \<noteq> []"
  shows "resolve f (x @ [slash]) = Some q"
proof -
  have n: "NUL \<notin> set (x @ [slash])" using assms(3) by (simp add: slash_def NUL_def)
  have "components (x @ [slash]) = components x @ [[]]" using components_append[of x "[]"] by simp
  moreover have "hd (x @ [slash]) = hd x" using assms(4) by simp
  ultimately have "resolve f (x @ [slash]) = Option.bind (resolve f x) (\<lambda>d. walk f d [[]])"
    using n assms(3,4) by (simp add: resolve_def Let_def walk_append)
  then show ?thesis using assms(1,2) by (simp add: is_dir_def)
qed

lemma resolve_slashes:
  assumes "resolve f p = Some q" "is_dir f q"
  shows "resolve f (p @ replicate n slash) = Some q"
proof (induction n)
  case (Suc n)
  let ?p = "p @ replicate n slash"
  show ?case
  proof (cases "NUL \<in> set p")
    case True
    then obtain u v where "p = u @ NUL # v" "NUL \<notin> set u" by (metis split_list_first)
    then have "c_str (p @ replicate k slash) = u" for k by simp
    then have "resolve f (p @ replicate (Suc n) slash) = resolve f ?p" by (simp only: resolve_def)
    with Suc show ?thesis by simp
  next
    case False
    then have "NUL \<notin> set ?p" by (auto simp: slash_def NUL_def)
    moreover have "p \<noteq> []" using assms(1) by (auto simp: resolve_def c_str_def)
    ultimately have "resolve f (?p @ [slash]) = Some q" using Suc assms(2) by (intro resolve_one_slash) simp_all
    then show ?thesis by (simp add: replicate_append_same)
  qed
qed (use assms in simp)

lemma drop_trailing_slashes: "\<exists>n. p = drop_trailing (\<lambda>c. c = slash) p @ replicate n slash"
proof -
  have "\<exists>n. takeWhile (\<lambda>c. c = slash) xs = replicate n slash" for xs
    by (metis (full_types) replicate_length_same set_takeWhileD)
  then obtain n where "takeWhile (\<lambda>c. c = slash) (rev p) = replicate n slash" by blast
  then have "rev p = replicate n slash @ dropWhile (\<lambda>c. c = slash) (rev p)" by (metis takeWhile_dropWhile_id)
  then have "p = rev (dropWhile (\<lambda>c. c = slash) (rev p)) @ replicate n slash"
    by (metis rev_append rev_replicate rev_rev_ident)
  then show ?thesis unfolding drop_trailing_def by blast
qed

lemma mkdir_effect:
  assumes "fs_ok f" "mkdir p f = Some g"
  shows "fs_ok g \<and> stat g p = Some Directory \<and> (\<forall>p' n. stat f p' = Some n \<longrightarrow> stat g p' = Some n)"
proof -
  let ?s = "drop_trailing (\<lambda>c. c = slash) p"
  obtain q where q: "resolve f ?s = Some q" "lookup f q = None" "g = set_node q Directory f"
    using assms(2) by (auto simp: mkdir_def split: option.splits if_splits)
  have qn: "q \<noteq> []" using q(2) by (auto simp: lookup_def)
  have l: "lookup g = (lookup f)(q \<mapsto> Directory)" using qn q(3) by (auto simp: lookup_set_node)
  have up: "is_dir f d \<Longrightarrow> is_dir g d" "is_dir g q" "cwd g = cwd f" for d
    using l q(2,3) by (auto simp: is_dir_def set_node_def)
  have pl: "good_name (last q) \<and> is_dir f (butlast q)"
    using resolve_placed[OF assms(1) q(1)] q(2) by (simp add: placed_def is_dir_def)
  have wf: "fs_wf f" using assms(1) by (simp add: fs_ok_def)
  have "fs_wf g"
  proof (rule fs_wfI)
    show "distinct (map fst (nodes g))" using wf q(3) by (simp add: set_node_def fs_wf_def distinct_update)
    show "[] \<notin> fst ` set (nodes g)" using no_root_node[OF wf] qn q(3) by (simp add: set_node_def dom_update)
    fix r n assume "r \<noteq> []" "lookup g r = Some n"
    then show "good_name (last r) \<and> is_dir g (butlast r)"
      using pl fs_wf_lookup[OF wf] up(1) l by (cases "r = q") auto
  qed
  moreover obtain n where "p = ?s @ replicate n slash" using drop_trailing_slashes by blast
  moreover have "resolve g ?s = Some q" using resolve_mono[OF up(1,3) q(1)] .
  then have "resolve g (?s @ replicate n slash) = Some q" using up(2) by (rule resolve_slashes)
  moreover have "stat g p' = Some n" if s: "stat f p' = Some n" for p' n
  proof -
    obtain q' where q': "resolve f p' = Some q'" "lookup f q' = Some n" using s by (auto simp: stat_def bind_eq_Some_conv)
    then have "resolve g p' = Some q'" using resolve_mono[OF up(1,3)] by blast
    with q' q(2) show ?thesis by (auto simp: stat_def l)
  qed
  ultimately show ?thesis using assms(1) up l by (simp add: fs_ok_def stat_def)
qed

lemma createDirectory_contract:
  assumes "fs_ok f"
  shows "case createDirectory p f of (b, g) \<Rightarrow> fs_ok g \<and>
    (b \<longleftrightarrow> directoryExists p f \<or> can_create f p) \<and>
    (b \<longrightarrow> directoryExists p g) \<and> (\<not> b \<or> directoryExists p f \<longrightarrow> g = f) \<and> (\<forall>p' n. stat f p' = Some n \<longrightarrow> stat g p' = Some n)"
proof (cases "\<not> directoryExists p f \<and> mkdir p f \<noteq> None")
  case True
  then obtain g where g: "mkdir p f = Some g" by blast
  then have "can_create f p"
    by (auto simp: mkdir_def can_create_def split: option.splits if_splits)
  with True g mkdir_effect[OF assms g] show ?thesis
    by (simp add: createDirectory_def directoryExists_def S_IFDIR_def)
next
  case False
  have "mkdir p f = None \<longrightarrow> \<not> can_create f p"
    by (auto simp: mkdir_def can_create_def split: option.splits)
  with False assms show ?thesis by (auto simp: createDirectory_def)
qed



end
