(* ===== verification/Codec.thy ===== *)
theory Codec
  imports Prelude
begin

text \<open>
  The interface of a fixed-width encoding, and the encodings of the unsigned integers as a C++
  program lays them out in memory. The program sends its structs as they lie in memory
  (\<open>reinterpret_cast<const char*>(&msg)\<close>) and never calls the declared \<open>hostToNetwork\<close>, so the
  byte order of the machine is a parameter of the encoding.
\<close>

section \<open>The interface\<close>

text \<open>
  \<open>enc\<close> and \<open>dec\<close> are the two directions, \<open>width\<close> the size of the encoding, \<open>ok\<close> the values the
  encoding is meant for. The provider promises the width and that decoding recovers the value.
\<close>

locale codec =
  fixes enc :: "'a \<Rightarrow> string"
    and dec :: "string \<Rightarrow> 'a"
    and width :: nat
    and ok :: "'a \<Rightarrow> bool"
  assumes enc_width: "ok x \<Longrightarrow> length (enc x) = width"
    and dec_enc: "ok x \<Longrightarrow> dec (enc x) = x"
begin

lemma enc_inject: "ok x \<Longrightarrow> ok y \<Longrightarrow> enc x = enc y \<longleftrightarrow> x = y"
  using dec_enc by metis

lemma take_enc: "ok x \<Longrightarrow> take width (enc x @ r) = enc x"
  by (simp add: enc_width)

lemma drop_enc: "ok x \<Longrightarrow> drop width (enc x @ r) = r"
  by (simp add: enc_width)

lemma dec_take_enc: "ok x \<Longrightarrow> dec (take width (enc x @ r)) = x"
  by (simp only: take_enc dec_enc)

text \<open>A receive of a whole message into a buffer of the message's size leaves no old byte.\<close>

lemma dec_overlay: "ok x \<Longrightarrow> length buf = width \<Longrightarrow> dec (overlay buf (enc x)) = x"
  by (simp add: overlay_def enc_width dec_enc)

text \<open>So does a longer datagram: the receive cuts it at the size of the buffer.\<close>

lemma dec_overlay_take:
  "ok x \<Longrightarrow> length buf = width \<Longrightarrow> dec (overlay buf (take width (enc x @ r))) = x"
  by (simp only: take_enc dec_overlay)

end

section \<open>Unsigned integers in memory\<close>

datatype byte_order = LittleEndian | BigEndian

fun le_bytes :: "nat \<Rightarrow> nat \<Rightarrow> string" where
  "le_bytes 0 n = []"
| "le_bytes (Suc k) n = char_of n # le_bytes k (n div 256)"

fun le_value :: "string \<Rightarrow> nat" where
  "le_value [] = 0"
| "le_value (c # cs) = of_char c + 256 * le_value cs"

definition order_bytes :: "byte_order \<Rightarrow> string \<Rightarrow> string" where
  "order_bytes bo bs = (case bo of LittleEndian \<Rightarrow> bs | BigEndian \<Rightarrow> rev bs)"

definition enc_u16 :: "byte_order \<Rightarrow> u16 \<Rightarrow> string" where
  "enc_u16 bo w = order_bytes bo (le_bytes 2 (unat w))"

definition dec_u16 :: "byte_order \<Rightarrow> string \<Rightarrow> u16" where
  "dec_u16 bo bs = of_nat (le_value (order_bytes bo bs))"

definition enc_u32 :: "byte_order \<Rightarrow> u32 \<Rightarrow> string" where
  "enc_u32 bo w = order_bytes bo (le_bytes 4 (unat w))"

definition dec_u32 :: "byte_order \<Rightarrow> string \<Rightarrow> u32" where
  "dec_u32 bo bs = of_nat (le_value (order_bytes bo bs))"

lemma length_le_bytes [simp]: "length (le_bytes k n) = k"
  by (induction k n rule: le_bytes.induct) auto

lemma le_value_le_bytes: "le_value (le_bytes k n) = n mod 256 ^ k"
proof (induction k n rule: le_bytes.induct)
  case (1 n)
  then show ?case by simp
next
  case (2 k n)
  have "n mod 256 + 256 * (n div 256 mod 256 ^ k) = n mod (256 * 256 ^ k)"
    by (simp add: mod_mult2_eq)
  with 2 show ?case by (simp add: of_char_of)
qed

lemma length_order_bytes [simp]: "length (order_bytes bo bs) = length bs"
  by (simp add: order_bytes_def split: byte_order.split)

lemma order_bytes_idem [simp]: "order_bytes bo (order_bytes bo bs) = bs"
  by (simp add: order_bytes_def split: byte_order.split)

interpretation u16_codec: codec "enc_u16 bo" "dec_u16 bo" 2 "\<lambda>_. True" for bo
proof
  fix x :: u16
  have "unat x < 2 ^ LENGTH(16)" by (rule unsigned_less)
  then show "dec_u16 bo (enc_u16 bo x) = x"
    by (simp add: dec_u16_def enc_u16_def le_value_le_bytes)
qed (simp add: enc_u16_def)

interpretation u32_codec: codec "enc_u32 bo" "dec_u32 bo" 4 "\<lambda>_. True" for bo
proof
  fix x :: u32
  have "unat x < 2 ^ LENGTH(32)" by (rule unsigned_less)
  then show "dec_u32 bo (enc_u32 bo x) = x"
    by (simp add: dec_u32_def enc_u32_def le_value_le_bytes)
qed (simp add: enc_u32_def)

text \<open>Every four bytes are the encoding of some value, so decoding is injective on them.\<close>

lemma unat_u8_mod_256 [simp]: "unat (w :: u8) mod 256 = unat w"
proof -
  have "unat w < 2 ^ LENGTH(8)" by (rule unsigned_less)
  then show ?thesis by simp
qed

lemma le_value_less: "le_value bs < 256 ^ length bs"
proof (induction bs)
  case (Cons c bs)
  have c: "of_char c < (256::nat)" by (rule nat_of_char_less_256)
  define v P where "v = le_value bs" and "P = (256 :: nat) ^ length bs"
  have "v < P" using Cons by (simp add: v_def P_def)
  with c have "of_char c + 256 * v < 256 * P" by linarith
  then show ?case by (simp add: v_def P_def)
qed simp

lemma le_bytes_le_value: "le_bytes (length bs) (le_value bs) = bs"
proof (induction bs)
  case (Cons c bs)
  have "char_of (of_char c + 256 * le_value bs) = (char_of (of_char c :: nat) :: char)"
    by (simp only: char_of_quasi_inj) simp
  moreover have "(of_char c + 256 * le_value bs) div 256 = le_value bs"
    using nat_of_char_less_256[of c] by simp
  ultimately show ?case using Cons by simp
qed simp

lemma enc_dec_u32: "length bs = 4 \<Longrightarrow> enc_u32 bo (dec_u32 bo bs) = bs"
proof -
  assume l: "length bs = 4"
  let ?v = "le_value (order_bytes bo bs)"
  have "?v < 2 ^ LENGTH(32)"
    using le_value_less[of "order_bytes bo bs"] l by simp
  then have "unat (dec_u32 bo bs) = ?v"
    by (simp add: dec_u32_def unsigned_of_nat take_bit_nat_eq_self)
  then show ?thesis
    using le_bytes_le_value[of "order_bytes bo bs"] l by (simp add: enc_u32_def)
qed

end
