(* ===== verification/Message.thy ===== *)
theory Message
  imports Codec
begin

text \<open>
  \<open>include/protocol/message.h\<close>: the command codes, the packed command message of 137 bytes, the
  data message of 3000 bytes, and their layout in a datagram.
\<close>

definition FILE_NAME_LEN :: nat where
  "FILE_NAME_LEN = 128"

definition DATA_BUF_LEN :: nat where
  "DATA_BUF_LEN = 3000"

section \<open>Command codes\<close>

text \<open>An \<open>enum class\<close> over \<open>uint8_t\<close>: a received byte that no enumerator has is \<open>Other\<close>.\<close>

datatype Command =
    NONE | LS | SEND | GET | REMOVE | RENAME | SHUTDOWN | ACK | ACK_PORT
  | FILE_EXISTS | OVERWRITE | READY_FOR_NEW_NAME
  | Other u8

definition command_table :: "(Command \<times> u8) list" where
  "command_table =
     [(NONE, 0), (LS, 1), (SEND, 2), (GET, 3), (REMOVE, 4), (RENAME, 5), (SHUTDOWN, 6), (ACK, 7),
      (ACK_PORT, 8), (FILE_EXISTS, 9), (OVERWRITE, 10), (READY_FOR_NEW_NAME, 11)]"

definition command_code :: "Command \<Rightarrow> u8" where
  "command_code command =
     (case command of
        Other w \<Rightarrow> w
      | _ \<Rightarrow> (case map_of command_table command of Some w \<Rightarrow> w | None \<Rightarrow> 0))"

definition command_of_code :: "u8 \<Rightarrow> Command" where
  "command_of_code w =
     (case map_of (map (\<lambda>(c, n). (n, c)) command_table) w of
        Some c \<Rightarrow> c
      | None \<Rightarrow> Other w)"

fun commandToString :: "Command \<Rightarrow> string" where
  "commandToString NONE = ''NONE''"
| "commandToString LS = ''CMD_LS''"
| "commandToString SEND = ''CMD_SEND''"
| "commandToString GET = ''CMD_GET''"
| "commandToString REMOVE = ''CMD_REMOVE''"
| "commandToString RENAME = ''CMD_RENAME''"
| "commandToString SHUTDOWN = ''CMD_SHUTDOWN''"
| "commandToString ACK = ''CMD_ACK''"
| "commandToString ACK_PORT = ''CMD_ACK_PORT''"
| "commandToString FILE_EXISTS = ''CMD_FILE_EXISTS''"
| "commandToString OVERWRITE = ''CMD_OVERWRITE''"
| "commandToString READY_FOR_NEW_NAME = ''CMD_READY_FOR_NEW_NAME''"
| "commandToString (Other w) = ''UNKNOWN''"

definition named_command :: "Command \<Rightarrow> bool" where
  "named_command c = (case c of Other _ \<Rightarrow> False | _ \<Rightarrow> True)"

lemma command_of_command_code [simp]:
  "named_command c \<Longrightarrow> command_of_code (command_code c) = c"
  by (cases c) (simp_all add: named_command_def command_of_code_def command_code_def command_table_def)

lemma command_code_of_code [simp]: "command_code (command_of_code w) = w"
  by (auto simp: command_of_code_def command_code_def command_table_def split: option.splits if_splits)

section \<open>The command message\<close>

record cmd_msg =
  m_cmd :: u8
  m_filename :: string
  m_size :: u32
  m_port :: u16
  m_error :: u16

definition CmdMsg :: cmd_msg where
  "CmdMsg = \<lparr>m_cmd = 0, m_filename = zeros FILE_NAME_LEN, m_size = 0, m_port = 0, m_error = 0\<rparr>"

definition setCommand :: "Command \<Rightarrow> cmd_msg \<Rightarrow> cmd_msg" where
  "setCommand command m = m\<lparr>m_cmd := command_code command\<rparr>"

definition getCommand :: "cmd_msg \<Rightarrow> Command" where
  "getCommand m = command_of_code (m_cmd m)"

text \<open>
  \<open>strncpy\<close> copies at most 127 characters of the C string, pads with NULs up to 127, and the last
  byte is then set to NUL.
\<close>

definition setFilename :: "string \<Rightarrow> cmd_msg \<Rightarrow> cmd_msg" where
  "setFilename name m =
     (let copied = take (FILE_NAME_LEN - 1) (c_str name);
          padded = copied @ zeros (FILE_NAME_LEN - 1 - length copied)
      in m\<lparr>m_filename := padded @ [NUL]\<rparr>)"

definition valid_msg :: "cmd_msg \<Rightarrow> bool" where
  "valid_msg m \<longleftrightarrow> length (m_filename m) = FILE_NAME_LEN"

section \<open>Layout in a datagram\<close>

definition CMD_MSG_LEN :: nat where
  "CMD_MSG_LEN = 1 + FILE_NAME_LEN + 4 + 2 + 2"

definition encode_cmd :: "byte_order \<Rightarrow> cmd_msg \<Rightarrow> string" where
  "encode_cmd bo m =
     char_of (unat (m_cmd m)) # m_filename m @ enc_u32 bo (m_size m) @ enc_u16 bo (m_port m)
       @ enc_u16 bo (m_error m)"

definition decode_cmd :: "byte_order \<Rightarrow> string \<Rightarrow> cmd_msg" where
  "decode_cmd bo bs =
     \<lparr>m_cmd = of_nat (of_char (bs ! 0)),
      m_filename = take FILE_NAME_LEN (drop 1 bs),
      m_size = dec_u32 bo (take 4 (drop 129 bs)),
      m_port = dec_u16 bo (take 2 (drop 133 bs)),
      m_error = dec_u16 bo (take 2 (drop 135 bs))\<rparr>"

section \<open>The data message\<close>

definition DataMsg :: string where
  "DataMsg = zeros DATA_BUF_LEN"

text \<open>\<open>None\<close>: the source buffer is shorter than what \<open>memcpy\<close> is asked to copy.\<close>

definition setData :: "string \<Rightarrow> nat \<Rightarrow> string \<Rightarrow> string option" where
  "setData src len data =
     (let copyLen = (if len < DATA_BUF_LEN then len else DATA_BUF_LEN - 1)
      in if length src < copyLen then None
         else Some (write_at 0 (take copyLen src @ [NUL]) data))"

section \<open>Properties of the messages\<close>

lemma valid_msg_simps [simp]:
  "valid_msg CmdMsg"
  "valid_msg (setFilename name m)"
  "valid_msg (setCommand c m) = valid_msg m"
  "valid_msg (m\<lparr>m_size := z\<rparr>) = valid_msg m"
  "valid_msg (m\<lparr>m_error := e\<rparr>) = valid_msg m"
  "valid_msg (decode_cmd bo bs) \<longleftrightarrow> CMD_MSG_LEN - 8 \<le> length bs"
  by (auto simp: valid_msg_def CmdMsg_def setFilename_def setCommand_def FILE_NAME_LEN_def
      Let_def decode_cmd_def CMD_MSG_LEN_def)

lemma getCommand_simps [simp]:
  "named_command c \<Longrightarrow> getCommand (setCommand c m) = c"
  "getCommand (setFilename name m) = getCommand m"
  "getCommand (m\<lparr>m_size := z\<rparr>) = getCommand m"
  "getCommand (m\<lparr>m_error := e\<rparr>) = getCommand m"
  by (simp_all add: getCommand_def setCommand_def setFilename_def Let_def)

lemma named_command_simps [simp]:
  "named_command NONE" "named_command LS" "named_command SEND" "named_command GET"
  "named_command REMOVE" "named_command RENAME" "named_command SHUTDOWN" "named_command ACK"
  "named_command ACK_PORT" "named_command FILE_EXISTS" "named_command OVERWRITE"
  "named_command READY_FOR_NEW_NAME" "\<not> named_command (Other w)"
  by (simp_all add: named_command_def)

lemma cmd_fields_simps [simp]:
  "m_error (setCommand c m) = m_error m" "m_size (setCommand c m) = m_size m"
  "m_filename (setCommand c m) = m_filename m"
  "m_error (setFilename n m) = m_error m" "m_size (setFilename n m) = m_size m"
  "m_error CmdMsg = 0" "m_size CmdMsg = 0"
  by (simp_all add: setCommand_def setFilename_def Let_def CmdMsg_def)

lemma length_DataMsg [simp]: "length DataMsg = DATA_BUF_LEN"
  by (simp add: DataMsg_def)

interpretation cmd_codec: codec "encode_cmd bo" "decode_cmd bo" CMD_MSG_LEN valid_msg for bo
proof
  fix m assume v: "valid_msg m"
  show "length (encode_cmd bo m) = CMD_MSG_LEN"
    using v by (simp add: encode_cmd_def valid_msg_def CMD_MSG_LEN_def u16_codec.enc_width
        u32_codec.enc_width)
  have d: "drop 129 (encode_cmd bo m) = enc_u32 bo (m_size m) @ enc_u16 bo (m_port m) @ enc_u16 bo (m_error m)"
    "drop 133 (encode_cmd bo m) = enc_u16 bo (m_port m) @ enc_u16 bo (m_error m)"
    "drop 135 (encode_cmd bo m) = enc_u16 bo (m_error m)"
    using v by (simp_all add: encode_cmd_def valid_msg_def FILE_NAME_LEN_def drop_Cons'
        u16_codec.enc_width u32_codec.enc_width)
  show "decode_cmd bo (encode_cmd bo m) = m"
    unfolding decode_cmd_def d u32_codec.dec_take_enc[OF TrueI] u16_codec.dec_take_enc[OF TrueI]
    using v
    by (simp add: encode_cmd_def valid_msg_def u16_codec.enc_width u16_codec.dec_enc of_char_of)
qed

text \<open>
  C9: the wire format round-trips between machines of one byte order: a command message occupies
  exactly 137 bytes and decoding the bytes gives back every field.
\<close>

theorem cmd_msg_roundtrip:
  "valid_msg m \<Longrightarrow>
     decode_cmd bo (encode_cmd bo m) = m \<and> length (encode_cmd bo m) = 137"
  using cmd_codec.dec_enc[of m bo] cmd_codec.enc_width[of m bo]
  by (simp add: CMD_MSG_LEN_def FILE_NAME_LEN_def)

theorem cmd_msg_roundtrip_witness:
  "decode_cmd BigEndian (encode_cmd BigEndian (setFilename ''a.txt'' (setCommand SEND CmdMsg)))
     = setFilename ''a.txt'' (setCommand SEND CmdMsg)"
  using cmd_msg_roundtrip[of "setFilename ''a.txt'' (setCommand SEND CmdMsg)" BigEndian] by simp

text \<open>
  The program sends fields in the byte order of the machine, not of the network. Between a
  little-endian sender and a big-endian receiver a size survives exactly when its four bytes read
  the same backwards (a 10-byte file is announced as 167772160 bytes).
\<close>

theorem byte_order_mismatch:
  assumes "valid_msg m"
  shows "m_size (decode_cmd BigEndian (encode_cmd LittleEndian m)) = m_size m \<longleftrightarrow>
     rev (enc_u32 LittleEndian (m_size m)) = enc_u32 LittleEndian (m_size m)"
proof -
  let ?le = "enc_u32 LittleEndian (m_size m)"
  have "drop 129 (encode_cmd LittleEndian m) = ?le @ enc_u16 LittleEndian (m_port m)
      @ enc_u16 LittleEndian (m_error m)"
    using assms by (simp add: encode_cmd_def valid_msg_def FILE_NAME_LEN_def drop_Cons')
  then have sz: "m_size (decode_cmd BigEndian (encode_cmd LittleEndian m)) = dec_u32 BigEndian ?le"
    by (simp add: decode_cmd_def u32_codec.enc_width)
  have be: "enc_u32 BigEndian (m_size m) = rev ?le"
    by (simp add: enc_u32_def order_bytes_def)
  have "dec_u32 BigEndian ?le = m_size m \<longleftrightarrow> enc_u32 BigEndian (m_size m) = ?le"
    using enc_dec_u32[of ?le BigEndian] u32_codec.dec_enc[where x = "m_size m" and bo = BigEndian]
      u32_codec.enc_width[where x = "m_size m" and bo = LittleEndian] by metis
  with sz be show ?thesis by simp
qed

theorem byte_order_mismatch_witness:
  "m_size (decode_cmd BigEndian (encode_cmd LittleEndian (CmdMsg\<lparr>m_size := 10\<rparr>))) \<noteq> 10"
proof -
  have "rev (enc_u32 LittleEndian 10) \<noteq> enc_u32 LittleEndian 10" by code_simp
  then show ?thesis using byte_order_mismatch[of "CmdMsg\<lparr>m_size := 10\<rparr>"] by simp
qed

section \<open>Names and data in messages\<close>

lemma c_array_setFilename:
  "c_array (m_filename (setFilename name m)) = Some (take 127 (c_str name))"
proof -
  have "NUL \<notin> set (take 127 (c_str name))"
    using in_set_takeD c_str_no_nul by metis
  moreover have "m_filename (setFilename name m) =
      take 127 (c_str name) @ zeros (128 - length (take 127 (c_str name)))"
    by (simp add: setFilename_def FILE_NAME_LEN_def Let_def zeros_def replicate_append_same
        Suc_diff_le flip: replicate_Suc)
  ultimately have "c_array (m_filename (setFilename name m)) = Some (take 127 (c_str name))"
    using c_array_append_zeros[of "take 127 (c_str name)" "128 - length (take 127 (c_str name))"]
    by simp
  then show ?thesis .
qed

text \<open>
  A filename put into a message is always NUL-terminated inside its 128 bytes, and what the
  receiver reads back is the name cut to 127 characters; no other field changes.
\<close>

theorem setFilename_reads_back:
  "c_array (m_filename (setFilename name m)) = Some (take 127 (c_str name)) \<and>
   setFilename name m = m\<lparr>m_filename := m_filename (setFilename name m)\<rparr>"
  by (rule conjI[OF c_array_setFilename]) (simp add: setFilename_def Let_def)

lemma setFilename_short:
  "NUL \<notin> set name \<Longrightarrow> length name \<le> 127 \<Longrightarrow> c_array (m_filename (setFilename name m)) = Some name"
  by (simp add: c_array_setFilename)

text \<open>
  A datagram of file data that is read as a command: its first byte is the command code.
\<close>

lemma getCommand_data:
  "d \<noteq> [] \<Longrightarrow>
     getCommand (decode_cmd bo (overlay (zeros CMD_MSG_LEN) (take CMD_MSG_LEN d)))
       = command_of_code (of_nat (of_char (hd d)))"
  by (cases d) (simp_all add: getCommand_def decode_cmd_def overlay_def CMD_MSG_LEN_def
      FILE_NAME_LEN_def)

lemma setData_Some:
  "length data = DATA_BUF_LEN \<Longrightarrow> len \<le> length src \<Longrightarrow>
     \<exists>data'. setData src len data = Some data' \<and> length data' = DATA_BUF_LEN"
  by (auto simp: setData_def Let_def DATA_BUF_LEN_def write_at_def)

lemma setData_short:
  "len \<le> length src \<Longrightarrow> len < DATA_BUF_LEN \<Longrightarrow>
     setData src len DataMsg = Some (take len src @ zeros (DATA_BUF_LEN - len))"
  by (simp add: setData_def Let_def DataMsg_def write_at_def zeros_def Suc_diff_Suc
      flip: replicate_Suc)

end
