(* ===== verification/Sockets.thy ===== *)
theory Sockets
  imports File_System Message
begin

text \<open>
  The operating system as the program sees it: a clock, the UDP socket with its receive queue, and
  the file system. The environment is data: which datagrams arrive and when, how long each
  \<open>sendto\<close> takes and whether it fails, and how each TCP connection goes. Every property quantifies
  over it. Times are in milliseconds. \<open>None\<close> as the result of an operation means that it does
  not return (a blocking call waits forever) or that its behaviour is undefined in C++.
\<close>

section \<open>State\<close>

type_synonym addr = "u32 \<times> u16"

text \<open>
  \<open>incoming\<close> lists the datagrams in the order of their delivery, with the time each enters the
  queue of the socket; \<open>outgoing\<close> is the log of those sent. An exhausted \<open>send_script\<close> means
  that sends take no time and succeed.
\<close>

record os =
  fs :: filesystem
  clock :: nat
  incoming :: "(nat \<times> addr \<times> string) list"
  outgoing :: "(addr \<times> string) list"
  send_script :: "(nat \<times> bool) list"
  nonblocking :: bool
  rcvtimeo :: nat
  endian :: byte_order

section \<open>System calls on the UDP socket\<close>

definition set_rcvtimeo :: "nat \<Rightarrow> os \<Rightarrow> os" where
  "set_rcvtimeo ms w = w\<lparr>rcvtimeo := ms\<rparr>"

definition set_nonblocking :: "os \<Rightarrow> os" where
  "set_nonblocking w = w\<lparr>nonblocking := True\<rparr>"

definition send_to :: "addr \<Rightarrow> string \<Rightarrow> os \<Rightarrow> bool \<times> os" where
  "send_to a d w =
     (case send_script w of
        [] \<Rightarrow> (True, w\<lparr>outgoing := outgoing w @ [(a, d)]\<rparr>)
      | (t, fails) # rest \<Rightarrow>
          (\<not> fails, w\<lparr>clock := clock w + t, send_script := rest,
             outgoing := (if fails then outgoing w else outgoing w @ [(a, d)])\<rparr>))"

text \<open>
  \<open>recvfrom\<close> with a buffer of \<open>n\<close> bytes cuts a longer datagram. A non-blocking socket returns at
  once whatever the timeout option says; a blocking one waits until the timeout, or for ever when
  it is zero.
\<close>

definition recvfrom :: "nat \<Rightarrow> os \<Rightarrow> ((addr \<times> string) option \<times> os) option" where
  "recvfrom n w =
     (case incoming w of
        [] \<Rightarrow>
          if nonblocking w then Some (None, w)
          else if rcvtimeo w = 0 then None
          else Some (None, w\<lparr>clock := clock w + rcvtimeo w\<rparr>)
      | (t, a, d) # rest \<Rightarrow>
          if t \<le> clock w then Some (Some (a, take n d), w\<lparr>incoming := rest\<rparr>)
          else if nonblocking w then Some (None, w)
          else if rcvtimeo w = 0 \<or> t \<le> clock w + rcvtimeo w
          then Some (Some (a, take n d), w\<lparr>incoming := rest, clock := t\<rparr>)
          else Some (None, w\<lparr>clock := clock w + rcvtimeo w\<rparr>))"

text \<open>\<open>select\<close> on the socket with a timeout: is there a datagram to read?\<close>

definition select :: "nat \<Rightarrow> os \<Rightarrow> bool \<times> os" where
  "select ms w =
     (case incoming w of
        [] \<Rightarrow> (False, w\<lparr>clock := clock w + ms\<rparr>)
      | (t, a, d) # rest \<Rightarrow>
          if t \<le> clock w + ms then (True, w\<lparr>clock := max (clock w) t\<rparr>)
          else (False, w\<lparr>clock := clock w + ms\<rparr>))"

section \<open>TCP\<close>

text \<open>
  One passive TCP connection of the server, from \<open>socket\<close> to the last \<open>recv\<close>: where it fails, or
  the segments the peer delivers and what follows them.
\<close>

datatype tcp_end = PeerCloses | PeerSilent

datatype tcp_session =
    SocketFails
  | BindFails
  | ListenFails
  | AcceptFails
  | NobodyConnects
  | Connected "string list" tcp_end

text \<open>\<open>recv\<close>: what is there, at most \<open>n\<close> bytes; an empty result is end of stream or an error.\<close>

definition recv :: "nat \<Rightarrow> string list \<Rightarrow> tcp_end \<Rightarrow> (string \<times> string list) option" where
  "recv n segments e =
     (case segments of
        [] \<Rightarrow> (case e of PeerCloses \<Rightarrow> Some ([], []) | PeerSilent \<Rightarrow> None)
      | x # xs \<Rightarrow> Some (take n x, if length x \<le> n then xs else drop n x # xs))"

text \<open>
  One active TCP connection of the client. \<open>ConnectedTo\<close> carries what the successive calls of
  \<open>send\<close> return: a number of bytes taken, or \<open>None\<close> for an error; when the list is exhausted,
  \<open>send\<close> takes everything.
\<close>

datatype tcp_client =
    ClientSocketFails
  | ConnectFails
  | ConnectedTo "nat option list"

section \<open>Laws\<close>

lemma fs_after_calls [simp]:
  "fs (set_rcvtimeo ms w) = fs w"
  "fs (set_nonblocking w) = fs w"
  "fs (snd (send_to a d w)) = fs w"
  "fs (snd (select ms w)) = fs w"
  by (auto simp: set_rcvtimeo_def set_nonblocking_def send_to_def select_def split: list.splits)

lemma send_to_keeps [simp]:
  "incoming (snd (send_to a d w)) = incoming w"
  "nonblocking (snd (send_to a d w)) = nonblocking w"
  "rcvtimeo (snd (send_to a d w)) = rcvtimeo w"
  "endian (snd (send_to a d w)) = endian w"
  by (auto simp: send_to_def split: list.splits)

lemma recvfrom_keeps:
  "recvfrom n w = Some (r, w') \<Longrightarrow>
     fs w' = fs w \<and> nonblocking w' = nonblocking w \<and> endian w' = endian w \<and>
     outgoing w' = outgoing w \<and> send_script w' = send_script w \<and> clock w \<le> clock w' \<and>
     rcvtimeo w' = rcvtimeo w"
  by (auto simp: recvfrom_def split: list.splits prod.splits if_splits)

lemma recvfrom_nonblocking:
  "nonblocking w \<Longrightarrow>
     recvfrom n w =
       Some (case incoming w of
               (t, a, d) # rest \<Rightarrow>
                 if t \<le> clock w then (Some (a, take n d), w\<lparr>incoming := rest\<rparr>) else (None, w)
             | [] \<Rightarrow> (None, w))"
  by (auto simp: recvfrom_def split: list.splits)

text \<open>
  On a non-blocking socket the receive timeout has no effect: whatever \<open>SO_RCVTIMEO\<close> is, a
  receive returns immediately, and it returns a datagram exactly when one has already arrived.
\<close>

theorem nonblocking_ignores_timeout:
  assumes "nonblocking w"
  shows "\<exists>r w'. recvfrom n (set_rcvtimeo ms w) = Some (r, w') \<and> clock w' = clock w \<and>
    (r \<noteq> None \<longleftrightarrow> (\<exists>t a d rest. incoming w = (t, a, d) # rest \<and> t \<le> clock w))"
  using assms by (auto simp: recvfrom_nonblocking set_rcvtimeo_def split: list.splits)

definition quiet_os :: "filesystem \<Rightarrow> os" where
  "quiet_os f =
     \<lparr>fs = f, clock = 0, incoming = [], outgoing = [], send_script = [], nonblocking = False,
      rcvtimeo = 0, endian = LittleEndian\<rparr>"

definition empty_fs :: filesystem where
  "empty_fs = \<lparr>nodes = [], cwd = [], writable = (\<lambda>q. True), dir_size = 4096\<rparr>"

theorem nonblocking_ignores_timeout_witness:
  "\<exists>w'. recvfrom 137 (set_rcvtimeo 5000
      ((set_nonblocking (quiet_os empty_fs))\<lparr>incoming := [(3, (0, 0), ''x'')]\<rparr>)) = Some (None, w')"
proof -
  let ?w = "(set_nonblocking (quiet_os empty_fs))\<lparr>incoming := [(3, (0, 0), ''x'')]\<rparr>"
  have w: "nonblocking ?w" "incoming ?w = [(3, (0, 0), ''x'')]" "clock ?w = 0"
    by (simp_all add: set_nonblocking_def quiet_os_def)
  obtain r w' where r: "recvfrom 137 (set_rcvtimeo 5000 ?w) = Some (r, w')"
    "r \<noteq> None \<longleftrightarrow> (\<exists>t a d rest. incoming ?w = (t, a, d) # rest \<and> t \<le> clock ?w)"
    using nonblocking_ignores_timeout[OF w(1)] by blast
  then have "r = None" using w by (cases r) auto
  with r show ?thesis by blast
qed

end
