(* ===== verification/Backup_Store.thy ===== *)
theory Backup_Store
  imports File_System
begin

text \<open>
  The abstract view of the backup directory, a finite map from names to contents, as an interface:
  what storing, removing and renaming promise about the map. The lemmas the server needs about
  sequences of these operations are proved from the promises alone; the interpretation at the end
  discharges the promises for the file system model under the paths the program builds.
\<close>

section \<open>The interface\<close>

locale backup_store =
  fixes look :: "'s \<Rightarrow> string \<Rightarrow> string option"
    and put :: "string \<Rightarrow> string \<Rightarrow> 's \<Rightarrow> 's option"
    and del :: "string \<Rightarrow> 's \<Rightarrow> 's option"
    and ren :: "string \<Rightarrow> string \<Rightarrow> 's \<Rightarrow> 's option"
    and inv :: "'s \<Rightarrow> bool"
    and ok :: "string \<Rightarrow> bool"
  assumes put_total: "inv s \<Longrightarrow> ok n \<Longrightarrow> \<exists>s'. put n c s = Some s'"
    and put_look: "inv s \<Longrightarrow> ok n \<Longrightarrow> put n c s = Some s' \<Longrightarrow> look s' = (look s)(n \<mapsto> c)"
    and put_inv: "inv s \<Longrightarrow> ok n \<Longrightarrow> put n c s = Some s' \<Longrightarrow> inv s'"
    and del_iff: "inv s \<Longrightarrow> ok n \<Longrightarrow> (\<exists>s'. del n s = Some s') \<longleftrightarrow> look s n \<noteq> None"
    and del_look: "inv s \<Longrightarrow> ok n \<Longrightarrow> del n s = Some s' \<Longrightarrow> look s' = (look s)(n := None)"
    and del_inv: "inv s \<Longrightarrow> ok n \<Longrightarrow> del n s = Some s' \<Longrightarrow> inv s'"
    and ren_iff: "inv s \<Longrightarrow> ok m \<Longrightarrow> ok n \<Longrightarrow> (\<exists>s'. ren m n s = Some s') \<longleftrightarrow> look s m \<noteq> None"
    and ren_look: "inv s \<Longrightarrow> ok m \<Longrightarrow> ok n \<Longrightarrow> ren m n s = Some s' \<Longrightarrow>
      look s' = (if m = n then look s else (look s)(m := None, n := look s m))"
    and ren_inv: "inv s \<Longrightarrow> ok m \<Longrightarrow> ok n \<Longrightarrow> ren m n s = Some s' \<Longrightarrow> inv s'"
begin

text \<open>Storing twice under one name leaves what storing the second content alone leaves.\<close>

lemma put_put:
  "inv s \<Longrightarrow> ok n \<Longrightarrow> put n c s = Some s1 \<Longrightarrow> put n c' s1 = Some s2 \<Longrightarrow>
     look s2 = (look s)(n \<mapsto> c')"
  using put_look[of s n c s1] put_look[of s1 n c' s2] put_inv[of s n c s1] by simp

lemma del_none: "inv s \<Longrightarrow> ok n \<Longrightarrow> del n s = None \<longleftrightarrow> look s n = None"
  using del_iff[of s n] by (cases "del n s") auto

lemma ren_none: "inv s \<Longrightarrow> ok m \<Longrightarrow> ok n \<Longrightarrow> ren m n s = None \<longleftrightarrow> look s m = None"
  using ren_iff[of s m n] by (cases "ren m n s") auto

text \<open>The server renames over an existing file by removing the target first.\<close>

lemma overwrite_by_rename:
  assumes s: "inv s" "ok m" "ok n" "m \<noteq> n" "look s m = Some c" "look s n \<noteq> None"
  shows "\<exists>s1 s2. del n s = Some s1 \<and> ren m n s1 = Some s2 \<and> inv s2 \<and>
     look s2 = (look s)(m := None, n \<mapsto> c)"
proof -
  obtain s1 where d: "del n s = Some s1" using del_iff s by blast
  have s1: "inv s1" "look s1 = (look s)(n := None)" using del_inv del_look d s by blast+
  then obtain s2 where r: "ren m n s1 = Some s2" using ren_iff[of s1 m n] s by auto
  have "look s2 = (look s)(m := None, n \<mapsto> c)"
    using ren_look[OF s1(1) s(2,3) r] s(4,5) s1(2) by auto
  with d r ren_inv[OF s1(1) s(2,3) r] show ?thesis by blast
qed

text \<open>Done to one and the same name, that sequence loses the file.\<close>

lemma overwrite_self_loses:
  assumes s: "inv s" "ok n" "look s n = Some c"
  shows "\<exists>s1. del n s = Some s1 \<and> ren n n s1 = None \<and> inv s1 \<and> look s1 = (look s)(n := None)"
proof -
  obtain s1 where d: "del n s = Some s1" using del_iff[of s n] s by auto
  have s1: "inv s1" "look s1 = (look s)(n := None)" using del_inv del_look d s by blast+
  then have "ren n n s1 = None" using ren_none[of s1 n n] s by simp
  with d s1 show ?thesis by blast
qed

end

section \<open>The backup directory as a store\<close>

definition store :: "filesystem \<Rightarrow> path \<Rightarrow> string \<Rightarrow> string option" where
  "store fs d n =
     (case lookup fs (d @ [n]) of Some (RegularFile content) \<Rightarrow> Some content | _ \<Rightarrow> None)"

text \<open>A \<open>clean\<close> backup directory: the process may change its entries, and they are regular files.\<close>

definition clean :: "string \<Rightarrow> path \<Rightarrow> filesystem \<Rightarrow> bool" where
  "clean b d fs \<longleftrightarrow>
     fs_ok fs \<and> is_base fs b d \<and>
     (\<forall>n. good_name n \<longrightarrow> writable fs (d @ [n]) \<and>
        (lookup fs (d @ [n]) = None \<or> (\<exists>c. lookup fs (d @ [n]) = Some (RegularFile c))))"

definition ok_name :: "string \<Rightarrow> bool" where
  "ok_name n \<longleftrightarrow> isValidFilename n \<and> n \<noteq> ''.''"

lemma ok_name_good: "ok_name n \<Longrightarrow> good_name n"
  using isValidFilenameD[of n] by (simp add: ok_name_def good_name_def)

lemma clean_resolve: "clean b d fs \<Longrightarrow> ok_name n \<Longrightarrow> resolve fs (joinPath b n) = Some (d @ [n])"
  using valid_names_confined[of fs b d n] by (simp add: clean_def ok_name_def)

lemma clean_entry:
  "clean b d fs \<Longrightarrow> ok_name n \<Longrightarrow>
     writable fs (d @ [n]) \<and> \<not> is_dir fs (d @ [n]) \<and>
     lookup fs (d @ [n]) = map_option RegularFile (store fs d n)"
  using ok_name_good[of n] by (auto simp: clean_def store_def is_dir_def)

lemma store_update:
  "lookup fs' = (lookup fs)(d @ [n] := x) \<Longrightarrow>
     store fs' d = (store fs d)(n := (case x of Some (RegularFile c) \<Rightarrow> Some c | _ \<Rightarrow> None))"
  by (auto simp: store_def fun_eq_iff)

lemma clean_cong:
  assumes "clean b d fs" "fs_ok fs'" "same_dirs fs fs'"
    "\<And>m. good_name m \<Longrightarrow> lookup fs' (d @ [m]) = None \<or> (\<exists>c. lookup fs' (d @ [m]) = Some (RegularFile c))"
  shows "clean b d fs'"
proof -
  have "writable fs' = writable fs" using assms(3) by (simp add: same_dirs_def)
  with assms same_dirs_base[OF assms(3), of b d] show ?thesis by (simp add: clean_def)
qed

lemma clean_regular:
  "clean b d fs \<Longrightarrow> good_name m \<Longrightarrow>
     lookup fs (d @ [m]) = None \<or> (\<exists>c. lookup fs (d @ [m]) = Some (RegularFile c))"
  by (simp add: clean_def)

interpretation bk: backup_store
  "\<lambda>fs. store fs d"
  "\<lambda>n c. write_file (joinPath b n) c"
  "\<lambda>n. unlink (joinPath b n)"
  "\<lambda>m n. rename (joinPath b m) (joinPath b n)"
  "clean b d"
  ok_name
  for b d
proof
  fix s n c assume s: "clean b d s" "ok_name n"
  have res: "resolve s (joinPath b n) = Some (d @ [n])" by (rule clean_resolve[OF s])
  have w: "writable s (d @ [n])" and nd: "\<not> is_dir s (d @ [n])"
    and ent: "lookup s (d @ [n]) = map_option RegularFile (store s d n)"
    using clean_entry[OF s] by simp_all
  have ok: "fs_ok s" using s(1) by (simp add: clean_def)
  show "\<exists>s'. write_file (joinPath b n) c s = Some s'"
    using res ent w by (cases "store s d n") (simp_all add: write_file_def)
  show "(\<exists>s'. unlink (joinPath b n) s = Some s') \<longleftrightarrow> store s d n \<noteq> None"
    using res ent w by (cases "store s d n") (simp_all add: unlink_def)
  {
    fix s' assume w: "write_file (joinPath b n) c s = Some s'"
    have l: "lookup s' = (lookup s)(d @ [n] \<mapsto> RegularFile c)"
      using write_file_effect[OF w] res by auto
    then show "store s' d = (store s d)(n \<mapsto> c)" by (simp add: store_update)
    show "clean b d s'"
      using write_file_keeps[OF ok w] l clean_regular[OF s(1)] by (intro clean_cong[OF s(1)]) auto
  }
  {
    fix s' assume u: "unlink (joinPath b n) s = Some s'"
    have l: "lookup s' = (lookup s)(d @ [n] := None)"
      using unlink_effect[OF u] res by auto
    then show "store s' d = (store s d)(n := None)" by (simp add: store_update)
    show "clean b d s'"
      using unlink_keeps[OF ok u] l clean_regular[OF s(1)] by (intro clean_cong[OF s(1)]) auto
  }
next
  fix s m n assume s: "clean b d s" "ok_name m" "ok_name n"
  have ok: "fs_ok s" using s(1) by (simp add: clean_def)
  note rm = clean_resolve[OF s(1,2)] and rn = clean_resolve[OF s(1,3)]
  note em = clean_entry[OF s(1,2)] and en = clean_entry[OF s(1,3)]
  show "(\<exists>s'. rename (joinPath b m) (joinPath b n) s = Some s') \<longleftrightarrow> store s d m \<noteq> None"
    using rm rn em en by (cases "store s d m") (simp_all add: rename_def is_dir_def)
  fix s' assume r: "rename (joinPath b m) (joinPath b n) s = Some s'"
  have l: "lookup s' = (if m = n then lookup s
      else (lookup s)(d @ [m] := None, d @ [n] := lookup s (d @ [m])))"
  proof -
    have "fs_wf s" using ok by (simp add: fs_ok_def)
    then obtain q where "resolve s (joinPath b n) = Some q"
      "lookup s' = (if d @ [m] = q then lookup s
         else (lookup s)(d @ [m] := None, q := lookup s (d @ [m])))"
      using rename_effect[OF r _ rm] em by blast
    with rn show ?thesis by simp
  qed
  then show "store s' d = (if m = n then store s d else (store s d)(m := None, n := store s d m))"
    by (auto simp: store_def fun_eq_iff)
  show "clean b d s'"
    using rename_keeps[OF ok r rm] em l clean_regular[OF s(1)] by (intro clean_cong[OF s(1)]) (auto split: if_splits)
qed

section \<open>Looking at the store through paths\<close>

lemma ok_name_valid [simp]: "ok_name n \<Longrightarrow> isValidFilename n"
  by (simp add: ok_name_def)

text \<open>The tree has no entry with the name of a dot, and the validator's dot is the directory.\<close>

lemma store_good_name: "fs_ok f \<Longrightarrow> store f d n \<noteq> None \<Longrightarrow> good_name n"
  using fs_wf_lookup[of f "d @ [n]"]
  by (auto simp: fs_ok_def store_def split: option.splits inode.splits)

lemma store_dot: "clean b d f \<Longrightarrow> store f d ''.'' = None"
proof -
  assume "clean b d f"
  then have "fs_ok f" by (simp add: clean_def)
  with store_good_name[of f d "''.''"] show ?thesis
    by (cases "store f d ''.''") (auto simp: good_name_def)
qed

lemma stat_valid:
  assumes "clean b d f" "isValidFilename n"
  shows "stat f (joinPath b n) =
    (if n = ''.'' then Some Directory else map_option RegularFile (store f d n))"
proof (cases "n = ''.''")
  case True
  then show ?thesis
    using valid_names_confined[of f b d n] assms by (simp add: clean_def is_base_def is_dir_def stat_def)
next
  case False
  with assms have n: "ok_name n" by (simp add: ok_name_def)
  from False show ?thesis
    using clean_resolve[OF assms(1) n] clean_entry[OF assms(1) n] by (simp add: stat_def)
qed

lemma fileExists_store:
  assumes "clean b d f" "isValidFilename n"
  shows "fileExists (joinPath b n) f \<longleftrightarrow> store f d n \<noteq> None"
  using stat_valid[OF assms] store_dot[OF assms(1)]
  by (cases "store f d n") (auto simp: fileExists_def S_IFREG_def)

lemma stored_ok_name: "clean b d f \<Longrightarrow> isValidFilename n \<Longrightarrow> store f d n \<noteq> None \<Longrightarrow> ok_name n"
  using store_dot by (auto simp: ok_name_def)

text \<open>The HTTP handlers build paths with a plain slash; for valid names that is the same file.\<close>

lemma resolve_slash:
  "is_base f b d \<Longrightarrow> isValidFilename n \<Longrightarrow> resolve f (b @ slash # n) = resolve f (joinPath b n)"
  using resolve_child[of f b d n] resolve_joinPath[of f b d n] isValidFilenameD[of n] by simp

lemma slash_path:
  assumes "clean b d f" "isValidFilename n"
  shows "write_file (b @ slash # n) c f = write_file (joinPath b n) c f"
    "fileExists (b @ slash # n) f = fileExists (joinPath b n) f"
    "unlink (b @ slash # n) f = unlink (joinPath b n) f"
    "isValidFilename m \<Longrightarrow> rename (b @ slash # m) (b @ slash # n) f = rename (joinPath b m) (joinPath b n) f"
proof -
  have b: "is_base f b d" using assms(1) by (simp add: clean_def)
  note r = resolve_slash[OF b]
  show "write_file (b @ slash # n) c f = write_file (joinPath b n) c f"
    "fileExists (b @ slash # n) f = fileExists (joinPath b n) f"
    "unlink (b @ slash # n) f = unlink (joinPath b n) f"
    "isValidFilename m \<Longrightarrow> rename (b @ slash # m) (b @ slash # n) f = rename (joinPath b m) (joinPath b n) f"
    by (simp_all add: write_file_def fileExists_def stat_def unlink_def rename_def r assms(2))
qed

section \<open>An example directory\<close>

text \<open>A backup directory with the one file \<open>a.txt\<close>, used to instantiate the theorems.\<close>

definition sample_fs :: filesystem where
  "sample_fs =
     \<lparr>nodes = [([''backup''], Directory), ([''backup'', ''a.txt''], RegularFile ''old'')],
      cwd = [], writable = (\<lambda>q. True), dir_size = 4096\<rparr>"

lemma sample_clean: "clean ''backup'' [''backup''] sample_fs"
proof -
  have ok: "fs_ok sample_fs"
    by (simp add: sample_fs_def fs_ok_def fs_wf_def is_dir_def lookup_def good_name_def slash_def NUL_def)
  have b: "is_base sample_fs ''backup'' [''backup'']"
    by (simp add: sample_fs_def is_base_def is_dir_def resolve_def lookup_def slash_def c_str_def
        NUL_def backslash_def)
  have "writable sample_fs ([''backup''] @ [n]) \<and> (lookup sample_fs ([''backup''] @ [n]) = None \<or>
      (\<exists>c. lookup sample_fs ([''backup''] @ [n]) = Some (RegularFile c)))" for n
    by (simp add: sample_fs_def lookup_def)
  with ok b show ?thesis unfolding clean_def by blast
qed

lemma sample_store: "store sample_fs [''backup''] = [''a.txt'' \<mapsto> ''old'']"
  by (auto simp: store_def sample_fs_def lookup_def fun_eq_iff)

lemma sample_names [simp]:
  "ok_name ''a.txt''" "ok_name ''b.txt''" "NUL \<notin> set ''a.txt''" "NUL \<notin> set ''b.txt''"
  by (simp_all add: ok_name_def NUL_def)

end
