(* ===== verification/Client.thy ===== *)
theory Client
  imports Error_Codes Sockets Backup_Store
begin

text \<open>
  \<open>include/client/client.h\<close> and \<open>src/client/client.cpp\<close>: the interactive client. Its state holds the
  socket side of the operating system, what the user has yet to type, and the TCP connections to
  come. Of what it prints, the listing of LS is modelled. As for the server, \<open>None\<close> is a run that
  does not come back or whose behaviour is undefined.
\<close>

section \<open>State\<close>

datatype ClientState =
    WAITING | PROCESS_LS | PROCESS_SEND | PROCESS_GET | PROCESS_REMOVE | PROCESS_RENAME | SHUTDOWN | QUIT

record client_config =
  serverHost :: string
  serverPort :: u16
  c_recvTimeoutMs :: nat
  c_enableHandshake :: bool

definition ClientConfig :: client_config where
  "ClientConfig = \<lparr>serverHost = ''127.0.0.1'', serverPort = 0, c_recvTimeoutMs = 5000, c_enableHandshake = True\<rparr>"

text \<open>\<open>streams\<close> logs the bytes written to each TCP connection, with the address connected to.\<close>

record client =
  c_config :: client_config
  serverAddr :: addr
  c_state :: ClientState
  c_running :: bool
  c_os :: os
  stdin :: string
  printed :: "string list"
  connections :: "tcp_client list"
  streams :: "(addr \<times> string) list"

definition Client :: "client_config \<Rightarrow> os \<Rightarrow> string \<Rightarrow> tcp_client list \<Rightarrow> client" where
  "Client cfg w input tcp =
     \<lparr>c_config = cfg, serverAddr = (0, 0), c_state = WAITING, c_running = False, c_os = w,
      stdin = input, printed = [], connections = tcp, streams = []\<rparr>"

text \<open>\<open>host\<close> is what \<open>gethostbyname\<close> answers, \<open>created\<close> whether \<open>socket\<close> succeeds.\<close>

definition initialize :: "bool \<Rightarrow> u32 option \<Rightarrow> client \<Rightarrow> ErrorCode \<times> client" where
  "initialize created host c =
     (if \<not> created then (SOCKET_CREATE_ERROR, c)
      else let c = c\<lparr>serverAddr := (fst (serverAddr c), serverPort (c_config c))\<rparr>
           in case host of
                None \<Rightarrow> (SOCKET_CONNECT_ERROR, c)
              | Some a \<Rightarrow>
                  (SUCCESS, c\<lparr>serverAddr := (a, serverPort (c_config c)),
                     c_os := set_rcvtimeo (c_recvTimeoutMs (c_config c)) (c_os c)\<rparr>))"

section \<open>Messages\<close>

definition sendData :: "string \<Rightarrow> client \<Rightarrow> ErrorCode \<times> client" where
  "sendData data c =
     (case send_to (serverAddr c) data (c_os c) of
        (sent, w) \<Rightarrow> (if sent then SUCCESS else SOCKET_SEND_ERROR, c\<lparr>c_os := w\<rparr>))"

definition sendCommand :: "cmd_msg \<Rightarrow> client \<Rightarrow> ErrorCode \<times> client" where
  "sendCommand cmd c =
     (case send_to (serverAddr c) (encode_cmd (endian (c_os c)) cmd) (c_os c) of
        (sent, w) \<Rightarrow> (if sent then SUCCESS else SOCKET_SEND_ERROR, c\<lparr>c_os := w\<rparr>))"

text \<open>
  A receive writes over the message it is given, so a short datagram leaves the rest of the old
  message there; the sender of the datagram becomes the server address.
\<close>

definition receiveData :: "string \<Rightarrow> client \<Rightarrow> (ErrorCode \<times> string \<times> client) option" where
  "receiveData data c =
     map_option (\<lambda>(r, w).
       case r of
         None \<Rightarrow> (TIMEOUT, data, c\<lparr>c_os := w\<rparr>)
       | Some (a, d) \<Rightarrow>
           (if d = [] then TIMEOUT else SUCCESS, overlay data d, c\<lparr>c_os := w, serverAddr := a\<rparr>))
       (recvfrom DATA_BUF_LEN (c_os c))"

definition receiveResponse :: "cmd_msg \<Rightarrow> client \<Rightarrow> (ErrorCode \<times> cmd_msg \<times> client) option" where
  "receiveResponse response c =
     map_option (\<lambda>(r, w).
       case r of
         None \<Rightarrow> (TIMEOUT, response, c\<lparr>c_os := w\<rparr>)
       | Some (a, d) \<Rightarrow>
           (if d = [] then TIMEOUT else SUCCESS,
            decode_cmd (endian w) (overlay (encode_cmd (endian w) response) d),
            c\<lparr>c_os := w, serverAddr := a\<rparr>))
       (recvfrom CMD_MSG_LEN (c_os c))"

section \<open>Input\<close>

text \<open>\<open>std::getline(std::cin, line)\<close>: \<open>None\<close> at the end of the input.\<close>

definition getline :: "string \<Rightarrow> (string \<times> string) option" where
  "getline input =
     (if input = [] then None
      else let line = takeWhile (\<lambda>c. c \<noteq> CHR 0x0A) input
           in Some (line, drop (length line + 1) input))"

text \<open>\<open>stream >> word\<close>: the next word, empty at the end, and the rest of the stream.\<close>

definition getWord :: "string \<Rightarrow> string \<times> string" where
  "getWord input =
     (let s = dropWhile isspace input; w = takeWhile (\<lambda>c. \<not> isspace c) s
      in (w, drop (length w) s))"

text \<open>\<open>std::cin >> answer\<close> and \<open>ignore\<close> up to the end of the line; does the answer start with y?\<close>

definition askUser :: "client \<Rightarrow> bool \<times> client" where
  "askUser c =
     (let (answer, rest) = getWord (stdin c);
          yes = (case answer of [] \<Rightarrow> False | ch # _ \<Rightarrow> tolower ch = CHR ''y'')
      in (yes, c\<lparr>stdin := drop 1 (dropWhile (\<lambda>ch. ch \<noteq> CHR 0x0A) rest)\<rparr>))"

section \<open>LS\<close>

text \<open>
  The loop \<open>while (*file)\<close> over the bytes from \<open>file\<close> to the end of the message; \<open>None\<close> is a read
  past the end.
\<close>

function parseListing :: "string \<Rightarrow> string list option" where
  "parseListing data =
     (case data of
        [] \<Rightarrow> None
      | c # cs \<Rightarrow>
          if c = NUL then Some []
          else case c_array data of
                 None \<Rightarrow> None
               | Some file \<Rightarrow>
                   map_option (Cons file) (parseListing (drop (length file + 1) data)))"
  by pat_completeness auto

termination
  by (relation "measure length") auto

declare parseListing.simps [simp del]

definition handleLs :: "client \<Rightarrow> (ErrorCode \<times> client) option" where
  "handleLs c =
     (case sendCommand (setCommand LS CmdMsg) c of
        (result, c) \<Rightarrow>
          if result \<noteq> SUCCESS then Some (result, c)
          else do {
            (result, data, c) \<leftarrow> receiveData DataMsg c;
            if result \<noteq> SUCCESS then Some (result, c)
            else if hd data = NUL
            then Some (SUCCESS, c\<lparr>printed := printed c @ ['' - server backup folder is empty.'']\<rparr>)
            else do {
              names \<leftarrow> parseListing data;
              Some (SUCCESS, c\<lparr>printed := printed c @ [''Files on server:''] @ map (\<lambda>n. '' - '' @ n) names\<rparr>)
            }
          })"

section \<open>SEND\<close>

text \<open>
  \<open>file.read(dataMsg.data, filesize)\<close> into the 3000 bytes of the message: with more to read than
  fits, the buffer overflows.
\<close>

definition sendSmallFile :: "string \<Rightarrow> nat \<Rightarrow> client \<Rightarrow> (ErrorCode \<times> client) option" where
  "sendSmallFile filepath filesize c =
     (case readFileToBuffer filepath filesize DataMsg (fs (c_os c)) of
        (got, data) \<Rightarrow>
          if got < 0 then Some (FILE_OPEN_ERROR, c)
          else if int DATA_BUF_LEN < got then None
          else (case sendData data c of
                  (result, c) \<Rightarrow>
                    if result \<noteq> SUCCESS then Some (result, c)
                    else do {
                      (result, ackMsg, c) \<leftarrow> receiveResponse CmdMsg c;
                      Some (if result \<noteq> SUCCESS then result
                            else if getCommand ackMsg = ACK \<and> m_error ackMsg = 0 then SUCCESS
                            else FILE_WRITE_ERROR, c)
                    }))"

text \<open>
  The loop that writes the file to the connection. \<open>rest\<close> is what the stream has still to read:
  every round reads a full buffer (the end of the file leaves old bytes in it) and counts what
  \<open>send\<close> took, so after a short \<open>send\<close> the bytes it left are not sent again. The result is
  whether all went well, and the bytes on the wire. The buffer starts uninitialised; the first round
  fills it, since the file has more than 3000 bytes whenever this loop is entered.
\<close>

function sendLoop :: "nat \<Rightarrow> string \<Rightarrow> string \<Rightarrow> nat option list \<Rightarrow> nat \<Rightarrow> string \<Rightarrow> bool \<times> string" where
  "sendLoop filesize rest buffer script bytesSent wire =
     (if bytesSent < filesize
      then let bufferSize = min 3000 (filesize - bytesSent);
               buffer = overlay buffer (take bufferSize rest);
               rest = drop bufferSize rest
           in case script of
                [] \<Rightarrow> sendLoop filesize rest buffer [] (bytesSent + bufferSize) (wire @ take bufferSize buffer)
              | None # script \<Rightarrow> (False, wire)
              | Some k # script \<Rightarrow>
                  let sent = min k bufferSize
                  in sendLoop filesize rest buffer script (bytesSent + sent) (wire @ take sent buffer)
      else (True, wire))"
  by pat_completeness auto

termination
  by (relation "measures [\<lambda>(filesize, rest, buffer, script, bytesSent, wire). length script,
      \<lambda>(filesize, rest, buffer, script, bytesSent, wire). filesize - bytesSent]") auto

declare sendLoop.simps [simp del]

definition sendLargeFile :: "string \<Rightarrow> nat \<Rightarrow> u16 \<Rightarrow> client \<Rightarrow> (ErrorCode \<times> client) option" where
  "sendLargeFile filepath filesize tcpPort c =
     (let (connection, c) =
            (case connections c of
               [] \<Rightarrow> (ConnectFails, c)
             | x # xs \<Rightarrow> (x, c\<lparr>connections := xs\<rparr>));
          tcpServerAddr = (fst (serverAddr c), tcpPort)
      in case connection of
           ClientSocketFails \<Rightarrow> Some (SOCKET_CREATE_ERROR, c)
         | ConnectFails \<Rightarrow> Some (SOCKET_CONNECT_ERROR, c)
         | ConnectedTo script \<Rightarrow>
             (case stat (fs (c_os c)) filepath of
                Some (RegularFile content) \<Rightarrow>
                  (case sendLoop filesize content (zeros 3000) script 0 [] of
                     (complete, wire) \<Rightarrow>
                       let c = c\<lparr>streams := streams c @ [(tcpServerAddr, wire)]\<rparr>
                       in if \<not> complete then Some (SOCKET_SEND_ERROR, c)
                          else do {
                            (result, ackMsg, c) \<leftarrow> receiveResponse CmdMsg c;
                            Some (if result \<noteq> SUCCESS then result
                                  else if getCommand ackMsg = ACK \<and> m_error ackMsg = 0 then SUCCESS
                                  else FILE_WRITE_ERROR, c)
                          })
              | Some Directory \<Rightarrow> None
              | _ \<Rightarrow> Some (FILE_OPEN_ERROR, c)))"

definition handleSend :: "string \<Rightarrow> client \<Rightarrow> (ErrorCode \<times> client) option" where
  "handleSend filename c =
     (let filesize = unat (getFileSize filename (fs (c_os c)));
          baseName = Utils.getFilename filename;
          cmd = (setFilename baseName (setCommand SEND CmdMsg))\<lparr>m_size := of_nat filesize\<rparr>
      in if \<not> fileExists filename (fs (c_os c)) then Some (FILE_NOT_FOUND, c)
         else if \<not> isValidFilename baseName then Some (INVALID_FILENAME, c)
         else (case sendCommand cmd c of
                 (result, c) \<Rightarrow>
                   if result \<noteq> SUCCESS then Some (result, c)
                   else do {
                     (result, response, c) \<leftarrow> receiveResponse CmdMsg c;
                     if result \<noteq> SUCCESS then Some (result, c)
                     else if getCommand response = Command.FILE_EXISTS then
                       (let (yes, c) = askUser c;
                            confirmMsg = (setFilename baseName (setCommand OVERWRITE CmdMsg))
                              \<lparr>m_size := of_nat filesize, m_error := (if yes then 0 else 1)\<rparr>
                        in case sendCommand confirmMsg c of
                             (result, c) \<Rightarrow>
                               if result \<noteq> SUCCESS then Some (result, c)
                               else do {
                                 (result, response, c) \<leftarrow> receiveResponse response c;
                                 if \<not> yes then Some (CANCELLED, c)
                                 else if result \<noteq> SUCCESS then Some (result, c)
                                 else if getCommand response \<noteq> ACK then Some (UNEXPECTED_RESPONSE, c)
                                 else if DATA_BUF_LEN < filesize
                                 then sendLargeFile filename filesize (ucast (m_size response)) c
                                 else sendSmallFile filename filesize c
                               })
                     else if getCommand response = ACK \<and> DATA_BUF_LEN < filesize
                     then sendLargeFile filename filesize (ucast (m_size response)) c
                     else sendSmallFile filename filesize c
                   }))"

section \<open>REMOVE, RENAME and SHUTDOWN\<close>

definition handleRemove :: "string \<Rightarrow> client \<Rightarrow> (ErrorCode \<times> client) option" where
  "handleRemove filename c =
     (case sendCommand (setFilename filename (setCommand REMOVE CmdMsg)) c of
        (result, c) \<Rightarrow>
          if result \<noteq> SUCCESS then Some (result, c)
          else do {
            (result, ackMsg, c) \<leftarrow> receiveResponse CmdMsg c;
            Some (if result \<noteq> SUCCESS then result
                  else if getCommand ackMsg = ACK \<and> m_error ackMsg = 0 then SUCCESS
                  else if getCommand ackMsg = ACK \<and> m_error ackMsg = 1 then FILE_NOT_FOUND
                  else FILE_DELETE_ERROR, c)
          })"

text \<open>The end of the rename dialogue, from sending the new name.\<close>

definition renameAnswer :: "string \<Rightarrow> client \<Rightarrow> (ErrorCode \<times> client) option" where
  "renameAnswer newName c = do {
     data \<leftarrow> setData (newName @ [NUL]) (length newName) DataMsg;
     case sendData data c of
       (result, c) \<Rightarrow>
         if result \<noteq> SUCCESS then Some (result, c)
         else do {
           (result, ackMsg, c) \<leftarrow> receiveResponse CmdMsg c;
           if result \<noteq> SUCCESS then Some (result, c)
           else if getCommand ackMsg = ACK \<and> m_error ackMsg = 1 then Some (FILE_NOT_FOUND, c)
           else if getCommand ackMsg = Command.FILE_EXISTS then
             (let (yes, c) = askUser c;
                  confirmMsg = (setCommand OVERWRITE CmdMsg)\<lparr>m_error := (if yes then 0 else 1)\<rparr>
              in case sendCommand confirmMsg c of
                   (result, c) \<Rightarrow>
                     if result \<noteq> SUCCESS then Some (result, c)
                     else do {
                       (result, ackMsg, c) \<leftarrow> receiveResponse ackMsg c;
                       Some (if result \<noteq> SUCCESS then result
                             else if m_error ackMsg = 2 then CANCELLED
                             else if getCommand ackMsg = ACK \<and> m_error ackMsg = 0 then SUCCESS
                             else FILE_RENAME_ERROR, c)
                     })
           else Some (if getCommand ackMsg = ACK \<and> m_error ackMsg = 0 then SUCCESS
                      else FILE_RENAME_ERROR, c)
         }
   }"

definition handleRename :: "string \<Rightarrow> string \<Rightarrow> client \<Rightarrow> (ErrorCode \<times> client) option" where
  "handleRename oldName newName c =
     (case sendCommand (setFilename oldName (setCommand RENAME CmdMsg)) c of
        (result, c) \<Rightarrow>
          if result \<noteq> SUCCESS then Some (result, c)
          else if \<not> c_enableHandshake (c_config c) then renameAnswer newName c
          else do {
            (result, readyMsg, c) \<leftarrow> receiveResponse CmdMsg c;
            if result \<noteq> SUCCESS then Some (result, c)
            else if getCommand readyMsg = ACK \<and> m_error readyMsg = 1 then Some (FILE_NOT_FOUND, c)
            else if getCommand readyMsg = ACK
            then Some (if m_error readyMsg = 0 then SUCCESS else FILE_NOT_FOUND, c)
            else renameAnswer newName c
          })"

definition handleShutdown :: "client \<Rightarrow> (ErrorCode \<times> client) option" where
  "handleShutdown c = Some (sendCommand (setCommand Command.SHUTDOWN CmdMsg) c)"

section \<open>The command line\<close>

record parsed_command =
  p_command :: string
  p_arg1 :: string
  p_arg2 :: string

definition parseCommand :: "string \<Rightarrow> parsed_command" where
  "parseCommand input =
     (let (command, rest) = getWord input; (arg1, rest) = getWord rest; (arg2, rest) = getWord rest
      in \<lparr>p_command = toLower command, p_arg1 = arg1, p_arg2 = arg2\<rparr>)"

definition executeCommand :: "string \<Rightarrow> client \<Rightarrow> (ErrorCode \<times> client) option" where
  "executeCommand input c =
     (let parsed = parseCommand input
      in if p_command parsed = ''ls'' then handleLs (c\<lparr>c_state := PROCESS_LS\<rparr>)
         else if p_command parsed = ''send'' then
           (if p_arg1 parsed = [] then Some (INVALID_ARGUMENT, c)
            else handleSend (p_arg1 parsed) (c\<lparr>c_state := PROCESS_SEND\<rparr>))
         else if p_command parsed = ''remove'' then
           (if p_arg1 parsed = [] then Some (INVALID_ARGUMENT, c)
            else handleRemove (p_arg1 parsed) (c\<lparr>c_state := PROCESS_REMOVE\<rparr>))
         else if p_command parsed = ''rename'' then
           (if p_arg1 parsed = [] \<or> p_arg2 parsed = [] then Some (INVALID_ARGUMENT, c)
            else handleRename (p_arg1 parsed) (p_arg2 parsed) (c\<lparr>c_state := PROCESS_RENAME\<rparr>))
         else if p_command parsed = ''shutdown'' then handleShutdown (c\<lparr>c_state := SHUTDOWN\<rparr>)
         else if p_command parsed = ''quit'' \<or> p_command parsed = ''exit''
         then Some (SUCCESS, c\<lparr>c_state := QUIT\<rparr>)
         else Some (INVALID_COMMAND, c))"

text \<open>The loop of \<open>run\<close>; its Boolean says whether another round follows.\<close>

definition clientRound :: "client \<Rightarrow> (bool \<times> client) option" where
  "clientRound c =
     (case getline (stdin c) of
        None \<Rightarrow> Some (False, c)
      | Some (line, rest) \<Rightarrow>
          (let c = c\<lparr>stdin := rest\<rparr>; line = trim line
           in if line = [] then Some (True, c)
              else do {
                (result, c) \<leftarrow> executeCommand line c;
                Some (if c_state c = QUIT then (False, c) else (True, c\<lparr>c_state := WAITING\<rparr>))
              }))"

partial_function (option) clientLoop :: "client \<Rightarrow> client option" where
  "clientLoop c =
     Option.bind (clientRound c) (\<lambda>(more, c'). if more then clientLoop c' else Some c')"

definition run :: "client \<Rightarrow> (ErrorCode \<times> client) option" where
  "run c = do {
     c \<leftarrow> clientLoop (c\<lparr>c_running := True, c_state := WAITING\<rparr>);
     Some (SUCCESS, c\<lparr>c_running := False\<rparr>)
   }"

section \<open>The file on the wire\<close>

lemma full_sends:
  assumes "\<forall>x \<in> set script. \<exists>k \<ge> 3000. x = Some k"
  shows "sendLoop (length content) content (zeros 3000) script 0 [] = (True, content)"
proof -
  have "sendLoop (length content) (drop n content) buffer script n (take n content) = (True, content)"
    if "n \<le> length content" "length buffer = 3000" "\<forall>x \<in> set script. \<exists>k \<ge> 3000. x = Some k"
    for n buffer script
    using that
  proof (induction "length content - n" arbitrary: n buffer script rule: less_induct)
    case less
    show ?case
    proof (cases "n < length content")
      case False
      then show ?thesis using less.prems by (subst sendLoop.simps) simp
    next
      case True
      define k where "k = min 3000 (length content - n)"
      define b where "b = overlay buffer (take k (drop n content))"
      have k: "k \<le> 3000" "n + k \<le> length content" "0 < k" using True by (auto simp: k_def)
      have b: "length b = 3000" "take k b = take k (drop n content)"
        using less.prems(2) k by (simp_all add: b_def overlay_def)
      have w: "take n content @ take k b = take (n + k) content" by (simp add: b(2) take_add)
      have d: "drop k (drop n content) = drop (n + k) content" by (simp add: add.commute)
      have "length content - (n + k) < length content - n" using True k(3) by simp
      note ih = less.hyps[OF this k(2) b(1)]
      show ?thesis
      proof (cases script)
        case Nil
        with ih[of "[]"] True w d show ?thesis
          by (subst sendLoop.simps) (simp add: Let_def k_def[symmetric] b_def[symmetric] add.commute)
      next
        case (Cons x xs)
        then obtain j where j: "x = Some j" "3000 \<le> j" using less.prems(3) by auto
        then have "min j k = k" using k by simp
        with ih[of xs] True w d Cons j less.prems(3) show ?thesis
          by (subst sendLoop.simps) (simp add: Let_def k_def[symmetric] b_def[symmetric] add.commute)
      qed
    qed
  qed
  from this[of 0 "zeros 3000" script] assms show ?thesis by simp
qed

text \<open>
  When every \<open>send\<close> takes the whole buffer, the bytes on the connection are the file, and the
  loop ends.
\<close>

theorem full_sends_exact:
  assumes "\<forall>x \<in> set script. \<exists>k \<ge> 3000. x = Some k"
  shows "sendLoop (length content) content (zeros 3000) script 0 [] = (True, content)"
  by (rule full_sends[OF assms])

theorem full_sends_exact_witness:
  "sendLoop 4 ''file'' (zeros 3000) [Some 3000] 0 [] = (True, ''file'')"
  using full_sends_exact[of "[Some 3000]" "''file''"] by (simp add: eval_nat_numeral)

lemma sendLoop_shape:
  assumes "length buffer = 3000" "n \<le> filesize"
  shows "\<exists>r. sendLoop filesize rest buffer [] n wire = (True, wire @ r) \<and> length r = filesize - n \<and>
    (n < filesize \<and> rest \<noteq> [] \<longrightarrow> hd r = hd rest)"
  using assms
proof (induction "filesize - n" arbitrary: n buffer rest wire rule: less_induct)
  case less
  show ?case
  proof (cases "n < filesize")
    case False
    then show ?thesis using less.prems by (subst sendLoop.simps) simp
  next
    case True
    define k where "k = min 3000 (filesize - n)"
    define b where "b = overlay buffer (take k rest)"
    have k: "k \<le> 3000" "n + k \<le> filesize" "0 < k" using True by (auto simp: k_def)
    have b: "length b = 3000" using less.prems(1) by (simp add: b_def)
    have "filesize - (n + k) < filesize - n" using True k(3) by simp
    from less.hyps[OF this b k(2), of "drop k rest" "wire @ take k b"] obtain r where r:
      "sendLoop filesize (drop k rest) b [] (n + k) (wire @ take k b) = (True, (wire @ take k b) @ r)"
      "length r = filesize - (n + k)" by blast
    have e: "sendLoop filesize rest buffer [] n wire = (True, wire @ (take k b @ r))"
      using True r(1) by (subst sendLoop.simps) (simp add: Let_def k_def[symmetric] b_def[symmetric])
    have l: "length (take k b @ r) = filesize - n" using b k r(2) by simp
    have h: "hd (take k b @ r) = hd rest" if ne: "rest \<noteq> []"
    proof -
      obtain y ys where y: "rest = y # ys" using ne by (auto simp: neq_Nil_conv)
      obtain k' where k': "k = Suc k'" using k(3) by (cases k) auto
      obtain z zs where z: "buffer = z # zs" using less.prems(1) by (cases buffer) auto
      show ?thesis by (simp add: b_def overlay_def y k' z)
    qed
    from e l h show ?thesis by blast
  qed
qed

text \<open>
  C36: a short \<open>send\<close> corrupts the transfer unnoticed. If the kernel takes only \<open>k\<close> of the first
  3000 bytes, the loop still ends with success and the announced number of bytes, but byte \<open>k\<close> of
  the stream is byte 3000 of the file: the bytes \<open>send\<close> left over are never sent.
\<close>

theorem short_send_corrupts:
  assumes "0 < k" "k < 3000" "3000 < length content"
  shows "\<exists>wire. sendLoop (length content) content (zeros 3000) [Some k] 0 [] = (True, wire) \<and>
    length wire = length content \<and> take k wire = take k content \<and> wire ! k = content ! 3000"
proof -
  have m: "min 3000 (length content) = 3000" using assms(3) by simp
  have b: "overlay (zeros 3000) (take 3000 content) = take 3000 content" using assms(3) by simp
  have l: "length (take 3000 content) = 3000" "k \<le> length content" using assms by simp_all
  obtain r where r: "sendLoop (length content) (drop 3000 content) (take 3000 content) [] k (take k content) =
      (True, take k content @ r)" "length r = length content - k" "hd r = hd (drop 3000 content)"
    using sendLoop_shape[OF l, of "drop 3000 content" "take k content"] assms by auto
  have first: "sendLoop (length content) content (zeros 3000) [Some k] 0 [] = (True, take k content @ r)"
  proof -
    have p: "0 < length content" "min k 3000 = k" using assms by linarith+
    then show ?thesis
      using r(1)
      by (subst sendLoop.simps)
        (simp only: Let_def m b p diff_zero if_True option.case list.case append_Nil add_0 take_take)
  qed
  have "r \<noteq> []" using r(2) assms by auto
  then have "(take k content @ r) ! k = content ! 3000"
    using r(3) assms by (simp add: nth_append hd_conv_nth[symmetric] hd_drop_conv_nth)
  with first r(2) assms show ?thesis by (intro exI[of _ "take k content @ r"]) simp
qed

theorem short_send_corrupts_witness:
  "\<exists>wire. sendLoop 3001 (replicate 3000 (CHR ''x'') @ ''y'') (zeros 3000) [Some 1000] 0 [] = (True, wire) \<and>
     wire ! 1000 = CHR ''y''"
  using short_send_corrupts[of 1000 "replicate 3000 (CHR ''x'') @ ''y''"] by (auto simp: nth_append)

section \<open>Replies\<close>

text \<open>A client whose sends are instantaneous and work, with the answer on its way.\<close>

definition answered :: "client \<Rightarrow> nat \<Rightarrow> addr \<Rightarrow> string \<Rightarrow> bool" where
  "answered c t a d \<longleftrightarrow>
     send_script (c_os c) = [] \<and> \<not> nonblocking (c_os c) \<and>
     (rcvtimeo (c_os c) = 0 \<or> t \<le> clock (c_os c) + rcvtimeo (c_os c)) \<and>
     d \<noteq> [] \<and> (\<exists>rest. incoming (c_os c) = (t, a, d) # rest)"

lemma sendCommand_instant:
  "send_script (c_os c) = [] \<Longrightarrow>
     sendCommand m c = (SUCCESS, c\<lparr>c_os := (c_os c)\<lparr>outgoing :=
       outgoing (c_os c) @ [(serverAddr c, encode_cmd (endian (c_os c)) m)]\<rparr>\<rparr>)"
  by (simp add: sendCommand_def send_to_def)

lemma receiveResponse_answered:
  assumes "answered c t a (encode_cmd (endian (c_os c)) m)" "valid_msg m" "valid_msg old"
  shows "\<exists>c'. receiveResponse old c = Some (SUCCESS, m, c') \<and> outgoing (c_os c') = outgoing (c_os c) \<and>
    serverAddr c' = a \<and> fs (c_os c') = fs (c_os c) \<and> send_script (c_os c') = [] \<and>
    printed c' = printed c \<and> endian (c_os c') = endian (c_os c)"
proof -
  let ?bo = "endian (c_os c)"
  have l: "length (encode_cmd ?bo x) = CMD_MSG_LEN" if "valid_msg x" for x
    using cmd_codec.enc_width[OF that] .
  have t: "take CMD_MSG_LEN (encode_cmd ?bo m) = encode_cmd ?bo m" using l[OF assms(2)] by simp
  have o: "overlay (encode_cmd ?bo old) (encode_cmd ?bo m) = encode_cmd ?bo m"
    using l[OF assms(2)] l[OF assms(3)] by simp
  obtain rest where inc: "incoming (c_os c) = (t, a, encode_cmd ?bo m) # rest"
    using assms(1) by (auto simp: answered_def)
  have "\<exists>w. recvfrom CMD_MSG_LEN (c_os c) = Some (Some (a, encode_cmd ?bo m), w)"
    using assms(1) inc t by (auto simp: answered_def recvfrom_def)
  then obtain w where w: "recvfrom CMD_MSG_LEN (c_os c) = Some (Some (a, encode_cmd ?bo m), w)" by blast
  have d: "decode_cmd ?bo (encode_cmd ?bo m) = m" by (rule cmd_codec.dec_enc[OF assms(2)])
  show ?thesis
    using w o d recvfrom_keeps[OF w] assms(1) by (auto simp: receiveResponse_def answered_def)
qed

text \<open>
  What the user is told about REMOVE is the server's answer: 0 is success, 1 a missing file, and
  everything else, like 107 for an invalid name, a failure.
\<close>

lemma remove_answer:
  assumes "answered c t a (encode_cmd (endian (c_os c)) m)" "valid_msg m"
  shows "\<exists>c'. handleRemove name c =
      Some (if getCommand m = ACK \<and> m_error m = 0 then SUCCESS
            else if getCommand m = ACK \<and> m_error m = 1 then FILE_NOT_FOUND else FILE_DELETE_ERROR, c') \<and>
    outgoing (c_os c') = outgoing (c_os c) @
      [(serverAddr c, encode_cmd (endian (c_os c)) (setFilename name (setCommand REMOVE CmdMsg)))]"
proof -
  let ?m = "setFilename name (setCommand REMOVE CmdMsg)"
  let ?c = "c\<lparr>c_os := (c_os c)\<lparr>outgoing := outgoing (c_os c) @ [(serverAddr c, encode_cmd (endian (c_os c)) ?m)]\<rparr>\<rparr>"
  have s: "sendCommand ?m c = (SUCCESS, ?c)"
    using assms(1) by (intro sendCommand_instant) (simp add: answered_def)
  have "answered ?c t a (encode_cmd (endian (c_os ?c)) m)" using assms(1) by (simp add: answered_def)
  from receiveResponse_answered[OF this assms(2), of CmdMsg] obtain c' where
    "receiveResponse CmdMsg ?c = Some (SUCCESS, m, c')" "outgoing (c_os c') = outgoing (c_os ?c)" by auto
  with s show ?thesis by (auto simp: handleRemove_def)
qed

lemma receiveData_answered:
  assumes "answered c t a d" "length d = DATA_BUF_LEN"
  shows "\<exists>c'. receiveData DataMsg c = Some (SUCCESS, d, c') \<and> printed c' = printed c"
proof -
  obtain rest where inc: "incoming (c_os c) = (t, a, d) # rest" "d \<noteq> []"
    using assms(1) by (auto simp: answered_def)
  have "\<exists>w. recvfrom DATA_BUF_LEN (c_os c) = Some (Some (a, d), w)"
    using assms inc by (auto simp: answered_def recvfrom_def)
  moreover have "overlay DataMsg d = d" using assms(2) by (simp add: DataMsg_def)
  ultimately show ?thesis using inc(2) by (auto simp: receiveData_def)
qed

lemma receiveResponse_returns: "rcvtimeo (c_os c) \<noteq> 0 \<Longrightarrow> \<exists>r. receiveResponse m c = Some r"
  by (auto simp: receiveResponse_def recvfrom_def split: list.splits)

lemma receiveResponse_timeout:
  "receiveResponse m c = Some (r, m', c') \<Longrightarrow> rcvtimeo (c_os c') = rcvtimeo (c_os c)"
  by (auto simp: receiveResponse_def split: option.splits dest!: recvfrom_keeps)

text \<open>What \<open>ls\<close> shows for a list of names.\<close>

definition screen :: "string list \<Rightarrow> string list" where
  "screen names =
     (if names = [] then ['' - server backup folder is empty.'']
      else ''Files on server:'' # map (\<lambda>n. '' - '' @ n) names)"

lemma ls_answer:
  assumes "answered c t a d" "length d = DATA_BUF_LEN" "parseListing d = Some names"
  shows "\<exists>c'. handleLs c = Some (SUCCESS, c') \<and> printed c' = printed c @ screen names"
proof -
  let ?m = "setCommand LS CmdMsg"
  let ?c = "c\<lparr>c_os := (c_os c)\<lparr>outgoing := outgoing (c_os c) @ [(serverAddr c, encode_cmd (endian (c_os c)) ?m)]\<rparr>\<rparr>"
  have s: "sendCommand ?m c = (SUCCESS, ?c)"
    using assms(1) by (intro sendCommand_instant) (simp add: answered_def)
  have "answered ?c t a d" using assms(1) by (simp add: answered_def)
  from receiveData_answered[OF this assms(2)] obtain c' where
    r: "receiveData DataMsg ?c = Some (SUCCESS, d, c')" "printed c' = printed c" by auto
  obtain x xs where d: "d = x # xs" using assms(1) by (auto simp: answered_def neq_Nil_conv)
  have "x = NUL \<longleftrightarrow> names = []"
    using assms(3) unfolding d by (subst (asm) parseListing.simps) (auto split: if_splits option.splits)
  with s r assms(3) d show ?thesis by (auto simp: handleLs_def screen_def)
qed

text \<open>
  A refused upload is sent all the same. Whatever error the server's acknowledgement of SEND
  carries, the client goes on and sends the content of the small file to whoever answered; an answer
  that is neither an acknowledgement nor FILE_EXISTS makes it copy the file into a message of 3000
  bytes without a check of its size, so for a larger file the behaviour is undefined.
\<close>

theorem send_ignores_refusal:
  assumes "answered c t a (encode_cmd (endian (c_os c)) m)" "valid_msg m" "rcvtimeo (c_os c) \<noteq> 0"
    and "getCommand m \<noteq> Command.FILE_EXISTS"
    and "stat (fs (c_os c)) filename = Some (RegularFile content)" "length content < 2 ^ 64"
    and "isValidFilename (Utils.getFilename filename)"
    and "getCommand m = ACK \<longrightarrow> length content \<le> 3000"
  shows "if length content \<le> 3000
    then \<exists>r c' ms. handleSend filename c = Some (r, c') \<and>
      outgoing (c_os c') = outgoing (c_os c) @ ms \<and> (a, overlay DataMsg content) \<in> set ms
    else handleSend filename c = None"
proof -
  let ?cmd = "(setFilename (Utils.getFilename filename) (setCommand SEND CmdMsg))\<lparr>m_size := of_nat (length content)\<rparr>"
  let ?c = "c\<lparr>c_os := (c_os c)\<lparr>outgoing := outgoing (c_os c) @ [(serverAddr c, encode_cmd (endian (c_os c)) ?cmd)]\<rparr>\<rparr>"
  have z: "unat (getFileSize filename (fs (c_os c))) = length content"
    using assms(5,6) by (simp add: getFileSize_def unat_of_nat)
  have ex: "fileExists filename (fs (c_os c))"
    using assms(5) by (simp add: fileExists_def S_IFREG_def)
  have s: "sendCommand ?cmd c = (SUCCESS, ?c)"
    using assms(1) by (intro sendCommand_instant) (simp add: answered_def)
  have "answered ?c t a (encode_cmd (endian (c_os ?c)) m)" using assms(1) by (simp add: answered_def)
  from receiveResponse_answered[OF this assms(2), of CmdMsg] obtain u where
    u: "receiveResponse CmdMsg ?c = Some (SUCCESS, m, u)" "outgoing (c_os u) = outgoing (c_os ?c)"
      "serverAddr u = a" "fs (c_os u) = fs (c_os ?c)" "send_script (c_os u) = []" by auto
  have timed: "rcvtimeo (c_os u) \<noteq> 0" using receiveResponse_timeout[OF u(1)] assms(3) by simp
  have "\<not> (getCommand m = ACK \<and> DATA_BUF_LEN < length content)" using assms(8) by (auto simp: DATA_BUF_LEN_def)
  then have h: "handleSend filename c = sendSmallFile filename (length content) u"
    using s u(1) ex z assms(4,7) by (auto simp: handleSend_def Let_def)
  have f: "readFileToBuffer filename (length content) DataMsg (fs (c_os u)) =
      (int (length content), content @ drop (length content) DataMsg)"
    using assms(5) u(4) by (simp add: readFileToBuffer_def)
  show ?thesis
  proof (cases "length content \<le> 3000")
    case False
    with h f show ?thesis by (simp add: sendSmallFile_def DATA_BUF_LEN_def)
  next
    case True
    let ?v = "u\<lparr>c_os := (c_os u)\<lparr>outgoing := outgoing (c_os u) @ [(a, overlay DataMsg content)]\<rparr>\<rparr>"
    have d: "content @ drop (length content) DataMsg = overlay DataMsg content"
      using True by (simp add: overlay_def DATA_BUF_LEN_def)
    have v: "sendData (overlay DataMsg content) u = (SUCCESS, ?v)"
      using u(3,5) by (simp add: sendData_def send_to_def)
    obtain r m' c' where r: "receiveResponse CmdMsg ?v = Some (r, m', c')"
      using receiveResponse_returns[of ?v CmdMsg] timed by auto
    then have "outgoing (c_os c') = outgoing (c_os ?v)"
      by (auto simp: receiveResponse_def split: option.splits dest!: recvfrom_keeps)
    moreover have "\<exists>r'. handleSend filename c = Some (r', c')"
      using h f d v r True by (simp add: sendSmallFile_def DATA_BUF_LEN_def)
    ultimately show ?thesis using True u(2) by auto
  qed
qed

text \<open>A client that sends \<open>backup/a.txt\<close> of the example directory and is refused with error 107.\<close>

definition refused_client :: client where
  "refused_client = Client ClientConfig ((quiet_os sample_fs)\<lparr>rcvtimeo := 5000, incoming :=
     [(1, (9, 9), encode_cmd LittleEndian ((setCommand ACK CmdMsg)\<lparr>m_error := 107\<rparr>))]\<rparr>) [] []"

theorem send_ignores_refusal_witness:
  "\<exists>r c'. handleSend ''backup/a.txt'' refused_client = Some (r, c') \<and>
     ((9, 9), overlay DataMsg ''old'') \<in> set (outgoing (c_os c'))"
proof -
  let ?m = "(setCommand ACK CmdMsg)\<lparr>m_error := 107\<rparr>"
  have l: "length (encode_cmd LittleEndian ?m) = CMD_MSG_LEN" by (intro cmd_codec.enc_width) simp
  then have "answered refused_client 1 (9, 9) (encode_cmd (endian (c_os refused_client)) ?m)"
    by (auto simp: answered_def refused_client_def Client_def quiet_os_def CMD_MSG_LEN_def)
  moreover have "stat (fs (c_os refused_client)) ''backup/a.txt'' = Some (RegularFile ''old'')"
    by (simp add: refused_client_def Client_def quiet_os_def stat_def resolve_def lookup_def sample_fs_def
        slash_def c_str_def NUL_def)
  moreover have "isValidFilename (Utils.getFilename ''backup/a.txt'')" by code_simp
  ultimately show ?thesis
    using send_ignores_refusal[of refused_client 1 "(9, 9)" ?m "''backup/a.txt''" "''old''"]
    by (auto simp: refused_client_def Client_def quiet_os_def)
qed

end
