(* ===== verification/Http_Life.thy ===== *)
theory Http_Life
  imports Sockets
begin

text \<open>
  The thread of the management server in the server's process: \<open>start\<close> and \<open>stop\<close> of
  \<open>src/server/http_server.cpp\<close>. What the thread does belongs to the library: \<open>listens\<close> says whether
  \<open>listen\<close> succeeds, \<open>drains\<close> how many milliseconds after \<open>server_->stop()\<close> it returns (\<open>None\<close>: never,
  a request does not end). The thread is taken to have reached \<open>listen\<close> when the 100 milliseconds that
  \<open>start\<close> sleeps are over.
\<close>

record http_life =
  http_running :: bool
  joinable :: bool
  listens :: bool
  drains :: "nat option"

definition HttpLife :: "bool \<Rightarrow> nat option \<Rightarrow> http_life" where
  "HttpLife l d = \<lparr>http_running = False, joinable = False, listens = l, drains = d\<rparr>"

text \<open>
  \<open>None\<close>: a thread is assigned over one that has not been joined, which ends the process. The Boolean
  is what \<open>start\<close> returns.
\<close>

definition httpStart :: "http_life \<Rightarrow> os \<Rightarrow> (bool \<times> http_life \<times> os) option" where
  "httpStart l w =
     (if http_running l then Some (False, l, w)
      else if joinable l then None
      else Some (listens l, l\<lparr>http_running := listens l, joinable := True\<rparr>, w\<lparr>clock := clock w + 100\<rparr>))"

text \<open>\<open>None\<close>: \<open>join\<close> waits for ever.\<close>

definition httpStop :: "http_life \<Rightarrow> os \<Rightarrow> (http_life \<times> os) option" where
  "httpStop l w =
     (if \<not> joinable l then Some (l, w)
      else if \<not> http_running l then Some (l\<lparr>joinable := False\<rparr>, w)
      else map_option (\<lambda>ms. (l\<lparr>http_running := False, joinable := False\<rparr>, w\<lparr>clock := clock w + ms\<rparr>)) (drains l))"

end
