(* ===== verification/Doubles.thy ===== *)
theory Doubles
  imports Utils "HOL-Library.Log_Nat" Complex_Main
begin

text \<open>
  What the program computes in \<open>double\<close>: latencies and human-readable sizes. A finite double is the
  rational it denotes and every operation rounds its exact result to 53 significant bits, ties to
  even, as IEEE 754 prescribes. The exponent range is not bounded: sizes stay below \<open>2 ^ 64\<close> and
  latencies are durations in milliseconds, far from overflow and from the subnormal numbers.
  The clock functions of \<open>utils.cpp\<close> and \<open>formatBytes\<close> are here as well.
\<close>

section \<open>Rounding\<close>

text \<open>The nearest integer, ties to even.\<close>

definition round_even :: "rat \<Rightarrow> int" where
  "round_even x =
     (let f = \<lfloor>x\<rfloor>; r = x - of_int f
      in if 2 * r < 1 then f else if 2 * r > 1 then f + 1 else if even f then f else f + 1)"

definition pow2 :: "int \<Rightarrow> rat" where
  "pow2 k = 2 powi k"

text \<open>The exponent of the last of the 53 significant bits of a positive rational.\<close>

definition ulp_exp :: "rat \<Rightarrow> int" where
  "ulp_exp x =
     (let (p, q) = quotient_of x; k = bitlen p - bitlen q
      in if x < pow2 k then k - 53 else k - 52)"

definition fl :: "rat \<Rightarrow> rat" where
  "fl x =
     (if x = 0 then 0
      else let e = ulp_exp \<bar>x\<bar> in of_int (round_even (x / pow2 e)) * pow2 e)"

lemma round_even_of_int [simp]: "round_even (of_int n) = n"
  by (simp add: round_even_def)

lemma round_even_error: "\<bar>of_int (round_even x) - x\<bar> \<le> 1 / 2"
proof -
  have "of_int \<lfloor>x\<rfloor> \<le> x" "x < of_int \<lfloor>x\<rfloor> + 1" by linarith+
  then show ?thesis unfolding round_even_def Let_def by (auto split: if_splits)
qed

lemma round_even_mono: "x \<le> y \<Longrightarrow> round_even x \<le> round_even y"
proof -
  assume le: "x \<le> y"
  show ?thesis
  proof (cases "\<lfloor>x\<rfloor> = \<lfloor>y\<rfloor>")
    case True
    with le show ?thesis by (auto simp: round_even_def Let_def)
  next
    case False
    then have "\<lfloor>x\<rfloor> + 1 \<le> \<lfloor>y\<rfloor>" using floor_mono[OF le] by linarith
    moreover have "round_even x \<le> \<lfloor>x\<rfloor> + 1" "\<lfloor>y\<rfloor> \<le> round_even y"
      by (auto simp: round_even_def Let_def)
    ultimately show ?thesis by linarith
  qed
qed

lemma fl_0 [simp]: "fl 0 = 0"
  by (simp add: fl_def)


text \<open>\<open>ulp_exp\<close> places a positive number in its binade.\<close>

lemma pow2_pos [simp]: "0 < pow2 k"
  by (simp add: pow2_def)

lemma pow2_simps [simp]: "pow2 k \<noteq> 0" "\<bar>pow2 k\<bar> = pow2 k" "0 \<le> pow2 k"
  using pow2_pos[of k] by linarith+

lemma pow2_add: "pow2 (a + b) = pow2 a * pow2 b"
  by (simp add: pow2_def power_int_add)

lemma pow2_diff: "pow2 (a - b) = pow2 a / pow2 b"
  by (simp add: pow2_def power_int_diff)

lemma pow2_less_cancel: "pow2 a < pow2 b \<Longrightarrow> a < b"
  using power_int_increasing[of b a "2::rat"] unfolding pow2_def by linarith

lemma pow2_nonneg: "0 \<le> k \<Longrightarrow> pow2 k = of_int (2 ^ nat k)"
  by (simp add: pow2_def power_int_nonneg_exp)

lemma bitlen_rat: "0 < p \<Longrightarrow> pow2 (bitlen p - 1) \<le> of_int p \<and> of_int p < pow2 (bitlen p)"
proof -
  assume p: "0 < p"
  then have "0 < bitlen p" using bitlen_eq_zero_iff[of p] bitlen_nonneg[of p] by linarith
  then have e: "pow2 (bitlen p - 1) = of_int (2 ^ nat (bitlen p - 1))"
    "pow2 (bitlen p) = of_int (2 ^ nat (bitlen p))"
    by (simp_all only: pow2_nonneg)
  show ?thesis unfolding e of_int_le_iff of_int_less_iff by (rule bitlen_bounds[OF p])
qed

lemma ulp_exp_bounds:
  assumes x: "0 < x"
  shows "pow2 (ulp_exp x + 52) \<le> x \<and> x < pow2 (ulp_exp x + 53)"
proof -
  obtain p q where pq: "quotient_of x = (p, q)" by (cases "quotient_of x")
  then have q: "0 < q" and xq: "x = of_int p / of_int q"
    using quotient_of_denom_pos quotient_of_div by blast+
  then have p: "0 < p" using x by (simp add: zero_less_divide_iff)
  let ?k = "bitlen p - bitlen q"
  from bitlen_rat[OF p] bitlen_rat[OF q]
  have b: "pow2 (bitlen p - 1) \<le> of_int p" "of_int p < pow2 (bitlen p)"
    "pow2 (bitlen q - 1) \<le> of_int q" "of_int q < pow2 (bitlen q)" by blast+
  have "x < pow2 (bitlen p) / pow2 (bitlen q - 1)"
    unfolding xq by (rule frac_less) (use b p in simp_all)
  also have "\<dots> = pow2 (?k + 1)" unfolding pow2_diff[symmetric] by (simp add: algebra_simps)
  finally have hi: "x < pow2 (?k + 1)" .
  have "pow2 (?k - 1) = pow2 (bitlen p - 1) / pow2 (bitlen q)"
    unfolding pow2_diff[symmetric] by (simp add: algebra_simps)
  also have "\<dots> < x"
    unfolding xq by (rule frac_less2) (use b p q in simp_all)
  finally have lo: "pow2 (?k - 1) < x" .
  show ?thesis
  proof (cases "x < pow2 ?k")
    case True
    then have "ulp_exp x = ?k - 53" using pq by (simp add: ulp_exp_def)
    with True lo show ?thesis by simp
  next
    case False
    then have "ulp_exp x = ?k - 52" using pq by (simp add: ulp_exp_def)
    with False hi show ?thesis by (simp add: add.commute)
  qed
qed

lemma ulp_exp_unique:
  assumes "0 < x" "pow2 (e + 52) \<le> x" "x < pow2 (e + 53)"
  shows "ulp_exp x = e"
proof -
  have "pow2 (e + 52) < pow2 (ulp_exp x + 53)" "pow2 (ulp_exp x + 52) < pow2 (e + 53)"
    using ulp_exp_bounds[OF assms(1)] assms(2,3) by linarith+
  then have "e + 52 < ulp_exp x + 53" "ulp_exp x + 52 < e + 53" by (simp_all only: pow2_less_cancel)
  then show ?thesis by linarith
qed

lemma ulp_exp_scale: "0 < x \<Longrightarrow> ulp_exp (x * pow2 j) = ulp_exp x + j"
proof (rule ulp_exp_unique)
  assume x: "0 < x"
  then show "0 < x * pow2 j" by simp
  have "pow2 (ulp_exp x + j + 52) = pow2 (ulp_exp x + 52) * pow2 j"
    "pow2 (ulp_exp x + j + 53) = pow2 (ulp_exp x + 53) * pow2 j"
    unfolding pow2_add[symmetric] by (simp_all add: algebra_simps)
  then show "pow2 (ulp_exp x + j + 52) \<le> x * pow2 j" "x * pow2 j < pow2 (ulp_exp x + j + 53)"
    using ulp_exp_bounds[OF x] by simp_all
qed

text \<open>Scaling by a power of two is exact.\<close>

lemma fl_scale: "fl (x * pow2 j) = fl x * pow2 j"
proof (cases "x = 0")
  case False
  then show ?thesis
    using ulp_exp_scale[of "\<bar>x\<bar>" j] by (simp add: fl_def Let_def pow2_add abs_mult)
qed simp

text \<open>Integers of up to 53 bits are doubles.\<close>

lemma fl_of_int:
  assumes "\<bar>n\<bar> < 2 ^ 53"
  shows "fl (of_int n) = of_int n"
proof (cases "n = 0")
  case False
  let ?x = "of_int n :: rat"
  let ?e = "ulp_exp \<bar>?x\<bar>"
  have p: "0 < \<bar>?x\<bar>" using False by simp
  have "\<bar>?x\<bar> = of_int \<bar>n\<bar>" by simp
  also have "\<dots> < of_int (2 ^ 53)" using assms by (simp only: of_int_less_iff)
  also have "\<dots> = pow2 53" by (simp add: pow2_nonneg)
  finally have "pow2 (?e + 52) < pow2 53" using ulp_exp_bounds[OF p] by linarith
  then have "?e + 52 < 53" by (rule pow2_less_cancel)
  then have e: "?e \<le> 0" by simp
  then have "?x / pow2 ?e = ?x * pow2 (- ?e)" using pow2_add[of "?e" "- ?e"] by (simp add: field_simps pow2_def)
  then have q: "?x / pow2 ?e = of_int (n * 2 ^ nat (- ?e))"
    using pow2_nonneg[of "- ?e"] e by simp
  then have "round_even (?x / pow2 ?e) = n * 2 ^ nat (- ?e)" by (simp only: round_even_of_int)
  then have "fl ?x = of_int (n * 2 ^ nat (- ?e)) * pow2 ?e" using False by (simp add: fl_def Let_def)
  also have "\<dots> = ?x" unfolding q[symmetric] by simp
  finally show ?thesis .
qed simp

lemma fl_of_nat: "n < 2 ^ 53 \<Longrightarrow> fl (of_nat n) = of_nat n"
  using fl_of_int[of "int n"] by simp

lemma fl_nonneg: "0 \<le> x \<Longrightarrow> 0 \<le> fl x"
proof -
  assume "0 \<le> x"
  then have "0 \<le> x / pow2 (ulp_exp \<bar>x\<bar>)" by simp
  then have "0 \<le> round_even (x / pow2 (ulp_exp \<bar>x\<bar>))"
    using round_even_mono[of 0] round_even_of_int[of 0] by simp
  then show ?thesis by (simp add: fl_def Let_def)
qed

text \<open>The error of one operation is at most one part in \<open>2 ^ 53\<close>.\<close>

lemma fl_error: "\<bar>fl x - x\<bar> \<le> \<bar>x\<bar> / 2 ^ 53"
proof (cases "x = 0")
  case False
  define u where "u = pow2 (ulp_exp \<bar>x\<bar>)"
  have u: "0 < u" "\<bar>u\<bar> = u" by (simp_all add: u_def)
  have "fl x - x = (of_int (round_even (x / u)) - x / u) * u"
    using False u(1) by (simp add: fl_def Let_def u_def left_diff_distrib)
  then have "\<bar>fl x - x\<bar> = \<bar>of_int (round_even (x / u)) - x / u\<bar> * u" by (simp only: abs_mult u(2))
  also have "\<dots> \<le> 1 / 2 * u" using round_even_error by (rule mult_right_mono) (use u in simp)
  also have "\<dots> \<le> \<bar>x\<bar> / 2 ^ 53"
  proof -
    have "u * pow2 52 \<le> \<bar>x\<bar>" using ulp_exp_bounds[of "\<bar>x\<bar>"] False by (simp add: pow2_add u_def)
    then show ?thesis by (simp add: pow2_def field_simps)
  qed
  finally show ?thesis .
qed simp

text \<open>Rounding is monotone: within a binade by \<open>round_even\<close>, across binades through the power between.\<close>

lemma fl_pos_bounds:
  assumes "0 < x"
  shows "pow2 (ulp_exp x + 52) \<le> fl x \<and> fl x \<le> pow2 (ulp_exp x + 53)"
proof -
  let ?u = "pow2 (ulp_exp x)"
  have q: "of_int (2 ^ 52) \<le> x / ?u" "x / ?u \<le> of_int (2 ^ 53)"
    using ulp_exp_bounds[OF assms] by (simp_all add: pow2_add pow2_nonneg field_simps)
  then have "2 ^ 52 \<le> round_even (x / ?u)" "round_even (x / ?u) \<le> 2 ^ 53"
    using round_even_mono round_even_of_int by metis+
  then have "(of_int (2 ^ 52) :: rat) \<le> of_int (round_even (x / ?u))"
    "(of_int (round_even (x / ?u)) :: rat) \<le> of_int (2 ^ 53)"
    by (simp_all only: of_int_le_iff)
  then have "of_int (2 ^ 52) * ?u \<le> of_int (round_even (x / ?u)) * ?u"
    "of_int (round_even (x / ?u)) * ?u \<le> of_int (2 ^ 53) * ?u"
    by (simp_all only: mult_right_mono pow2_simps)
  moreover have "fl x = of_int (round_even (x / ?u)) * ?u"
    using assms by (simp add: fl_def Let_def)
  ultimately show ?thesis by (simp add: pow2_add pow2_nonneg mult.commute)
qed

lemma fl_pos: "0 < x \<Longrightarrow> 0 < fl x"
  using fl_pos_bounds[of x] pow2_pos[of "ulp_exp x + 52"] by linarith

lemma fl_mono_pos:
  assumes "0 < x" "x \<le> y"
  shows "fl x \<le> fl y"
proof -
  let ?e = "ulp_exp x" and ?f = "ulp_exp y"
  have y: "0 < y" using assms by linarith
  note bx = ulp_exp_bounds[OF assms(1)] and yb = ulp_exp_bounds[OF y]
  have "pow2 (?e + 52) < pow2 (?f + 53)" using bx yb assms(2) by linarith
  then have "?e \<le> ?f" using pow2_less_cancel by fastforce
  then consider "?e = ?f" | "?e + 53 \<le> ?f + 52" by linarith
  then show ?thesis
  proof cases
    case 1
    then have "x / pow2 ?e \<le> y / pow2 ?f" using assms(2) by (simp add: divide_right_mono)
    then have "round_even (x / pow2 ?e) \<le> round_even (y / pow2 ?f)" by (rule round_even_mono)
    with 1 assms y show ?thesis by (simp add: fl_def Let_def mult_right_mono)
  next
    case 2
    then have "pow2 (?e + 53) \<le> pow2 (?f + 52)"
      unfolding pow2_def by (intro power_int_increasing) simp_all
    then show ?thesis using fl_pos_bounds[OF assms(1)] fl_pos_bounds[OF y] by linarith
  qed
qed

section \<open>\<open>formatBytes\<close>\<close>

definition units :: "string list" where
  "units = [''B'', ''KB'', ''MB'', ''GB'', ''TB'']"

function scaleSize :: "rat \<Rightarrow> nat \<Rightarrow> rat \<times> nat" where
  "scaleSize amount unitIndex =
     (if 1024 \<le> amount \<and> unitIndex < 4 then scaleSize (fl (amount / 1024)) (unitIndex + 1)
      else (amount, unitIndex))"
  by pat_completeness auto

termination
  by (relation "measure (\<lambda>(amount, unitIndex). 4 - unitIndex)") auto

declare scaleSize.simps [simp del]

text \<open>\<open>std::fixed << std::setprecision(2)\<close>: the exact value of the double, rounded to hundredths.\<close>

definition fixed2 :: "rat \<Rightarrow> string" where
  "fixed2 x =
     (let n = nat (round_even (100 * x))
      in print_nat (n div 100) @ ''.'' @ [digit_char (n div 10 mod 10), digit_char (n mod 10)])"

definition formatBytes :: "u64 \<Rightarrow> string" where
  "formatBytes bytes =
     (let (amount, unitIndex) = scaleSize (fl (of_nat (unat bytes))) 0
      in if unitIndex = 0 then print_nat (unat bytes) @ '' '' @ units ! unitIndex
         else fixed2 amount @ '' '' @ units ! unitIndex)"

text \<open>The unit a size is shown in: the number of times 1024 fits, at most four.\<close>

fun unit_index :: "nat \<Rightarrow> nat" where
  "unit_index n =
     (if n < 1024 then 0 else if n < 1024 ^ 2 then 1 else if n < 1024 ^ 3 then 2
      else if n < 1024 ^ 4 then 3 else 4)"

lemma fl_quotient_1024: "n < 2 ^ 53 \<Longrightarrow> fl (of_nat n / 1024 ^ k) = of_nat n / 1024 ^ k"
proof -
  assume n: "n < 2 ^ 53"
  have "(1024::rat) ^ k = pow2 (int (10 * k))"
    by (simp add: pow2_def power_mult del: of_nat_mult)
  then have "of_nat n / (1024::rat) ^ k = of_nat n * pow2 (- int (10 * k))"
    using pow2_diff[of 0 "int (10 * k)"] by (simp add: pow2_def)
  then show ?thesis using fl_scale[of "of_nat n" "- int (10 * k)"] fl_of_nat[OF n] by simp
qed

lemma scaleSize_step:
  assumes "n < 2 ^ 53"
  shows "scaleSize (of_nat n / 1024 ^ k) k =
     (if 1024 ^ (k + 1) \<le> n \<and> k < 4 then scaleSize (of_nat n / 1024 ^ (k + 1)) (k + 1)
      else (of_nat n / 1024 ^ k, k))"
proof -
  have "1024 \<le> (of_nat n / 1024 ^ k :: rat) \<longleftrightarrow> (of_nat (1024 ^ (k + 1)) :: rat) \<le> of_nat n"
    by (simp add: field_simps)
  then have c: "1024 \<le> (of_nat n / 1024 ^ k :: rat) \<longleftrightarrow> 1024 ^ (k + 1) \<le> n"
    by (simp only: of_nat_le_iff)
  have d: "(of_nat n / 1024 ^ k) / 1024 = (of_nat n / 1024 ^ (k + 1) :: rat)" by simp
  show ?thesis by (subst scaleSize.simps) (simp only: c d fl_quotient_1024[OF assms])
qed

lemma scaleSize_unit:
  assumes "n < 2 ^ 53"
  shows "scaleSize (of_nat n) 0 = (of_nat n / 1024 ^ unit_index n, unit_index n)"
proof -
  define S where "S k = scaleSize (of_nat n / 1024 ^ k) k" for k
  have st: "S k = (if 1024 ^ (k + 1) \<le> n \<and> k < 4 then S (k + 1) else (of_nat n / 1024 ^ k, k))" for k
    unfolding S_def by (rule scaleSize_step[OF assms])
  have s: "S 0 = (if 1024 \<le> n then S 1 else (of_nat n / 1024 ^ 0, 0))"
    "S 1 = (if 1024 ^ 2 \<le> n then S 2 else (of_nat n / 1024 ^ 1, 1))"
    "S 2 = (if 1024 ^ 3 \<le> n then S 3 else (of_nat n / 1024 ^ 2, 2))"
    "S 3 = (if 1024 ^ 4 \<le> n then S 4 else (of_nat n / 1024 ^ 3, 3))"
    "S 4 = (of_nat n / 1024 ^ 4, 4)"
    using st[of 0] st[of 1, simplified one_add_one] st[of 2, simplified] st[of 3, simplified]
      st[of 4] by (simp_all only: power_one_right) simp_all
  have "S 0 = (of_nat n / 1024 ^ unit_index n, unit_index n)"
  proof -
    consider "n < 1024" | "1024 \<le> n" "n < 1024 ^ 2" | "1024 ^ 2 \<le> n" "n < 1024 ^ 3"
      | "1024 ^ 3 \<le> n" "n < 1024 ^ 4" | "1024 ^ 4 \<le> n"
      by linarith
    then show ?thesis by cases (simp_all add: s s[unfolded One_nat_def])
  qed
  then show ?thesis by (simp add: S_def)
qed

text \<open>
  C35: below \<open>2 ^ 53\<close> bytes the floating-point loop of \<open>formatBytes\<close> is exact: the text is the number
  of bytes, or the exact quotient by the power of 1024 of its unit rounded to hundredths, and that
  rounding is off by at most half a hundredth.
\<close>

theorem formatBytes_exact:
  assumes "n = unat bytes" "n < 2 ^ 53"
  shows "formatBytes bytes =
      (if n < 1024 then print_nat n else fixed2 (of_nat n / 1024 ^ unit_index n))
      @ '' '' @ units ! unit_index n \<and>
    \<bar>of_int (round_even (100 * (of_nat n / 1024 ^ unit_index n))) / 100 - of_nat n / 1024 ^ unit_index n\<bar>
      \<le> (1 / 200 :: rat)"
    (is "_ \<and> \<bar>of_int (round_even (100 * ?q)) / 100 - ?q\<bar> \<le> _")
proof
  have "unit_index n = 0 \<longleftrightarrow> n < 1024" by simp
  then show "formatBytes bytes =
      (if n < 1024 then print_nat n else fixed2 ?q) @ '' '' @ units ! unit_index n"
    unfolding formatBytes_def assms(1)[symmetric] fl_of_nat[OF assms(2)] scaleSize_unit[OF assms(2)]
    by (simp del: unit_index.simps)
  show "\<bar>of_int (round_even (100 * ?q)) / 100 - ?q\<bar> \<le> 1 / 200"
    using round_even_error[of "100 * ?q"] unfolding abs_le_iff by linarith
qed

text \<open>The last size below one megabyte is shown as \<open>1024.00 KB\<close>.\<close>

theorem formatBytes_exact_witness:
  "formatBytes 1048575 = ''1024.00 KB''"
proof -
  have "\<lfloor>26214375 / 256 :: rat\<rfloor> = 102399" by (simp add: floor_eq_iff)
  then have "round_even (26214375 / 256) = 102400" by (simp add: round_even_def)
  then show ?thesis
    using formatBytes_exact[of 1048575 1048575]
    by (simp add: fixed2_def print_nat.simps digit_char_def units_def char_of_eq_iff)
qed

section \<open>Clocks\<close>

text \<open>The clocks are read by the caller: seconds and microseconds, or a broken-down local time.\<close>

definition getCurrentTimeMs :: "int \<Rightarrow> int \<Rightarrow> int" where
  "getCurrentTimeMs tv_sec tv_usec = tv_sec * 1000 + tv_usec div 1000"

record tm =
  tm_year :: nat
  tm_mon :: nat
  tm_mday :: nat
  tm_hour :: nat
  tm_min :: nat
  tm_sec :: nat

definition pad :: "nat \<Rightarrow> nat \<Rightarrow> string" where
  "pad w n = replicate (w - length (print_nat n)) (CHR ''0'') @ print_nat n"

definition getFormattedTimestamp :: "tm \<Rightarrow> nat \<Rightarrow> string" where
  "getFormattedTimestamp t since_epoch_ms =
     print_nat (tm_year t) @ ''-'' @ pad 2 (tm_mon t) @ ''-'' @ pad 2 (tm_mday t) @ '' '' @
     pad 2 (tm_hour t) @ '':'' @ pad 2 (tm_min t) @ '':'' @ pad 2 (tm_sec t) @ ''.'' @
     pad 3 (since_epoch_ms mod 1000)"

text \<open>\<open>Timer\<close>: a start time of the steady clock, in nanoseconds.\<close>

definition elapsedMs :: "int \<Rightarrow> int \<Rightarrow> int" where
  "elapsedMs start now = (now - start) div 1000000"

definition elapsedSeconds :: "int \<Rightarrow> int \<Rightarrow> rat" where
  "elapsedSeconds start now = fl (of_int (elapsedMs start now) / 1000)"

end
