(* ===== verification/Metrics.thy ===== *)
theory Metrics
  imports Doubles
begin

text \<open>
  \<open>include/common/metrics.h\<close> and \<open>src/common/metrics.cpp\<close>: the counters and latency statistics of
  the process. The singleton is a record the server state carries. A counter is a 64-bit word, the
  atomic increments are single steps, and the maps are finite maps from names. The draws of the
  random generator and the readings of the clocks are arguments.
\<close>

section \<open>Counters by name, as an interface\<close>

text \<open>
  What a map of counters promises: a fresh map reads zero, and bumping a key adds one to that key
  only. The count of a key after any sequence of bumps follows.
\<close>

locale counters =
  fixes get :: "'m \<Rightarrow> 'k \<Rightarrow> u64" and bump :: "'k \<Rightarrow> 'm \<Rightarrow> 'm"
  assumes get_bump: "get (bump k m) j = get m j + (if j = k then 1 else 0)"
begin

lemma get_bumps: "get (fold bump ks m) j = get m j + of_nat (count_list ks j)"
  by (induction ks arbitrary: m) (auto simp: get_bump)

lemma get_bumps_absent: "j \<notin> set ks \<Longrightarrow> get (fold bump ks m) j = get m j"
  by (simp add: get_bumps count_list_0_iff)

lemma get_bumps_swap: "get (bump k (bump k' m)) = get (bump k' (bump k m))"
  by (rule ext) (simp add: get_bump)

end

section \<open>State\<close>

text \<open>\<open>LatencyStats\<close>.\<close>

record latency_stats =
  l_count :: u64
  l_sum :: rat
  l_max :: rat
  l_samples :: "rat list"

definition LatencyStats :: latency_stats where
  "LatencyStats = \<lparr>l_count = 0, l_sum = 0, l_max = 0, l_samples = []\<rparr>"

definition MAX_SAMPLES :: nat where
  "MAX_SAMPLES = 1000"

text \<open>The start times are seconds of the steady and of the system clock (as nanoseconds and seconds).\<close>

record metrics =
  requestCounts :: "string \<rightharpoonup> u64"
  errorCounts :: "string \<rightharpoonup> u64"
  bytesReceived :: u64
  bytesSent :: u64
  sendSessions :: u64
  sendFailures :: u64
  latencyStats :: "string \<rightharpoonup> latency_stats"
  httpRequests :: u64
  startTime :: int
  startTimeSystem :: int

definition Metrics :: "int \<Rightarrow> int \<Rightarrow> metrics" where
  "Metrics steady_now system_now =
     \<lparr>requestCounts = Map.empty, errorCounts = Map.empty, bytesReceived = 0, bytesSent = 0,
      sendSessions = 0, sendFailures = 0, latencyStats = Map.empty, httpRequests = 0,
      startTime = steady_now, startTimeSystem = system_now\<rparr>"

section \<open>Request metrics\<close>

text \<open>The counter of a key, created at zero when absent, incremented by \<open>fetch_add\<close>.\<close>

definition getOrCreateCounter :: "(string \<rightharpoonup> u64) \<Rightarrow> string \<Rightarrow> u64 \<times> (string \<rightharpoonup> u64)" where
  "getOrCreateCounter m key =
     (case m key of None \<Rightarrow> (0, m(key \<mapsto> 0)) | Some n \<Rightarrow> (n, m))"

definition increment :: "string \<Rightarrow> (string \<rightharpoonup> u64) \<Rightarrow> (string \<rightharpoonup> u64)" where
  "increment key m = (case getOrCreateCounter m key of (n, m') \<Rightarrow> m'(key \<mapsto> n + 1))"

definition recordRequest :: "string \<Rightarrow> metrics \<Rightarrow> metrics" where
  "recordRequest cmd m = m\<lparr>requestCounts := increment cmd (requestCounts m)\<rparr>"

definition recordError :: "string \<Rightarrow> string \<Rightarrow> metrics \<Rightarrow> metrics" where
  "recordError cmd errorCode m =
     (let key = cmd @ '':'' @ errorCode
      in m\<lparr>errorCounts := increment cmd (increment key (errorCounts m))\<rparr>)"

definition getRequestCount :: "metrics \<Rightarrow> string \<Rightarrow> u64" where
  "getRequestCount m cmd = (case requestCounts m cmd of Some n \<Rightarrow> n | None \<Rightarrow> 0)"

definition getErrorCount :: "metrics \<Rightarrow> string \<Rightarrow> u64" where
  "getErrorCount m cmd = (case errorCounts m cmd of Some n \<Rightarrow> n | None \<Rightarrow> 0)"

definition getAllRequestCounts :: "metrics \<Rightarrow> (string \<rightharpoonup> u64)" where
  "getAllRequestCounts m = requestCounts m"

definition getAllErrorCounts :: "metrics \<Rightarrow> (string \<rightharpoonup> u64)" where
  "getAllErrorCounts m = errorCounts m"

section \<open>Transfer metrics\<close>

definition recordBytesReceived :: "u64 \<Rightarrow> metrics \<Rightarrow> metrics" where
  "recordBytesReceived bytes m = m\<lparr>bytesReceived := bytesReceived m + bytes\<rparr>"

definition recordBytesSent :: "u64 \<Rightarrow> metrics \<Rightarrow> metrics" where
  "recordBytesSent bytes m = m\<lparr>bytesSent := bytesSent m + bytes\<rparr>"

definition recordSendSession :: "metrics \<Rightarrow> metrics" where
  "recordSendSession m = m\<lparr>sendSessions := sendSessions m + 1\<rparr>"

definition recordSendFailure :: "metrics \<Rightarrow> metrics" where
  "recordSendFailure m = m\<lparr>sendFailures := sendFailures m + 1\<rparr>"

section \<open>Latency metrics\<close>

definition getOrCreateLatencyStats :: "metrics \<Rightarrow> string \<Rightarrow> latency_stats" where
  "getOrCreateLatencyStats m cmd =
     (case latencyStats m cmd of None \<Rightarrow> LatencyStats | Some stats \<Rightarrow> stats)"

text \<open>
  \<open>addLatency\<close> is one call of \<open>recordLatency\<close> on the statistics of its command; \<open>draw\<close> is what
  the uniform distribution on \<open>0..count - 1\<close> returns, used once the reservoir is full.
\<close>

definition addLatency :: "rat \<Rightarrow> nat \<Rightarrow> latency_stats \<Rightarrow> latency_stats" where
  "addLatency latencyMs draw stats =
     stats\<lparr>l_count := l_count stats + 1,
       l_sum := fl (l_sum stats + latencyMs),
       l_max := (if latencyMs > l_max stats then latencyMs else l_max stats),
       l_samples :=
         (if length (l_samples stats) < MAX_SAMPLES then l_samples stats @ [latencyMs]
          else if draw < MAX_SAMPLES then (l_samples stats)[draw := latencyMs]
          else l_samples stats)\<rparr>"

definition recordLatency :: "string \<Rightarrow> rat \<Rightarrow> nat \<Rightarrow> metrics \<Rightarrow> metrics" where
  "recordLatency cmd latencyMs draw m =
     m\<lparr>latencyStats :=
       (latencyStats m)(cmd \<mapsto> addLatency latencyMs draw (getOrCreateLatencyStats m cmd))\<rparr>"

text \<open>\<open>ScopedTimer\<close>: the destructor of a timer that was not moved from records its lifetime.\<close>

record scoped_timer =
  t_cmd :: string
  t_start :: int
  t_moved :: bool

definition startTimer :: "string \<Rightarrow> int \<Rightarrow> scoped_timer" where
  "startTimer cmd now = \<lparr>t_cmd = cmd, t_start = now, t_moved = False\<rparr>"

definition moveTimer :: "scoped_timer \<Rightarrow> scoped_timer \<times> scoped_timer" where
  "moveTimer other = (\<lparr>t_cmd = t_cmd other, t_start = t_start other, t_moved = False\<rparr>,
     other\<lparr>t_cmd := [], t_moved := True\<rparr>)"

definition endTimer :: "scoped_timer \<Rightarrow> int \<Rightarrow> nat \<Rightarrow> metrics \<Rightarrow> metrics" where
  "endTimer t now draw m =
     (if t_moved t then m
      else recordLatency (t_cmd t) (fl (of_int (now - t_start t) / 1000000)) draw m)"

definition getAverageLatency :: "metrics \<Rightarrow> string \<Rightarrow> rat" where
  "getAverageLatency m cmd =
     (case latencyStats m cmd of
        None \<Rightarrow> 0
      | Some stats \<Rightarrow>
          if 0 < l_count stats then fl (l_sum stats / fl (of_nat (unat (l_count stats)))) else 0)"

definition getMaxLatency :: "metrics \<Rightarrow> string \<Rightarrow> rat" where
  "getMaxLatency m cmd =
     (case latencyStats m cmd of None \<Rightarrow> 0 | Some stats \<Rightarrow> l_max stats)"

text \<open>
  The index is a \<open>size_t\<close>: subtracting one from zero wraps. \<open>None\<close> is the undefined conversion of
  a double outside the range of the type.
\<close>

definition percentileIndex :: "rat \<Rightarrow> nat \<Rightarrow> nat option" where
  "percentileIndex percentile n =
     (let c = \<lceil>fl (fl (percentile / 100) * of_nat n)\<rceil>
      in if c < 0 \<or> 2 ^ 64 \<le> c then None
         else let idx = unat (of_int c - 1 :: u64) in Some (min idx (n - 1)))"

definition getLatencyPercentile :: "metrics \<Rightarrow> string \<Rightarrow> rat \<Rightarrow> rat option" where
  "getLatencyPercentile m cmd percentile =
     (case latencyStats m cmd of
        None \<Rightarrow> Some 0
      | Some stats \<Rightarrow>
          if l_samples stats = [] then Some 0
          else map_option (\<lambda>idx. sort (l_samples stats) ! idx)
                 (percentileIndex percentile (length (l_samples stats))))"

section \<open>HTTP and system metrics\<close>

definition recordHttpRequest :: "string \<Rightarrow> string \<Rightarrow> metrics \<Rightarrow> metrics" where
  "recordHttpRequest endpoint method m =
     (let key = method @ '':'' @ endpoint
      in m\<lparr>httpRequests := httpRequests m + 1, requestCounts := increment key (requestCounts m)\<rparr>)"

definition getUptimeSeconds :: "metrics \<Rightarrow> int \<Rightarrow> u64" where
  "getUptimeSeconds m steady_now = of_int ((steady_now - startTime m) div 1000000000)"

definition getStartTime :: "metrics \<Rightarrow> u64" where
  "getStartTime m = of_int (startTimeSystem m)"

definition reset :: "int \<Rightarrow> int \<Rightarrow> metrics \<Rightarrow> metrics" where
  "reset steady_now system_now m =
     m\<lparr>requestCounts := map_option (\<lambda>n. 0) \<circ> requestCounts m,
       errorCounts := map_option (\<lambda>n. 0) \<circ> errorCounts m,
       bytesReceived := 0, bytesSent := 0, sendSessions := 0, sendFailures := 0,
       httpRequests := 0,
       latencyStats := map_option
         (\<lambda>stats. stats\<lparr>l_count := 0, l_sum := 0, l_max := 0, l_samples := []\<rparr>) \<circ> latencyStats m,
       startTime := steady_now, startTimeSystem := system_now\<rparr>"

section \<open>The model's counters\<close>

lemma increment_apply: "increment k m j = (if j = k then Some ((case m k of Some n \<Rightarrow> n | None \<Rightarrow> 0) + 1) else m j)"
  by (simp add: increment_def getOrCreateCounter_def split: option.splits)

interpretation requests: counters getRequestCount recordRequest
  by unfold_locales
    (auto simp: getRequestCount_def recordRequest_def increment_apply split: option.splits)

interpretation errors: counters "\<lambda>m j. case m j of Some n \<Rightarrow> n | None \<Rightarrow> (0 :: u64)" increment
  by unfold_locales (auto simp: increment_apply split: option.splits)

text \<open>
  The request counter of a command is the number of times it was recorded since the start,
  modulo \<open>2 ^ 64\<close>; requests of other commands do not disturb it.
\<close>

theorem requests_counted:
  "getRequestCount (fold recordRequest cmds (Metrics s0 t0)) cmd = of_nat (count_list cmds cmd)"
proof -
  have "getRequestCount (Metrics s0 t0) cmd = 0" by (simp add: getRequestCount_def Metrics_def)
  then show ?thesis by (simp add: requests.get_bumps)
qed

definition error_keys :: "(string \<times> string) list \<Rightarrow> string list" where
  "error_keys es = concat (map (\<lambda>(cmd, code). [cmd @ '':'' @ code, cmd]) es)"

lemma recordErrors_bumps:
  "errorCounts (fold (\<lambda>(cmd, code). recordError cmd code) es m) =
     fold increment (error_keys es) (errorCounts m)"
  by (induction es arbitrary: m) (auto simp: error_keys_def recordError_def)

lemma count_error_keys_cmd:
  "CHR '':'' \<notin> set cmd \<Longrightarrow>
     count_list (error_keys es) cmd = length (filter (\<lambda>(c, code). c = cmd) es)"
  by (induction es) (auto simp: error_keys_def)

lemma colon_key_inject:
  "CHR '':'' \<notin> set c \<Longrightarrow> CHR '':'' \<notin> set c' \<Longrightarrow>
     c @ '':'' @ e = c' @ '':'' @ e' \<longleftrightarrow> c = c' \<and> e = e'"
proof (induction c arbitrary: c')
  case Nil
  then show ?case by (cases c') auto
next
  case (Cons x c)
  then show ?case by (cases c') auto
qed

lemma count_error_keys_pair:
  "CHR '':'' \<notin> set cmd \<Longrightarrow> \<forall>(c, e) \<in> set es. CHR '':'' \<notin> set c \<Longrightarrow>
     count_list (error_keys es) (cmd @ '':'' @ code) = count_list es (cmd, code)"
proof (induction es)
  case (Cons x es)
  obtain c e where x: "x = (c, e)" by (cases x)
  with Cons.prems have "CHR '':'' \<notin> set c" by simp
  then have "c \<noteq> cmd @ '':'' @ code" by auto
  then show ?case
    using Cons colon_key_inject[OF \<open>CHR '':'' \<notin> set c\<close> Cons.prems(1)] x
    by (auto simp: error_keys_def)
qed (simp add: error_keys_def)

text \<open>
  Error accounting. For commands without a colon in their name, the counter of a command is the
  number of its failures, and the counter of \<open>command:code\<close> the number of its failures with that
  code.
\<close>

theorem errors_counted:
  assumes "CHR '':'' \<notin> set cmd" "\<forall>(c, e) \<in> set es. CHR '':'' \<notin> set c"
    and "m = fold (\<lambda>(c, e). recordError c e) es (Metrics s0 t0)"
  shows "getErrorCount m cmd = of_nat (length (filter (\<lambda>(c, e). c = cmd) es)) \<and>
    getErrorCount m (cmd @ '':'' @ code) = of_nat (count_list es (cmd, code))"
proof -
  have "getErrorCount m j = of_nat (count_list (error_keys es) j)" for j
    using errors.get_bumps[of "error_keys es" "errorCounts (Metrics s0 t0)" j]
    by (simp add: assms(3) getErrorCount_def recordErrors_bumps Metrics_def)
  then show ?thesis
    using count_error_keys_cmd[OF assms(1)] count_error_keys_pair[OF assms(1,2)] by simp
qed

theorem errors_counted_witness:
  "getErrorCount (fold (\<lambda>(c, e). recordError c e)
       [(''CMD_SEND'', ''TIMEOUT''), (''CMD_LS'', ''TIMEOUT''), (''CMD_SEND'', ''TIMEOUT'')]
       (Metrics 0 0)) ''CMD_SEND'' = 2"
  using errors_counted[of "''CMD_SEND''"
      "[(''CMD_SEND'', ''TIMEOUT''), (''CMD_LS'', ''TIMEOUT''), (''CMD_SEND'', ''TIMEOUT'')]" _ 0 0, OF _ _ refl]
  by simp

section \<open>Latency statistics\<close>

definition addLatencies :: "(rat \<times> nat) list \<Rightarrow> latency_stats \<Rightarrow> latency_stats" where
  "addLatencies ls = fold (\<lambda>(x, draw). addLatency x draw) ls"

definition stats_ok :: "rat list \<Rightarrow> latency_stats \<Rightarrow> bool" where
  "stats_ok xs stats \<longleftrightarrow>
     l_count stats = of_nat (length xs) \<and>
     l_max stats = fold max xs 0 \<and>
     length (l_samples stats) = min (length xs) MAX_SAMPLES \<and>
     set (l_samples stats) \<subseteq> set xs"

lemma stats_ok_add: "stats_ok xs stats \<Longrightarrow> stats_ok (xs @ [x]) (addLatency x draw stats)"
  using set_update_subset_insert[of "l_samples stats" draw x]
  by (auto simp: stats_ok_def addLatency_def MAX_SAMPLES_def max_def)

lemma stats_ok_adds:
  "stats_ok xs stats \<Longrightarrow> stats_ok (xs @ map fst ls) (addLatencies ls stats)"
proof (induction ls arbitrary: xs stats)
  case (Cons p ls)
  obtain x d where p: "p = (x, d)" by (cases p)
  from Cons.IH[OF stats_ok_add[OF Cons.prems, of x d]] p show ?case by (simp add: addLatencies_def)
qed (simp add: addLatencies_def)

lemma recordLatency_stats:
  "latencyStats (fold (\<lambda>(x, draw). recordLatency cmd x draw) ls m) cmd =
     (if ls = [] then latencyStats m cmd
      else Some (addLatencies ls (getOrCreateLatencyStats m cmd)))"
  by (induction ls arbitrary: m) (auto simp: addLatencies_def recordLatency_def getOrCreateLatencyStats_def)

text \<open>
  C34: after any latencies were recorded for a command, whatever the random draws of the reservoir
  were, the maximum is the largest of them (or 0), the sample buffer holds at most 1000 recorded
  values and holds one for every call while there were at most 1000, and the count is exact.
\<close>

theorem latency_statistics:
  assumes "ls \<noteq> []"
  shows "\<exists>stats. latencyStats (fold (\<lambda>(x, draw). recordLatency cmd x draw) ls (Metrics s0 t0)) cmd = Some stats \<and>
     stats_ok (map fst ls) stats \<and>
     getMaxLatency (fold (\<lambda>(x, draw). recordLatency cmd x draw) ls (Metrics s0 t0)) cmd = fold max (map fst ls) 0"
proof -
  have "stats_ok [] LatencyStats" by (simp add: stats_ok_def LatencyStats_def)
  from stats_ok_adds[OF this, of ls] have ok: "stats_ok (map fst ls) (addLatencies ls LatencyStats)" by simp
  moreover have "latencyStats (fold (\<lambda>(x, draw). recordLatency cmd x draw) ls (Metrics s0 t0)) cmd =
      Some (addLatencies ls LatencyStats)"
    using assms by (simp add: recordLatency_stats getOrCreateLatencyStats_def Metrics_def)
  ultimately show ?thesis by (simp add: getMaxLatency_def stats_ok_def)
qed

theorem latency_statistics_witness:
  "getMaxLatency (fold (\<lambda>(x, draw). recordLatency ''ls'' x draw) [(3, 0), (7, 1), (5, 0)] (Metrics 0 0)) ''ls'' = 7"
  using latency_statistics[of "[(3, 0), (7, 1), (5, 0)]" "''ls''" 0 0] by auto

section \<open>Percentiles\<close>

lemma unat_pred_u64:
  assumes "0 < c" "c < 2 ^ 64"
  shows "unat (of_int c - 1 :: u64) = nat (c - 1)"
proof -
  obtain k where k: "c = int k + 1" using assms(1) by (metis add.commute zle_iff_zadd zless_iff_Suc_zadd int_one_le_iff_zero_less)
  then have "(of_int c - 1 :: u64) = of_nat k" "k < 2 ^ 64" using assms(2) by simp_all
  then show ?thesis using k by (simp add: unat_of_nat)
qed

lemma min_pred: "0 < c \<Longrightarrow> c \<le> int n \<Longrightarrow> min (nat (c - 1)) (n - 1) = nat c - 1"
  by (simp add: min_def) arith

lemma percentileIndex_pos:
  assumes p: "0 < p" "p \<le> 100" and n: "0 < n" "n < 2 ^ 53"
  shows "percentileIndex p n = Some (nat \<lceil>fl (fl (p / 100) * of_nat n)\<rceil> - 1)"
    and "nat \<lceil>fl (fl (p / 100) * of_nat n)\<rceil> \<le> n" "0 < \<lceil>fl (fl (p / 100) * of_nat n)\<rceil>"
proof -
  let ?x = "fl (fl (p / 100) * of_nat n)" and ?c = "\<lceil>fl (fl (p / 100) * of_nat n)\<rceil>"
  have "fl (p / 100) \<le> fl 1" by (rule fl_mono_pos) (use p in simp_all)
  then have f1: "fl (p / 100) \<le> 1" using fl_of_nat[of 1] by simp
  have f0: "0 < fl (p / 100) * of_nat n" using p n fl_pos[of "p / 100"] by simp
  have "fl (p / 100) * of_nat n \<le> of_nat n" using mult_right_mono[OF f1, of "of_nat n"] by simp
  then have "?x \<le> of_nat n" using fl_mono_pos[OF f0] fl_of_nat[OF n(2)] by metis
  then have le: "?c \<le> int n" by (simp add: ceiling_le_iff)
  show c0: "0 < ?c" using fl_pos[OF f0] by simp
  show "nat ?c \<le> n" using le by simp
  have "int n < int (2 ^ 53)" using n(2) by (simp only: of_nat_less_iff)
  then have "int n < 2 ^ 64" by simp
  with le have lt: "?c < 2 ^ 64" by (rule order.strict_trans1)
  note unat_pred_u64[OF c0 lt]
  moreover have "min (nat (?c - 1)) (n - 1) = nat ?c - 1" using c0 le by (rule min_pred)
  moreover have "\<not> ?c < 0" "\<not> 2 ^ 64 \<le> ?c" using c0 lt by linarith+
  ultimately show "percentileIndex p n = Some (nat ?c - 1)"
    unfolding percentileIndex_def Let_def by (simp only: if_False de_Morgan_disj simp_thms)
qed

lemma last_sorted_is_Max: "xs \<noteq> [] \<Longrightarrow> sort xs ! (length xs - 1) = Max (set (xs :: rat list))"
proof -
  assume xs: "xs \<noteq> []"
  show ?thesis
  proof (rule Max_eqI[symmetric])
    show "sort xs ! (length xs - 1) \<in> set xs"
      using nth_mem[of "length xs - 1" "sort xs"] xs by simp
    fix y assume "y \<in> set xs"
    then obtain i where "i < length xs" "y = sort xs ! i"
      by (metis in_set_conv_nth length_sort set_sort)
    then show "y \<le> sort xs ! (length xs - 1)" by (simp add: sorted_nth_mono)
  qed simp
qed

text \<open>
  For percentiles in \<open>(0, 100]\<close> the rounding errors of the index computation never leave the
  sample buffer: the result is one of the samples, it grows with the percentile, and the 100th is
  the maximum of the samples.
\<close>

theorem percentile_monotone:
  assumes "latencyStats m cmd = Some stats" "l_samples stats \<noteq> []" "length (l_samples stats) \<le> MAX_SAMPLES"
    and "0 < p" "p \<le> q" "q \<le> 100"
  shows "\<exists>x y. getLatencyPercentile m cmd p = Some x \<and> getLatencyPercentile m cmd q = Some y \<and>
     x \<in> set (l_samples stats) \<and> x \<le> y \<and>
     getLatencyPercentile m cmd 100 = Some (Max (set (l_samples stats)))"
proof -
  let ?xs = "sort (l_samples stats)" and ?n = "length (l_samples stats)"
  let ?i = "\<lambda>r. nat \<lceil>fl (fl (r / 100) * of_nat ?n)\<rceil> - 1"
  have n: "0 < ?n" "?n < 2 ^ 53" using assms(2,3) by (simp_all add: MAX_SAMPLES_def)
  have get: "getLatencyPercentile m cmd r = Some (?xs ! ?i r)" "?i r < ?n" if "0 < r" "r \<le> 100" for r
    using percentileIndex_pos[OF that n] assms(1,2) n(1)
    by (simp_all add: getLatencyPercentile_def Suc_le_eq[symmetric])
  have "fl (p / 100) \<le> fl (q / 100)" by (rule fl_mono_pos) (use assms in simp_all)
  then have "fl (fl (p / 100) * of_nat ?n) \<le> fl (fl (q / 100) * of_nat ?n)"
    using assms(4) n(1) fl_pos[of "p / 100"] by (intro fl_mono_pos) (simp_all add: mult_right_mono)
  then have "?i p \<le> ?i q" by (intro diff_le_mono nat_mono ceiling_mono)
  then have xy: "?xs ! ?i p \<le> ?xs ! ?i q" using get(2)[of q] assms by (intro sorted_nth_mono) simp_all
  have "?xs ! ?i p \<in> set (l_samples stats)" using get(2)[of p] assms nth_mem[of "?i p" ?xs] by simp
  moreover have "getLatencyPercentile m cmd 100 = Some (Max (set (l_samples stats)))"
  proof -
    have "fl 1 = 1" using fl_of_nat[of 1] by simp
    then have "?i 100 = ?n - 1" using fl_of_nat[OF n(2)] by simp
    then show ?thesis
      using get(1)[of 100] last_sorted_is_Max[OF assms(2)] by simp
  qed
  ultimately show ?thesis using get(1)[of p] get(1)[of q] xy assms by auto
qed

text \<open>
  Percentile 0 is the maximum and not the minimum: the \<open>size_t\<close> index wraps around to its
  largest value, which \<open>std::min\<close> then cuts to the last sample.
\<close>

theorem percentile_zero_is_max:
  assumes "latencyStats m cmd = Some stats" "l_samples stats \<noteq> []" "length (l_samples stats) < 2 ^ 53"
  shows "getLatencyPercentile m cmd 0 = Some (Max (set (l_samples stats)))"
proof -
  let ?xs = "sort (l_samples stats)" and ?n = "length (l_samples stats)"
  have "percentileIndex 0 ?n = Some (?n - 1)"
    using assms(3) by (simp add: percentileIndex_def unsigned_minus_1_eq_mask mask_eq_exp_minus_1)
  then have "getLatencyPercentile m cmd 0 = Some (?xs ! (?n - 1))"
    using assms(1,2) by (simp add: getLatencyPercentile_def)
  then show ?thesis using last_sorted_is_Max[OF assms(2)] by simp
qed

definition three_samples :: metrics where
  "three_samples = recordLatency ''ls'' 5 0 (recordLatency ''ls'' 9 0 (recordLatency ''ls'' 2 0 (Metrics 0 0)))"

lemma three_samples_stats:
  "latencyStats three_samples ''ls'' = Some (addLatency 5 0 (addLatency 9 0 (addLatency 2 0 LatencyStats)))"
  "l_samples (addLatency 5 0 (addLatency 9 0 (addLatency 2 0 LatencyStats))) = [2, 9, 5]"
  by (simp_all add: three_samples_def recordLatency_def getOrCreateLatencyStats_def Metrics_def
      addLatency_def LatencyStats_def MAX_SAMPLES_def)

theorem percentile_monotone_witness:
  "\<exists>x y. getLatencyPercentile three_samples ''ls'' 50 = Some x \<and>
     getLatencyPercentile three_samples ''ls'' 95 = Some y \<and> x \<le> y"
  using percentile_monotone[OF three_samples_stats(1), of 50 95] three_samples_stats(2)
  by (auto simp: MAX_SAMPLES_def)

theorem percentile_zero_is_max_witness:
  "getLatencyPercentile three_samples ''ls'' 0 = Some 9"
  using percentile_zero_is_max[OF three_samples_stats(1)] three_samples_stats(2) by simp

end
