(* ===== verification/Server.thy ===== *)
theory Server
  imports Error_Codes Backup_Store Http_Life Metrics
begin

text \<open>
  \<open>include/server/server.h\<close> and \<open>src/server/server.cpp\<close>: the server object, its command handlers
  and its main loop. A handler takes the server and returns its error code and the server after
  it; \<open>None\<close> is a run that does not come back (undefined behaviour or a call that blocks for
  ever). The parameter \<open>clientAddr\<close> of the handlers is a reference to \<open>currentClientAddr_\<close>, which
  every receive overwrites, so it is read from the state at each use. Console and log output are
  not modelled; \<open>LOG_CMD\<close> hands the file name to the logging library.
\<close>

section \<open>State\<close>

datatype ServerState =
    WAITING | PROCESS_LS | PROCESS_SEND | PROCESS_GET | PROCESS_REMOVE | PROCESS_RENAME | SHUTDOWN

record server_config =
  udpPort :: u16
  tcpPort :: u16
  httpPort :: u16
  backupDir :: string
  staticDir :: string
  recvTimeoutMs :: nat
  maxFileSize :: u64
  enableHandshake :: bool
  enableHttpServer :: bool

definition ServerConfig :: server_config where
  "ServerConfig =
     \<lparr>udpPort = 0, tcpPort = 40000, httpPort = 8080, backupDir = ''backup'', staticDir = ''static'',
      recvTimeoutMs = 5000, maxFileSize = 100 * 1024 * 1024, enableHandshake = True,
      enableHttpServer = True\<rparr>"

text \<open>
  \<open>sessions\<close> are the TCP connections to come; \<open>stop_at\<close> is the time at which another thread (the
  signal handler) calls \<open>requestShutdown\<close>, if one does. \<open>httpServer\<close> is the management server's thread;
  \<open>initialize\<close> creates it when it is enabled.
\<close>

record server =
  config :: server_config
  actualUdpPort :: u16
  currentTcpPort :: u16
  currentClientAddr :: addr
  running :: bool
  shutdownRequested :: bool
  state :: ServerState
  metrics_of :: metrics
  os :: os
  sessions :: "tcp_session list"
  stop_at :: "nat option"
  httpServer :: "http_life option"

definition Server :: "server_config \<Rightarrow> metrics \<Rightarrow> os \<Rightarrow> tcp_session list \<Rightarrow> nat option \<Rightarrow> server" where
  "Server cfg m w tcp stop =
     \<lparr>config = cfg, actualUdpPort = 0, currentTcpPort = tcpPort cfg, currentClientAddr = (0, 0),
      running = False, shutdownRequested = False, state = WAITING, metrics_of = m, os = w,
      sessions = tcp, stop_at = stop, httpServer = None\<rparr>"

definition requestShutdown :: "server \<Rightarrow> server" where
  "requestShutdown s = s\<lparr>shutdownRequested := True\<rparr>"

definition files :: "server \<Rightarrow> filesystem" where
  "files s = fs (os s)"

definition set_files :: "filesystem \<Rightarrow> server \<Rightarrow> server" where
  "set_files f s = s\<lparr>os := (os s)\<lparr>fs := f\<rparr>\<rparr>"

section \<open>Sending and receiving\<close>

definition sendResponse :: "cmd_msg \<Rightarrow> server \<Rightarrow> ErrorCode \<times> server" where
  "sendResponse response s =
     (case send_to (currentClientAddr s) (encode_cmd (endian (os s)) response) (os s) of
        (sent, w) \<Rightarrow> (if sent then SUCCESS else SOCKET_SEND_ERROR, s\<lparr>os := w\<rparr>))"

definition sendDataResponse :: "string \<Rightarrow> server \<Rightarrow> ErrorCode \<times> server" where
  "sendDataResponse data s =
     (case send_to (currentClientAddr s) data (os s) of
        (sent, w) \<Rightarrow> (if sent then SUCCESS else SOCKET_SEND_ERROR, s\<lparr>os := w\<rparr>))"

text \<open>A fresh \<open>CmdMsg\<close> with a command and an error number.\<close>

definition reply :: "Command \<Rightarrow> u16 \<Rightarrow> cmd_msg" where
  "reply c e = (setCommand c CmdMsg)\<lparr>m_error := e\<rparr>"

text \<open>
  \<open>recvfrom\<close> into a zeroed buffer of \<open>n\<close> bytes with \<open>&currentClientAddr_\<close> as the address: \<open>None\<close>
  is a result \<open>recvLen <= 0\<close>. An empty datagram gives \<open>recvLen = 0\<close>, and still sets the address.
\<close>

definition receive :: "nat \<Rightarrow> server \<Rightarrow> (string option \<times> server) option" where
  "receive n s =
     map_option (\<lambda>(r, w).
       case r of
         None \<Rightarrow> (None, s\<lparr>os := w\<rparr>)
       | Some (a, d) \<Rightarrow>
           (if d = [] then None else Some (overlay (zeros n) d),
            s\<lparr>os := w, currentClientAddr := a\<rparr>))
       (recvfrom n (os s))"

text \<open>\<open>setsockopt(SO_RCVTIMEO)\<close> with the configured timeout.\<close>

definition setTimeout :: "server \<Rightarrow> server" where
  "setTimeout s = s\<lparr>os := set_rcvtimeo (recvTimeoutMs (config s)) (os s)\<rparr>"

section \<open>LS\<close>

fun packNames :: "string list \<Rightarrow> nat \<Rightarrow> string \<Rightarrow> string" where
  "packNames [] offset data = data"
| "packNames (filename # rest) offset data =
     (if offset + length filename + 1 < DATA_BUF_LEN
      then packNames rest (offset + length filename + 1)
             (write_at offset (c_str filename @ [NUL]) data)
      else packNames rest offset data)"

definition handleLs :: "server \<Rightarrow> (ErrorCode \<times> server) option" where
  "handleLs s =
     (let files = listDirectory (backupDir (config s)) (files s)
      in Some (sendDataResponse (packNames files 0 DataMsg) s))"

section \<open>SEND\<close>

definition receiveSmallFile :: "string \<Rightarrow> nat \<Rightarrow> server \<Rightarrow> (ErrorCode \<times> server) option" where
  "receiveSmallFile filepath filesize s = do {
     let s = setTimeout (snd (sendResponse (reply ACK 0) s));
     (msg, s) \<leftarrow> receive DATA_BUF_LEN s;
     case msg of
       None \<Rightarrow> Some (SOCKET_RECV_ERROR, snd (sendResponse (reply ACK 1) s))
     | Some data \<Rightarrow>
         (case write_file filepath (take filesize data) (files s) of
            None \<Rightarrow> Some (FILE_OPEN_ERROR, snd (sendResponse (reply ACK 1) s))
          | Some f \<Rightarrow>
              let s = set_files f s;
                  s = s\<lparr>metrics_of :=
                    recordSendSession (recordBytesReceived (of_nat filesize) (metrics_of s))\<rparr>
              in Some (sendResponse (reply ACK 0) s))
   }"

text \<open>
  The receive loop: what was written to the file and \<open>totalBytes\<close>, which is its length. The loop
  ends when enough bytes have come or \<open>recv\<close> returns 0 or an error.
\<close>

function recvLoop :: "nat \<Rightarrow> string list \<Rightarrow> tcp_end \<Rightarrow> string \<Rightarrow> string option" where
  "recvLoop filesize segments e written =
     (if length written < filesize
      then (case recv 3000 segments e of
              None \<Rightarrow> None
            | Some (buffer, rest) \<Rightarrow>
                if buffer = [] then Some written
                else recvLoop filesize rest e (written @ buffer))
      else Some written)"
  by pat_completeness auto

termination
  by (relation "measure (\<lambda>(filesize, segments, e, written). filesize - length written)")
    (auto simp: neq_Nil_conv)

declare recvLoop.simps [simp del]

text \<open>
  The file is opened before the loop and closed after it; its content when it is closed is what
  was written. A run in which the peer falls silent never closes it and does not return.
\<close>

definition nextSession :: "server \<Rightarrow> tcp_session \<times> server" where
  "nextSession s =
     (case sessions s of
        [] \<Rightarrow> (NobodyConnects, s)
      | c # cs \<Rightarrow> (c, s\<lparr>sessions := cs\<rparr>))"

definition receiveLargeFile :: "string \<Rightarrow> nat \<Rightarrow> server \<Rightarrow> (ErrorCode \<times> server) option" where
  "receiveLargeFile filepath filesize s = do {
     let (session, s) = nextSession s;
     let ackMsg = (reply ACK 0)\<lparr>m_size := ucast (currentTcpPort s)\<rparr>;
     case session of
       SocketFails \<Rightarrow> Some (SOCKET_CREATE_ERROR, s)
     | BindFails \<Rightarrow> Some (SOCKET_BIND_ERROR, s)
     | ListenFails \<Rightarrow> Some (SOCKET_LISTEN_ERROR, s)
     | _ \<Rightarrow>
         (case sendResponse ackMsg s of
            (sendResult, s) \<Rightarrow>
              if sendResult \<noteq> SUCCESS then Some (sendResult, s)
              else (case session of
                      Connected segments e \<Rightarrow>
                        (case write_file filepath [] (files s) of
                           None \<Rightarrow> Some (FILE_OPEN_ERROR, s)
                         | Some opened \<Rightarrow> do {
                             content \<leftarrow> recvLoop filesize segments e [];
                             f \<leftarrow> write_file filepath content opened;
                             let s = set_files f s;
                             let s = s\<lparr>metrics_of := recordSendSession
                               (recordBytesReceived (of_nat (length content)) (metrics_of s))\<rparr>;
                             let s = s\<lparr>currentTcpPort := currentTcpPort s + 1\<rparr>;
                             Some (sendResponse ackMsg s)
                           })
                    | AcceptFails \<Rightarrow> Some (SOCKET_ACCEPT_ERROR, s)
                    | _ \<Rightarrow> None))
   }"

definition receiveFile :: "string \<Rightarrow> nat \<Rightarrow> server \<Rightarrow> (ErrorCode \<times> server) option" where
  "receiveFile filepath filesize s =
     (if filesize \<le> DATA_BUF_LEN then receiveSmallFile filepath filesize s
      else receiveLargeFile filepath filesize s)"

text \<open>After the confirmation has arrived: size and name are taken from it.\<close>

definition sendConfirmed :: "string \<Rightarrow> server \<Rightarrow> (ErrorCode \<times> server) option" where
  "sendConfirmed bytes s =
     (let confirmMsg = decode_cmd (endian (os s)) bytes
      in if getCommand confirmMsg \<noteq> OVERWRITE \<or> m_error confirmMsg \<noteq> 0
         then Some (sendResponse (reply ACK 2) s)
         else do {
           filename \<leftarrow> c_array (m_filename confirmMsg);
           receiveFile (joinPath (backupDir (config s)) filename) (unat (m_size confirmMsg)) s
         })"

definition handleSend :: "cmd_msg \<Rightarrow> server \<Rightarrow> (ErrorCode \<times> server) option" where
  "handleSend cmd s = do {
     filename \<leftarrow> c_array (m_filename cmd);
     let filesize = unat (m_size cmd);
     if \<not> isValidFilename filename
     then Some (sendResponse (reply ACK (toNetworkError INVALID_FILENAME)) s)
     else do {
       let filepath = joinPath (backupDir (config s)) filename;
       if fileExists filepath (files s)
       then (case sendResponse ((reply Command.FILE_EXISTS 0)\<lparr>m_size := of_nat filesize\<rparr>) s of
               (sendResult, s) \<Rightarrow>
                 if sendResult \<noteq> SUCCESS then Some (sendResult, s)
                 else do {
                   (msg, s) \<leftarrow> receive CMD_MSG_LEN (setTimeout s);
                   case msg of
                     None \<Rightarrow> Some (TIMEOUT, s)
                   | Some bytes \<Rightarrow> sendConfirmed bytes s
                 })
       else receiveFile filepath filesize s
     }
   }"

section \<open>REMOVE\<close>

definition handleRemove :: "cmd_msg \<Rightarrow> server \<Rightarrow> (ErrorCode \<times> server) option" where
  "handleRemove cmd s = do {
     filename \<leftarrow> c_array (m_filename cmd);
     if \<not> isValidFilename filename
     then Some (sendResponse (reply ACK (toNetworkError INVALID_FILENAME)) s)
     else do {
       let filepath = joinPath (backupDir (config s)) filename;
       if \<not> fileExists filepath (files s) then Some (sendResponse (reply ACK 1) s)
       else (case deleteFile filepath (files s) of
               (deleted, f) \<Rightarrow>
                 Some (sendResponse (reply ACK (if deleted then 0 else 1)) (set_files f s)))
     }
   }"

section \<open>RENAME\<close>

definition performRename :: "string \<Rightarrow> string \<Rightarrow> server \<Rightarrow> ErrorCode \<times> server" where
  "performRename oldFilepath newFilepath s =
     (case renameFile oldFilepath newFilepath (files s) of
        (renamed, f) \<Rightarrow> sendResponse (reply ACK (if renamed then 0 else 1)) (set_files f s))"

text \<open>After the confirmation, and after the new name has arrived.\<close>

definition renameConfirmed :: "string \<Rightarrow> string \<Rightarrow> string \<Rightarrow> server \<Rightarrow> ErrorCode \<times> server" where
  "renameConfirmed oldFilepath newFilepath bytes s =
     (let confirmMsg = decode_cmd (endian (os s)) bytes
      in if getCommand confirmMsg \<noteq> OVERWRITE \<or> m_error confirmMsg \<noteq> 0
         then sendResponse (reply ACK 2) s
         else performRename oldFilepath newFilepath
                (set_files (snd (deleteFile newFilepath (files s))) s))"

definition renameTo :: "string \<Rightarrow> string \<Rightarrow> server \<Rightarrow> (ErrorCode \<times> server) option" where
  "renameTo oldFilepath data s = do {
     newFilename \<leftarrow> c_array data;
     if \<not> isValidFilename newFilename
     then Some (sendResponse (reply ACK (toNetworkError INVALID_FILENAME)) s)
     else do {
       let newFilepath = joinPath (backupDir (config s)) newFilename;
       if \<not> fileExists newFilepath (files s)
       then Some (performRename oldFilepath newFilepath s)
       else do {
         (msg, s) \<leftarrow> receive CMD_MSG_LEN (snd (sendResponse (reply Command.FILE_EXISTS 0) s));
         Some (case msg of
           None \<Rightarrow> (TIMEOUT, s)
         | Some bytes \<Rightarrow> renameConfirmed oldFilepath newFilepath bytes s)
       }
     }
   }"

definition handleRename :: "cmd_msg \<Rightarrow> server \<Rightarrow> (ErrorCode \<times> server) option" where
  "handleRename cmd s = do {
     oldFilename \<leftarrow> c_array (m_filename cmd);
     if \<not> isValidFilename oldFilename
     then Some (sendResponse (reply ACK (toNetworkError INVALID_FILENAME)) s)
     else do {
       let oldFilepath = joinPath (backupDir (config s)) oldFilename;
       if \<not> fileExists oldFilepath (files s) then Some (sendResponse (reply ACK 1) s)
       else do {
         let s = (if enableHandshake (config s)
                  then snd (sendResponse (reply READY_FOR_NEW_NAME 0) s) else s);
         (msg, s) \<leftarrow> receive DATA_BUF_LEN (setTimeout s);
         case msg of
           None \<Rightarrow> Some (TIMEOUT, s)
         | Some data \<Rightarrow> renameTo oldFilepath data s
       }
     }
   }"

section \<open>SHUTDOWN and dispatch\<close>

definition handleShutdown :: "server \<Rightarrow> (ErrorCode \<times> server) option" where
  "handleShutdown s =
     (let s = snd (sendResponse (reply ACK 0) s)
      in Some (SUCCESS, s\<lparr>shutdownRequested := True\<rparr>))"

definition processCommand :: "cmd_msg \<Rightarrow> server \<Rightarrow> (ErrorCode \<times> server) option" where
  "processCommand cmd s =
     (case getCommand cmd of
        LS \<Rightarrow> handleLs (s\<lparr>state := PROCESS_LS\<rparr>)
      | SEND \<Rightarrow> handleSend cmd (s\<lparr>state := PROCESS_SEND\<rparr>)
      | REMOVE \<Rightarrow> handleRemove cmd (s\<lparr>state := PROCESS_REMOVE\<rparr>)
      | RENAME \<Rightarrow> handleRename cmd (s\<lparr>state := PROCESS_RENAME\<rparr>)
      | Command.SHUTDOWN \<Rightarrow> handleShutdown (s\<lparr>state := SHUTDOWN\<rparr>)
      | OVERWRITE \<Rightarrow> Some (SUCCESS, s)
      | _ \<Rightarrow> Some (INVALID_COMMAND, s))"

section \<open>The main loop\<close>

definition stopRequested :: "server \<Rightarrow> bool" where
  "stopRequested s \<longleftrightarrow>
     shutdownRequested s \<or> (case stop_at s of None \<Rightarrow> False | Some t \<Rightarrow> t \<le> clock (os s))"

text \<open>What the loop does with a received command; the Boolean says to leave the loop.\<close>

definition serveCommand :: "cmd_msg \<Rightarrow> server \<Rightarrow> (bool \<times> server) option" where
  "serveCommand cmdMsg s = do {
     let name = commandToString (getCommand cmdMsg);
     let s = s\<lparr>metrics_of := recordRequest name (metrics_of s)\<rparr>;
     (result, s) \<leftarrow> processCommand cmdMsg s;
     let s = (if result \<noteq> SUCCESS \<and> getCommand cmdMsg \<noteq> Command.SHUTDOWN
              then s\<lparr>metrics_of := recordError name (errorCodeToString result) (metrics_of s)\<rparr>
              else s);
     Some (if state s = SHUTDOWN then (True, s) else (False, s\<lparr>state := WAITING\<rparr>))
   }"

definition loopBody :: "server \<Rightarrow> (bool \<times> server) option" where
  "loopBody s =
     (case select 100 (os s) of
        (ready, w) \<Rightarrow>
          (let s = s\<lparr>os := w\<rparr>
           in if \<not> ready then Some (False, s)
              else do {
                (msg, s) \<leftarrow> receive CMD_MSG_LEN s;
                case msg of
                  None \<Rightarrow> Some (False, s)
                | Some bytes \<Rightarrow> serveCommand (decode_cmd (endian (os s)) bytes) s
              }))"

partial_function (option) runLoop :: "server \<Rightarrow> server option" where
  "runLoop s =
     (if stopRequested s then Some s
      else Option.bind (loopBody s) (\<lambda>(leave, s'). if leave then Some s' else runLoop s'))"

text \<open>
  \<open>run\<close> starts the management server's thread before the loop and joins it after the loop. Between
  the two nothing in this class touches \<open>httpServer_\<close>, so its state is handed from \<open>startHttp\<close> to
  \<open>stopHttp\<close>. A start that fails is only logged.
\<close>

definition startHttp :: "server \<Rightarrow> (http_life option \<times> server) option" where
  "startHttp s =
     (case httpServer s of
        None \<Rightarrow> Some (None, s)
      | Some l \<Rightarrow> do {
          (started, l, w) \<leftarrow> httpStart l (os s);
          Some (Some l, s\<lparr>os := w, httpServer := Some l\<rparr>)
        })"

definition stopHttp :: "http_life option \<Rightarrow> server \<Rightarrow> server option" where
  "stopHttp h s =
     (case h of
        None \<Rightarrow> Some s
      | Some l \<Rightarrow> do {
          (l, w) \<leftarrow> httpStop l (os s);
          Some (s\<lparr>os := w, httpServer := Some l\<rparr>)
        })"

definition run :: "server \<Rightarrow> (ErrorCode \<times> server) option" where
  "run s = do {
     (h, s) \<leftarrow> startHttp (s\<lparr>running := True, state := WAITING\<rparr>);
     s \<leftarrow> runLoop s;
     s \<leftarrow> stopHttp h s;
     Some (SUCCESS, s\<lparr>running := False\<rparr>)
   }"

end
