(* ===== verification/Server_Safety.thy ===== *)
theory Server_Safety
  imports Server
begin

text \<open>
  What each operation of the server leaves unchanged, and confinement: no command changes
  anything outside the backup directory, except an upload over an existing file.
\<close>

section \<open>Replies\<close>

lemma valid_reply [simp]: "valid_msg (reply c e)"
  by (simp add: reply_def)

lemma m_size_valid [simp]: "valid_msg (m\<lparr>m_size := z\<rparr>) = valid_msg m"
  by (simp add: valid_msg_def)

text \<open>\<open>sent s s' ms\<close>: between \<open>s\<close> and \<open>s'\<close> exactly the messages \<open>ms\<close> went out, in this order.\<close>

definition sent :: "server \<Rightarrow> server \<Rightarrow> (addr \<times> cmd_msg) list \<Rightarrow> bool" where
  "sent s s' ms \<longleftrightarrow>
     outgoing (os s') = outgoing (os s) @ map (\<lambda>(a, m). (a, encode_cmd (endian (os s)) m)) ms"

definition sends_ok :: "server \<Rightarrow> bool" where
  "sends_ok s \<longleftrightarrow> (\<forall>(t, fails) \<in> set (send_script (os s)). \<not> fails)"

text \<open>Everything of the server but the socket side of the operating system.\<close>

definition same_but_net :: "server \<Rightarrow> server \<Rightarrow> bool" where
  "same_but_net s s' \<longleftrightarrow>
     files s' = files s \<and> config s' = config s \<and> actualUdpPort s' = actualUdpPort s \<and>
     currentTcpPort s' = currentTcpPort s \<and> running s' = running s \<and>
     shutdownRequested s' = shutdownRequested s \<and> state s' = state s \<and>
     metrics_of s' = metrics_of s \<and> sessions s' = sessions s \<and> stop_at s' = stop_at s \<and>
     nonblocking (os s') = nonblocking (os s) \<and> endian (os s') = endian (os s)"

lemma same_but_net_refl [simp]: "same_but_net s s"
  by (simp add: same_but_net_def)

lemma same_but_net_trans: "same_but_net s s' \<Longrightarrow> same_but_net s' s'' \<Longrightarrow> same_but_net s s''"
  by (simp add: same_but_net_def)

lemma sendResponse_same: "same_but_net s (snd (sendResponse m s))"
  by (simp add: same_but_net_def sendResponse_def files_def case_prod_unfold)

lemma sendDataResponse_same: "same_but_net s (snd (sendDataResponse d s))"
  by (simp add: same_but_net_def sendDataResponse_def files_def case_prod_unfold)

lemma setTimeout_same: "same_but_net s (setTimeout s)"
  by (simp add: same_but_net_def setTimeout_def set_rcvtimeo_def files_def)

lemma receive_SomeE:
  assumes "receive n s = Some (r, s')"
  obtains x w where "recvfrom n (os s) = Some (x, w)"
    "s' = s\<lparr>os := w, currentClientAddr := (case x of None \<Rightarrow> currentClientAddr s | Some (a, d) \<Rightarrow> a)\<rparr>"
    "r = (case x of None \<Rightarrow> None | Some (a, d) \<Rightarrow> if d = [] then None else Some (overlay (zeros n) d))"
proof -
  obtain x w where "recvfrom n (os s) = Some (x, w)" "(r, s') = (case x of
         None \<Rightarrow> (None, s\<lparr>os := w\<rparr>)
       | Some (a, d) \<Rightarrow>
           (if d = [] then None else Some (overlay (zeros n) d),
            s\<lparr>os := w, currentClientAddr := a\<rparr>))"
    using assms unfolding receive_def by (auto simp: map_option_case split: option.splits)
  then show ?thesis by (intro that) (auto split: option.splits)
qed

lemma receive_same: "receive n s = Some (r, s') \<Longrightarrow> same_but_net s s'"
  by (elim receive_SomeE) (auto simp: same_but_net_def files_def dest: recvfrom_keeps)

text \<open>A receive puts a message of the full size of its buffer there.\<close>

lemma receive_length: "receive n s = Some (Some bytes, s') \<Longrightarrow> length bytes = n"
  by (elim receive_SomeE) (auto split: option.splits if_splits)

lemma receive_ready:
  assumes "incoming (os s) = (t, a, d) # rest" "t \<le> clock (os s)" "d \<noteq> []" "0 < n"
  shows "receive n s = Some (Some (overlay (zeros n) (take n d)),
     s\<lparr>os := (os s)\<lparr>incoming := rest\<rparr>, currentClientAddr := a\<rparr>)"
  using assms by (simp add: receive_def recvfrom_def)

lemma receive_not_ready:
  assumes "nonblocking (os s)" "\<forall>t a d rest. incoming (os s) = (t, a, d) # rest \<longrightarrow> clock (os s) < t"
  shows "receive n s = Some (None, s)"
  using assms by (auto simp: receive_def recvfrom_nonblocking split: list.splits)

lemma sendResponse_ok:
  assumes "sends_ok s"
  shows "fst (sendResponse m s) = SUCCESS" "sends_ok (snd (sendResponse m s))"
    "outgoing (os (snd (sendResponse m s))) =
       outgoing (os s) @ [(currentClientAddr s, encode_cmd (endian (os s)) m)]"
    "currentClientAddr (snd (sendResponse m s)) = currentClientAddr s"
  using assms
  by (auto simp: sendResponse_def send_to_def sends_ok_def split: list.splits prod.splits)

section \<open>Confinement\<close>

text \<open>
  \<open>only_entries d fs fs'\<close>: the tree stayed well-formed, no directory changed, and nothing changed
  but entries directly inside \<open>d\<close>.
\<close>

definition only_entries :: "path \<Rightarrow> filesystem \<Rightarrow> filesystem \<Rightarrow> bool" where
  "only_entries d f f' \<longleftrightarrow>
     fs_ok f' \<and> same_dirs f f' \<and> (\<forall>q. (\<forall>n. q \<noteq> d @ [n]) \<longrightarrow> lookup f' q = lookup f q)"

lemma only_entries_refl: "fs_ok f \<Longrightarrow> only_entries d f f"
  by (simp add: only_entries_def)

lemma only_entries_trans: "only_entries d f f' \<Longrightarrow> only_entries d f' f'' \<Longrightarrow> only_entries d f f''"
  using same_dirs_trans by (fastforce simp: only_entries_def)

lemma valid_resolve:
  "is_base f b d \<Longrightarrow> isValidFilename n \<Longrightarrow> resolve f (joinPath b n) = Some q \<Longrightarrow> \<not> is_dir f q \<Longrightarrow> q = d @ [n]"
  using valid_names_confined[of f b d n] by (auto simp: is_base_def split: if_splits)

lemma write_confined:
  assumes ok: "fs_ok f" and b: "is_base f b d" "isValidFilename n"
    and w: "write_file (joinPath b n) c f = Some f'"
  shows "only_entries d f f'"
proof -
  obtain q where q: "resolve f (joinPath b n) = Some q" "\<not> is_dir f q"
    "lookup f' = (lookup f)(q \<mapsto> RegularFile c)"
    using w by (rule write_file_effect) blast
  have "q = d @ [n]" by (rule valid_resolve[OF b q(1,2)])
  with q(3) show ?thesis using write_file_keeps[OF ok w] by (simp add: only_entries_def)
qed

lemma delete_confined:
  assumes ok: "fs_ok f" and b: "is_base f b d" "isValidFilename n"
  shows "only_entries d f (snd (deleteFile (joinPath b n) f))"
proof (cases "unlink (joinPath b n) f")
  case None
  then show ?thesis using ok by (simp add: deleteFile_def only_entries_refl)
next
  case (Some f')
  then obtain q where q: "resolve f (joinPath b n) = Some q" "\<not> is_dir f q"
    "lookup f' = (lookup f)(q := None)"
    by (rule unlink_effect) blast
  have "q = d @ [n]" by (rule valid_resolve[OF b q(1,2)])
  with q(3) Some show ?thesis using unlink_keeps[OF ok Some] by (simp add: only_entries_def deleteFile_def)
qed

lemma fileExists_resolve:
  assumes "fileExists p f"
  obtains q where "resolve f p = Some q" "\<not> is_dir f q" "lookup f q \<noteq> None"
proof -
  obtain q n where q: "resolve f p = Some q" "lookup f q = Some n" "and (st_mode n) S_IFREG \<noteq> 0"
    using assms by (auto simp: fileExists_def stat_def bind_eq_Some_conv split: option.splits)
  then have "n \<noteq> Directory" by (auto simp: S_IFREG_def)
  with q show ?thesis by (intro that[of q]) (simp_all add: is_dir_def)
qed

lemma rename_confined:
  assumes ok: "fs_ok f" and b: "is_base f b d" "isValidFilename m" "isValidFilename n"
    and ex: "\<And>q. resolve f (joinPath b m) = Some q \<Longrightarrow> \<not> is_dir f q"
  shows "only_entries d f (snd (renameFile (joinPath b m) (joinPath b n) f))"
proof (cases "rename (joinPath b m) (joinPath b n) f")
  case None
  then show ?thesis using ok by (simp add: renameFile_def only_entries_refl)
next
  case (Some f')
  obtain q where q: "resolve f (joinPath b m) = Some q"
    using Some by (auto simp: rename_def split: option.splits)
  have nd: "\<not> is_dir f q" by (rule ex[OF q])
  have wf: "fs_wf f" using ok by (simp add: fs_ok_def)
  obtain r where r: "resolve f (joinPath b n) = Some r" "\<not> is_dir f r"
    "lookup f' = (if q = r then lookup f else (lookup f)(q := None, r := lookup f q))"
    using rename_effect[OF Some wf q nd] by blast
  have "q = d @ [m]" "r = d @ [n]"
    using valid_resolve[OF b(1,2) q nd] valid_resolve[OF b(1,3) r(1,2)] by simp_all
  with r(3) Some show ?thesis
    using rename_keeps[OF ok Some q nd] by (simp add: only_entries_def renameFile_def)
qed

text \<open>What a handler may change: the metrics, the transfer state and the entries of the directory.\<close>

definition confined :: "server \<Rightarrow> server \<Rightarrow> bool" where
  "confined s s' \<longleftrightarrow>
     config s' = config s \<and>
     (\<forall>d. fs_ok (files s) \<longrightarrow> is_base (files s) (backupDir (config s)) d \<longrightarrow>
        only_entries d (files s) (files s'))"

lemma same_confined: "same_but_net s s' \<Longrightarrow> confined s s'"
  by (simp add: confined_def same_but_net_def only_entries_refl)

lemma confined_trans: "confined s s' \<Longrightarrow> confined s' s'' \<Longrightarrow> confined s s''"
proof -
  assume a: "confined s s'" "confined s' s''"
  show ?thesis unfolding confined_def
  proof (intro conjI allI impI)
    show "config s'' = config s" using a by (simp add: confined_def)
    fix d assume d: "fs_ok (files s)" "is_base (files s) (backupDir (config s)) d"
    have o1: "only_entries d (files s) (files s')" using a(1) d by (simp add: confined_def)
    then have sd: "same_dirs (files s) (files s')" "fs_ok (files s')" by (simp_all add: only_entries_def)
    have "is_base (files s') (backupDir (config s')) d"
      using same_dirs_base[OF sd(1)] d(2) a(1) by (simp add: confined_def)
    with sd(2) a(2) have "only_entries d (files s') (files s'')" by (simp add: confined_def)
    with o1 show "only_entries d (files s) (files s'')" by (rule only_entries_trans)
  qed
qed

lemma sendResponse_confined: "confined s (snd (sendResponse m s))"
  using sendResponse_same by (rule same_confined)

lemma receive_confined: "receive n s = Some (r, s') \<Longrightarrow> confined s s'"
  by (intro same_confined) (rule receive_same)

lemma set_files_simps [simp]:
  "files (set_files f s) = f" "config (set_files f s) = config s"
  "incoming (os (set_files f s)) = incoming (os s)" "outgoing (os (set_files f s)) = outgoing (os s)"
  "nonblocking (os (set_files f s)) = nonblocking (os s)" "endian (os (set_files f s)) = endian (os s)"
  "clock (os (set_files f s)) = clock (os s)" "send_script (os (set_files f s)) = send_script (os s)"
  "currentClientAddr (set_files f s) = currentClientAddr s" "sends_ok (set_files f s) = sends_ok s"
  "state (set_files f s) = state s" "metrics_of (set_files f s) = metrics_of s"
  "currentTcpPort (set_files f s) = currentTcpPort s" "sessions (set_files f s) = sessions s"
  by (simp_all add: files_def set_files_def sends_ok_def)

lemma set_files_confined:
  "(\<And>d. fs_ok (files s) \<Longrightarrow> is_base (files s) (backupDir (config s)) d \<Longrightarrow> only_entries d (files s) f) \<Longrightarrow>
     confined s (set_files f s)"
  by (simp add: confined_def)

lemma handleRemove_confined:
  assumes "handleRemove cmd s = Some (r, s')"
  shows "confined s s'"
proof -
  obtain n where n: "c_array (m_filename cmd) = Some n"
    using assms by (auto simp: handleRemove_def bind_eq_Some_conv)
  show ?thesis
  proof (cases "isValidFilename n \<and> fileExists (joinPath (backupDir (config s)) n) (files s)")
    case False
    then obtain m where "sendResponse m s = (r, s')"
      using assms n by (auto simp: handleRemove_def split: if_splits)
    then show ?thesis using sendResponse_confined[of s m] by (metis snd_conv)
  next
    case True
    let ?t = "set_files (snd (deleteFile (joinPath (backupDir (config s)) n) (files s))) s"
    obtain m where "sendResponse m ?t = (r, s')"
      using assms n True by (auto simp: handleRemove_def split: prod.splits)
    then have "confined ?t s'" using sendResponse_confined[of ?t m] by (metis snd_conv)
    moreover have "confined s ?t"
      using True by (intro set_files_confined) (simp add: delete_confined)
    ultimately show ?thesis by (rule confined_trans[rotated])
  qed
qed

text \<open>Handlers end in a reply, so a result pair is one.\<close>

lemma sendResponse_eq_confined: "sendResponse m s = (r, s') \<Longrightarrow> confined s s'"
  using sendResponse_confined[of s m] by simp

lemma sendResponse_eq_same: "sendResponse m s = (r, s') \<Longrightarrow> same_but_net s s'"
  using sendResponse_same[of s m] by simp

lemma performRename_confined:
  assumes "isValidFilename m" "isValidFilename n"
    and nd: "\<And>q. resolve (files s) (joinPath (backupDir (config s)) m) = Some q \<Longrightarrow> \<not> is_dir (files s) q"
    and r: "performRename (joinPath (backupDir (config s)) m) (joinPath (backupDir (config s)) n) s = (r, s')"
  shows "confined s s'"
proof -
  let ?o = "joinPath (backupDir (config s)) m" and ?n = "joinPath (backupDir (config s)) n"
  let ?t = "set_files (snd (renameFile ?o ?n (files s))) s"
  obtain msg where "sendResponse msg ?t = (r, s')"
    using r by (auto simp: performRename_def split: prod.splits)
  then have "confined ?t s'" by (rule sendResponse_eq_confined)
  moreover have "confined s ?t"
  proof (rule set_files_confined)
    fix d assume "fs_ok (files s)" "is_base (files s) (backupDir (config s)) d"
    then show "only_entries d (files s) (snd (renameFile ?o ?n (files s)))"
      using rename_confined assms(1,2) nd by blast
  qed
  ultimately show ?thesis by (rule confined_trans[rotated])
qed

lemma renameConfirmed_confined:
  assumes v: "isValidFilename m" "isValidFilename n"
    and nd: "\<And>q. resolve (files s) (joinPath (backupDir (config s)) m) = Some q \<Longrightarrow> \<not> is_dir (files s) q"
    and r: "renameConfirmed (joinPath (backupDir (config s)) m) (joinPath (backupDir (config s)) n) bytes s = (r, s')"
  shows "confined s s'"
proof -
  let ?o = "joinPath (backupDir (config s)) m" and ?n = "joinPath (backupDir (config s)) n"
  let ?t = "set_files (snd (deleteFile ?n (files s))) s"
  consider (no) msg where "sendResponse msg s = (r, s')"
    | (yes) "performRename ?o ?n ?t = (r, s')"
    using r by (auto simp: renameConfirmed_def Let_def split: if_splits)
  then show ?thesis
  proof cases
    case no
    then show ?thesis by (rule sendResponse_eq_confined)
  next
    case yes
    have t: "confined s ?t"
      using v by (intro set_files_confined) (simp add: delete_confined)
    have sd: "same_dirs (files s) (files ?t)"
    proof (cases "unlink ?n (files s)")
      case None
      then show ?thesis by (simp add: deleteFile_def)
    next
      case (Some f)
      then obtain q where "\<not> is_dir (files s) q" "f = del_node q (files s)" "lookup f = (lookup (files s))(q := None)"
        by (rule unlink_effect)
      with Some show ?thesis by (auto simp: deleteFile_def same_dirs_def is_dir_def del_node_def)
    qed
    have "confined ?t s'"
    proof (rule performRename_confined[OF v])
      show "performRename (joinPath (backupDir (config ?t)) m) (joinPath (backupDir (config ?t)) n) ?t = (r, s')"
        using yes by simp
      fix q assume "resolve (files ?t) (joinPath (backupDir (config ?t)) m) = Some q"
      then have "resolve (files s) ?o = Some q" unfolding same_dirs_resolve[OF sd] by simp
      then have "\<not> is_dir (files s) q" by (rule nd)
      with sd show "\<not> is_dir (files ?t) q" by (simp add: same_dirs_def)
    qed
    with t show ?thesis by (rule confined_trans)
  qed
qed

lemma same_but_net_fs: "same_but_net s s' \<Longrightarrow> files s' = files s \<and> config s' = config s"
  by (simp add: same_but_net_def)

lemma renameTo_confined:
  assumes v: "isValidFilename m"
    and nd: "\<And>q. resolve (files s) (joinPath (backupDir (config s)) m) = Some q \<Longrightarrow> \<not> is_dir (files s) q"
    and r: "renameTo (joinPath (backupDir (config s)) m) data s = Some (r, s')"
  shows "confined s s'"
proof -
  let ?o = "joinPath (backupDir (config s)) m"
  let ?t = "snd (sendResponse (reply Command.FILE_EXISTS 0) s)"
  obtain n where n: "c_array data = Some n" using r by (auto simp: renameTo_def bind_eq_Some_conv)
  let ?n = "joinPath (backupDir (config s)) n"
  have "(\<exists>msg. sendResponse msg s = (r, s')) \<or>
      isValidFilename n \<and> (performRename ?o ?n s = (r, s') \<or>
        (\<exists>msg u. receive CMD_MSG_LEN ?t = Some (msg, u) \<and>
          (s' = u \<or> (\<exists>bytes. renameConfirmed ?o ?n bytes u = (r, s')))))"
    using r n by (auto simp: renameTo_def Let_def bind_eq_Some_conv split: if_splits option.splits)
  then consider (reply) msg where "sendResponse msg s = (r, s')"
    | (new) "isValidFilename n" "performRename ?o ?n s = (r, s')"
    | (asked) msg u where "isValidFilename n" "receive CMD_MSG_LEN ?t = Some (msg, u)"
        "s' = u \<or> (\<exists>bytes. renameConfirmed ?o ?n bytes u = (r, s'))" by blast
  then show ?thesis
  proof cases
    case reply
    then show ?thesis by (rule sendResponse_eq_confined)
  next
    case new
    then show ?thesis using performRename_confined[OF v new(1) nd] by blast
  next
    case asked
    have su: "same_but_net s u"
      using sendResponse_same receive_same[OF asked(2)] by (rule same_but_net_trans)
    note e = same_but_net_fs[OF su]
    from asked(3) have "confined u s'"
    proof
      assume "s' = u"
      then show ?thesis by (simp add: same_confined)
    next
      assume "\<exists>bytes. renameConfirmed ?o ?n bytes u = (r, s')"
      then obtain bytes where "renameConfirmed ?o ?n bytes u = (r, s')" by blast
      then show ?thesis
        using renameConfirmed_confined[OF v asked(1), of u bytes r s'] nd by (simp add: e)
    qed
    with same_confined[OF su] show ?thesis by (rule confined_trans)
  qed
qed

lemma handleRename_confined:
  assumes r: "handleRename cmd s = Some (r, s')"
  shows "confined s s'"
proof -
  obtain m where m: "c_array (m_filename cmd) = Some m"
    using r by (auto simp: handleRename_def bind_eq_Some_conv)
  let ?o = "joinPath (backupDir (config s)) m"
  let ?t = "setTimeout (if enableHandshake (config s) then snd (sendResponse (reply READY_FOR_NEW_NAME 0) s) else s)"
  have st: "same_but_net s ?t"
    using sendResponse_same setTimeout_same same_but_net_trans by (auto intro: same_but_net_trans)
  have "(\<exists>msg. sendResponse msg s = (r, s')) \<or>
      isValidFilename m \<and> fileExists ?o (files s) \<and>
        (\<exists>msg u. receive DATA_BUF_LEN ?t = Some (msg, u) \<and>
          (s' = u \<or> (\<exists>data. renameTo ?o data u = Some (r, s'))))"
    using r m by (auto simp: handleRename_def Let_def bind_eq_Some_conv split: if_splits option.splits)
  then consider (reply) msg where "sendResponse msg s = (r, s')"
    | (go) msg u where "isValidFilename m" "fileExists ?o (files s)" "receive DATA_BUF_LEN ?t = Some (msg, u)"
        "s' = u \<or> (\<exists>data. renameTo ?o data u = Some (r, s'))" by blast
  then show ?thesis
  proof cases
    case reply
    then show ?thesis by (rule sendResponse_eq_confined)
  next
    case go
    have su: "same_but_net s u" using st receive_same[OF go(3)] by (rule same_but_net_trans)
    note e = same_but_net_fs[OF su]
    have nd: "resolve (files s) ?o = Some q \<Longrightarrow> \<not> is_dir (files s) q" for q
      using go(2) by (metis fileExists_resolve option.inject)
    from go(4) have "confined u s'"
      using renameTo_confined[OF go(1), of u] nd by (auto simp: e same_confined)
    with same_confined[OF su] show ?thesis by (rule confined_trans)
  qed
qed

lemma metrics_confined [simp]: "confined s (s\<lparr>metrics_of := m\<rparr>)" "confined s (s\<lparr>state := st\<rparr>)"
  "confined s (s\<lparr>currentTcpPort := p\<rparr>)" "confined s (s\<lparr>sessions := c\<rparr>)"
  "confined s (s\<lparr>shutdownRequested := b\<rparr>)"
  by (simp_all add: confined_def files_def only_entries_refl)

lemma write_set_files_confined:
  assumes "isValidFilename n" "write_file (joinPath (backupDir (config s)) n) c (files s) = Some f"
  shows "confined s (set_files f s)"
  by (rule set_files_confined, rule write_confined) (use assms in auto)

lemma receiveSmallFile_confined:
  assumes v: "isValidFilename n"
    and r: "receiveSmallFile (joinPath (backupDir (config s)) n) z s = Some (r, s')"
  shows "confined s s'"
proof -
  let ?p = "joinPath (backupDir (config s)) n"
  let ?t = "setTimeout (snd (sendResponse (reply ACK 0) s))"
  have st: "same_but_net s ?t" using sendResponse_same setTimeout_same by (rule same_but_net_trans)
  obtain msg u where u1: "receive DATA_BUF_LEN ?t = Some (msg, u)"
    using r by (auto simp: receiveSmallFile_def Let_def bind_eq_Some_conv)
  have u: "receive DATA_BUF_LEN ?t = Some (msg, u)" "(\<exists>m. s' = snd (sendResponse m u)) \<or>
       (\<exists>data f mt m. write_file ?p data (files u) = Some f \<and>
          sendResponse m ((set_files f u)\<lparr>metrics_of := mt\<rparr>) = (r, s'))"
  proof (rule u1, cases msg)
    case None
    with r u1 show "(\<exists>m. s' = snd (sendResponse m u)) \<or>
       (\<exists>data f mt m. write_file ?p data (files u) = Some f \<and>
          sendResponse m ((set_files f u)\<lparr>metrics_of := mt\<rparr>) = (r, s'))"
      by (auto simp: receiveSmallFile_def Let_def)
  next
    case (Some data)
    with r u1 show "(\<exists>m. s' = snd (sendResponse m u)) \<or>
       (\<exists>data f mt m. write_file ?p data (files u) = Some f \<and>
          sendResponse m ((set_files f u)\<lparr>metrics_of := mt\<rparr>) = (r, s'))"
      by (cases "write_file ?p (take z data) (files u)") (auto simp: receiveSmallFile_def Let_def)
  qed
  have su: "same_but_net s u" using st receive_same[OF u(1)] by (rule same_but_net_trans)
  note e = same_but_net_fs[OF su]
  from u(2) have "confined u s'"
  proof (elim disjE exE conjE)
    fix m assume "s' = snd (sendResponse m u)"
    then show ?thesis by (simp add: sendResponse_confined)
  next
    fix data f mt m
    assume w: "write_file ?p data (files u) = Some f"
      and m: "sendResponse m ((set_files f u)\<lparr>metrics_of := mt\<rparr>) = (r, s')"
    have "confined u (set_files f u)"
      using write_set_files_confined[OF v, of u data f] w by (simp add: e)
    then have "confined u ((set_files f u)\<lparr>metrics_of := mt\<rparr>)" by (rule confined_trans) simp
    then show ?thesis using sendResponse_eq_confined[OF m] by (rule confined_trans)
  qed
  with same_confined[OF su] show ?thesis by (rule confined_trans)
qed

lemma write_file_overwrite:
  "write_file p c f = Some f' \<Longrightarrow> write_file p c' f' = write_file p c' f"
proof -
  assume w: "write_file p c f = Some f'"
  then obtain q where q: "resolve f p = Some q" "q \<noteq> []" "\<not> is_dir f q" "f' = set_node q (RegularFile c) f"
    "lookup f q = None \<or> (\<exists>old. lookup f q = Some (RegularFile old))" 
    "lookup f' = (lookup f)(q \<mapsto> RegularFile c)"
    by (rule write_file_effect) blast
  then have "writable f q" using w by (auto simp: write_file_def split: if_splits)
  moreover have "resolve f' p = Some q"
    unfolding q(1)[symmetric] by (rule resolve_cong) (use q in \<open>auto simp: is_dir_def set_node_def\<close>)
  moreover have "set_node q (RegularFile c') f' = set_node q (RegularFile c') f"
    by (simp add: q(4) set_node_def)
  ultimately show ?thesis using q by (auto simp: write_file_def set_node_def)
qed

lemma receiveLargeFile_confined:
  assumes v: "isValidFilename n"
    and r: "receiveLargeFile (joinPath (backupDir (config s)) n) z s = Some (r, s')"
  shows "confined s s'"
proof -
  let ?p = "joinPath (backupDir (config s)) n"
  obtain c t where ct: "nextSession s = (c, t)" by (cases "nextSession s")
  let ?m = "(reply ACK 0)\<lparr>m_size := ucast (currentTcpPort t)\<rparr>"
  have st: "confined s t" using ct by (auto simp: nextSession_def same_confined split: list.splits)
  obtain sr u where u: "sendResponse ?m t = (sr, u)" by (cases "sendResponse ?m t")
  have tu: "confined t u" by (rule sendResponse_eq_confined[OF u])
  have "s' = t \<or> s' = u \<or>
      (\<exists>content opened f mt q m. write_file ?p [] (files u) = Some opened \<and>
         write_file ?p content opened = Some f \<and>
         sendResponse m ((set_files f u)\<lparr>metrics_of := mt, currentTcpPort := q\<rparr>) = (r, s'))"
    using r ct u
    by (auto simp: receiveLargeFile_def Let_def bind_eq_Some_conv split: tcp_session.splits if_splits option.splits)
  then have "confined s s'"
  proof (elim disjE exE conjE)
    fix content opened f mt q m
    assume w: "write_file ?p [] (files u) = Some opened" "write_file ?p content opened = Some f"
      and m: "sendResponse m ((set_files f u)\<lparr>metrics_of := mt, currentTcpPort := q\<rparr>) = (r, s')"
    have su: "confined s u" using st tu by (rule confined_trans)
    then have "config u = config s" by (simp add: confined_def)
    then have "confined u (set_files f u)"
      using write_set_files_confined[OF v, of u content f] w write_file_overwrite[OF w(1)] by simp
    then have "confined u ((set_files f u)\<lparr>metrics_of := mt\<rparr>)" by (rule confined_trans) simp
    then have "confined u ((set_files f u)\<lparr>metrics_of := mt, currentTcpPort := q\<rparr>)"
      by (rule confined_trans) simp
    then have "confined u s'" using sendResponse_eq_confined[OF m] by (rule confined_trans)
    with su show ?thesis by (rule confined_trans)
  qed (use st confined_trans[OF st tu] in simp_all)
  then show ?thesis .
qed

lemma receiveFile_confined:
  "isValidFilename n \<Longrightarrow> receiveFile (joinPath (backupDir (config s)) n) z s = Some (r, s') \<Longrightarrow> confined s s'"
  using receiveSmallFile_confined receiveLargeFile_confined
  by (auto simp: receiveFile_def split: if_splits)

text \<open>The command asks for an upload over an existing file.\<close>

definition overwrites :: "cmd_msg \<Rightarrow> server \<Rightarrow> bool" where
  "overwrites cmd s \<longleftrightarrow>
     getCommand cmd = SEND \<and>
     (case c_array (m_filename cmd) of
        None \<Rightarrow> False
      | Some n \<Rightarrow> fileExists (joinPath (backupDir (config s)) n) (files s))"

lemma handleSend_confined:
  assumes "handleSend cmd s = Some (r, s')" "getCommand cmd = SEND" "\<not> overwrites cmd s"
  shows "confined s s'"
proof -
  obtain n where n: "c_array (m_filename cmd) = Some n"
    using assms(1) by (auto simp: handleSend_def bind_eq_Some_conv)
  then have "\<not> fileExists (joinPath (backupDir (config s)) n) (files s)"
    using assms(2,3) by (simp add: overwrites_def)
  then have "(\<exists>m. sendResponse m s = (r, s')) \<or> isValidFilename n \<and>
      receiveFile (joinPath (backupDir (config s)) n) (unat (m_size cmd)) s = Some (r, s')"
    using assms(1) n by (auto simp: handleSend_def Let_def split: if_splits)
  then show ?thesis using sendResponse_eq_confined receiveFile_confined by blast
qed

lemma processCommand_confined:
  assumes p: "processCommand cmd s = Some (r, s')" and o: "\<not> overwrites cmd s"
  shows "confined s s'"
proof -
  have st: "confined s (s\<lparr>state := st\<rparr>)" for st by simp
  have "\<exists>st. confined (s\<lparr>state := st\<rparr>) s' \<or> s' = s"
  proof (cases "getCommand cmd")
    case LS
    then show ?thesis
      using p same_confined[OF sendDataResponse_same]
      by (auto simp: processCommand_def handleLs_def Let_def intro!: exI[of _ PROCESS_LS]) (metis snd_conv)
  next
    case SEND
    then have "handleSend cmd (s\<lparr>state := PROCESS_SEND\<rparr>) = Some (r, s')" "\<not> overwrites cmd (s\<lparr>state := PROCESS_SEND\<rparr>)"
      using p o by (auto simp: processCommand_def overwrites_def files_def split: option.splits)
    then show ?thesis using handleSend_confined SEND by blast
  next
    case REMOVE
    then show ?thesis using p handleRemove_confined[of cmd "s\<lparr>state := PROCESS_REMOVE\<rparr>"] by (auto simp: processCommand_def)
  next
    case RENAME
    then show ?thesis using p handleRename_confined[of cmd "s\<lparr>state := PROCESS_RENAME\<rparr>"] by (auto simp: processCommand_def)
  next
    case SHUTDOWN
    let ?t = "s\<lparr>state := ServerState.SHUTDOWN\<rparr>"
    have "s' = (snd (sendResponse (reply ACK 0) ?t))\<lparr>shutdownRequested := True\<rparr>"
      using p SHUTDOWN by (auto simp: processCommand_def handleShutdown_def Let_def)
    then have "confined ?t s'" using confined_trans[OF sendResponse_confined metrics_confined(5)] by simp
    then show ?thesis by blast
  qed (use p in \<open>auto simp: processCommand_def\<close>)
  then show ?thesis using st confined_trans same_confined same_but_net_refl by metis
qed

end
