(* ===== verification/Server_Spec.thy ===== *)
theory Server_Spec
  imports Server_Safety
begin

text \<open>
  What the handlers do to the backup directory seen as a store (a map from names to contents) and
  which messages they send. The proofs rest on the interpretation of the store interface in
  \<open>Backup_Store\<close>.
\<close>

section \<open>The store of the server\<close>

definition kept :: "server \<Rightarrow> path \<Rightarrow> string \<Rightarrow> string option" where
  "kept s d = store (files s) d"

definition ready :: "path \<Rightarrow> server \<Rightarrow> bool" where
  "ready d s \<longleftrightarrow> clean (backupDir (config s)) d (files s) \<and> sends_ok s"

text \<open>A reply on a socket that works: it is logged, and nothing but the socket changes.\<close>

lemma send_to_clock: "clock w \<le> clock (snd (send_to a d w))"
  by (auto simp: send_to_def split: list.splits)

lemma reply_sent:
  assumes "sends_ok s"
  obtains s' where "sendResponse m s = (SUCCESS, s')" "same_but_net s s'" "sends_ok s'"
    "sent s s' [(currentClientAddr s, m)]" "currentClientAddr s' = currentClientAddr s"
    "incoming (os s') = incoming (os s)" "clock (os s) \<le> clock (os s')"
proof -
  have i: "incoming (os (snd (sendResponse m s))) = incoming (os s)"
    "clock (os s) \<le> clock (os (snd (sendResponse m s)))"
    by (simp_all add: sendResponse_def case_prod_unfold send_to_clock)
  show ?thesis
    using sendResponse_ok[OF assms, of m] sendResponse_same[of s m] i
    by (intro that[of "snd (sendResponse m s)"]) (simp_all add: sent_def prod_eq_iff)
qed

lemma sent_Nil [simp]: "sent s s []"
  by (simp add: sent_def)

lemma sent_append:
  "sent s s' ms \<Longrightarrow> sent s' s'' ms' \<Longrightarrow> endian (os s') = endian (os s) \<Longrightarrow> sent s s'' (ms @ ms')"
  by (simp add: sent_def)

section \<open>REMOVE\<close>

lemma handleRemove_spec:
  assumes "c_array (m_filename cmd) = Some n" "ready d s"
  shows "\<exists>s'. handleRemove cmd s = Some (SUCCESS, s') \<and> ready d s' \<and> state s' = state s \<and>
    kept s' d = (if isValidFilename n then (kept s d)(n := None) else kept s d) \<and>
    sent s s' [(currentClientAddr s, reply ACK
      (if \<not> isValidFilename n then 107 else if kept s d n \<noteq> None then 0 else 1))]"
proof -
  let ?b = "backupDir (config s)" and ?f = "files s"
  have c: "clean ?b d ?f" "sends_ok s" using assms(2) by (simp_all add: ready_def)
  show ?thesis
  proof (cases "isValidFilename n \<and> kept s d n \<noteq> None")
    case False
    let ?e = "if isValidFilename n then 1 else 107 :: u16"
    obtain s' where s': "sendResponse (reply ACK ?e) s = (SUCCESS, s')" "same_but_net s s'" "sends_ok s'"
      "sent s s' [(currentClientAddr s, reply ACK ?e)]"
      using reply_sent[OF c(2)] by metis
    have "handleRemove cmd s = Some (SUCCESS, s')"
      using assms(1) False s'(1) fileExists_store[OF c(1), of n]
      by (auto simp: handleRemove_def Let_def toNetworkError_def error_table_def kept_def)
    moreover have "(kept s d)(n := None) = kept s d" if "isValidFilename n"
      using False that by (auto simp: fun_eq_iff)
    ultimately show ?thesis
      using s' False c by (auto simp: ready_def kept_def same_but_net_def)
  next
    case True
    then have n: "ok_name n" using stored_ok_name[OF c(1)] by (simp add: kept_def)
    obtain f where f: "unlink (joinPath ?b n) ?f = Some f"
      using bk.del_none[OF c(1) n] True by (auto simp: kept_def)
    let ?t = "set_files f s"
    obtain s' where s': "sendResponse (reply ACK 0) ?t = (SUCCESS, s')" "same_but_net ?t s'" "sends_ok s'"
      "sent ?t s' [(currentClientAddr ?t, reply ACK 0)]"
      using reply_sent[of ?t] c(2) by (metis set_files_simps(10))
    have "handleRemove cmd s = Some (SUCCESS, s')"
      using assms(1) True s'(1) f fileExists_store[OF c(1), of n]
      by (simp add: handleRemove_def deleteFile_def kept_def)
    then show ?thesis
      using s' True bk.del_look[OF c(1) n f] bk.del_inv[OF c(1) n f]
      by (auto simp: ready_def kept_def same_but_net_def sent_def)
  qed
qed

text \<open>
  C6: \<open>handleRemove\<close> on a directory of regular files. A valid name is removed from the store if it
  is there, nothing else changes, and the one reply, to the requesting client, says 0 exactly when
  a file was removed, 107 for an invalid name and 1 for a missing file.
\<close>

theorem remove_correct:
  assumes "c_array (m_filename cmd) = Some n" "ready d s"
  shows "\<exists>s'. handleRemove cmd s = Some (SUCCESS, s') \<and> ready d s' \<and>
    kept s' d = (if isValidFilename n then (kept s d)(n := None) else kept s d) \<and>
    sent s s' [(currentClientAddr s, reply ACK
      (if \<not> isValidFilename n then 107 else if kept s d n \<noteq> None then 0 else 1))]"
  using handleRemove_spec[OF assms] by blast

section \<open>An example server\<close>

text \<open>A server on the example directory at time 10, with given traffic and TCP connections to come.\<close>

definition sample :: "(nat \<times> addr \<times> string) list \<Rightarrow> tcp_session list \<Rightarrow> server" where
  "sample inc tcp =
     Server ServerConfig (Metrics 0 0)
       ((quiet_os sample_fs)\<lparr>clock := 10, incoming := inc, nonblocking := True\<rparr>) tcp None"

lemma sample_simps [simp]:
  "files (sample inc tcp) = sample_fs" "backupDir (config (sample inc tcp)) = ''backup''"
  "incoming (os (sample inc tcp)) = inc" "clock (os (sample inc tcp)) = 10"
  "nonblocking (os (sample inc tcp))" "endian (os (sample inc tcp)) = LittleEndian"
  "send_script (os (sample inc tcp)) = []" "sessions (sample inc tcp) = tcp"
  "stop_at (sample inc tcp) = None" "\<not> shutdownRequested (sample inc tcp)"
  "httpServer (sample inc tcp) = None"
  by (simp_all add: sample_def Server_def quiet_os_def files_def ServerConfig_def)

lemma sample_ready: "ready [''backup''] (sample inc tcp)"
  using sample_clean by (simp add: ready_def sends_ok_def)

lemma sample_kept: "kept (sample inc tcp) [''backup''] = [''a.txt'' \<mapsto> ''old'']"
  by (simp add: kept_def sample_store)

lemma name_in_message:
  "ok_name n \<Longrightarrow> length n \<le> 127 \<Longrightarrow> c_array (m_filename (setFilename n m)) = Some n"
  using isValidFilenameD(3)[of n] by (simp add: setFilename_short)

theorem remove_correct_witness:
  "\<exists>s'. handleRemove (setFilename ''a.txt'' (setCommand REMOVE CmdMsg)) (sample [] []) = Some (SUCCESS, s') \<and>
     kept s' [''backup''] = Map.empty"
  using remove_correct[OF name_in_message[OF sample_names(1)] sample_ready, of "setCommand REMOVE CmdMsg" "[]" "[]"]
  by (auto simp: sample_kept)

section \<open>Confinement of a command\<close>

text \<open>
  C1: confinement of the server. Whatever datagrams arrive during a command, from whomever, and
  however the transfers go, the command changes nothing but entries directly inside the backup
  directory, moves no directory and leaves the tree well-formed. The one exception is an upload
  over an existing file.
\<close>

theorem commands_confined:
  assumes "processCommand cmd s = Some (r, s')" "fs_ok (files s)"
    and "is_base (files s) (backupDir (config s)) d" "\<not> overwrites cmd s"
  shows "only_entries d (files s) (files s')"
  using processCommand_confined[OF assms(1,4)] assms(2,3) by (simp add: confined_def)

theorem commands_confined_witness:
  "\<exists>r s'. processCommand (setFilename ''a.txt'' (setCommand REMOVE CmdMsg)) (sample [] []) = Some (r, s') \<and>
     only_entries [''backup''] sample_fs (files s')"
proof -
  let ?cmd = "setFilename ''a.txt'' (setCommand REMOVE CmdMsg)" and ?s = "sample [] []"
  have r: "ready [''backup''] (?s\<lparr>state := PROCESS_REMOVE\<rparr>)"
    using sample_ready[of "[]" "[]"] by (simp add: ready_def files_def sends_ok_def)
  have n: "c_array (m_filename ?cmd) = Some ''a.txt''" by (rule name_in_message) simp_all
  obtain s' where p: "processCommand ?cmd ?s = Some (SUCCESS, s')"
    using handleRemove_spec[OF n r] by (auto simp: processCommand_def)
  have b: "fs_ok (files ?s)" "is_base (files ?s) (backupDir (config ?s)) [''backup'']"
    using sample_clean by (simp_all add: clean_def)
  have "\<not> overwrites ?cmd ?s" by (simp add: overwrites_def)
  from commands_confined[OF p b this] p show ?thesis by auto
qed

section \<open>Invalid names\<close>

text \<open>
  A SEND, REMOVE or RENAME whose file name the validator rejects is answered with error 107 to
  the requesting client at once: no further datagram is read and no file is touched.
\<close>

theorem invalid_name_rejected:
  assumes "c_array (m_filename cmd) = Some n" "\<not> isValidFilename n"
    and "getCommand cmd \<in> {SEND, REMOVE, RENAME}" "sends_ok s"
  shows "\<exists>s'. processCommand cmd s = Some (SUCCESS, s') \<and> files s' = files s \<and>
    incoming (os s') = incoming (os s) \<and> sent s s' [(currentClientAddr s, reply ACK 107)]"
proof -
  have "\<exists>st. processCommand cmd s = Some (sendResponse (reply ACK 107) (s\<lparr>state := st\<rparr>))"
    using assms(1-3)
    by (auto simp: processCommand_def handleSend_def handleRemove_def handleRename_def Let_def
        toNetworkError_def error_table_def)
  then obtain st where st: "processCommand cmd s = Some (sendResponse (reply ACK 107) (s\<lparr>state := st\<rparr>))"
    by blast
  have "sends_ok (s\<lparr>state := st\<rparr>)" using assms(4) by (simp add: sends_ok_def)
  then obtain s' where "sendResponse (reply ACK 107) (s\<lparr>state := st\<rparr>) = (SUCCESS, s')"
    "same_but_net (s\<lparr>state := st\<rparr>) s'" "sent (s\<lparr>state := st\<rparr>) s' [(currentClientAddr s, reply ACK 107)]"
    "incoming (os s') = incoming (os s)"
    by (rule reply_sent[where m = "reply ACK 107"]) simp
  with st show ?thesis by (auto simp: same_but_net_def files_def sent_def)
qed

theorem invalid_name_rejected_witness:
  "\<exists>s'. processCommand (setFilename ''..'' (setCommand SEND CmdMsg)) (sample [] []) = Some (SUCCESS, s') \<and>
     files s' = sample_fs"
proof -
  have "c_array (m_filename (setFilename ''..'' (setCommand SEND CmdMsg))) = Some ''..''"
    by (rule setFilename_short) (simp_all add: NUL_def)
  moreover have "\<not> isValidFilename ''..''" using isValidFilenameD(5)[of "''..''"] by blast
  moreover have "sends_ok (sample [] [])" using sample_ready[of "[]" "[]"] by (simp add: ready_def)
  ultimately show ?thesis
    using invalid_name_rejected[of "setFilename ''..'' (setCommand SEND CmdMsg)" "''..''" "sample [] []"] by auto
qed

section \<open>Small uploads\<close>

lemma setTimeout_simps [simp]:
  "incoming (os (setTimeout s)) = incoming (os s)" "clock (os (setTimeout s)) = clock (os s)"
  "outgoing (os (setTimeout s)) = outgoing (os s)" "endian (os (setTimeout s)) = endian (os s)"
  "nonblocking (os (setTimeout s)) = nonblocking (os s)"
  "currentClientAddr (setTimeout s) = currentClientAddr s" "files (setTimeout s) = files s"
  "sends_ok (setTimeout s) = sends_ok s"
  by (simp_all add: setTimeout_def set_rcvtimeo_def files_def sends_ok_def)

text \<open>What a received datagram leaves in a zeroed data message.\<close>

definition payload :: "string \<Rightarrow> string" where
  "payload d = overlay (zeros DATA_BUF_LEN) (take DATA_BUF_LEN d)"

lemma payload_full: "length d = DATA_BUF_LEN \<Longrightarrow> payload d = d"
  by (simp add: payload_def)

lemma c_array_payload:
  "NUL \<notin> set n \<Longrightarrow> length n < 3000 \<Longrightarrow> c_array (payload n) = Some n"
  by (simp add: payload_def overlay_def DATA_BUF_LEN_def zeros_def c_array_append_zeros[unfolded zeros_def])

definition count_upload :: "nat \<Rightarrow> metrics \<Rightarrow> metrics" where
  "count_upload z m = recordSendSession (recordBytesReceived (of_nat z) m)"

lemma receiveSmallFile_arrived:
  assumes "sends_ok s" "incoming (os s) = (t, a, dat) # rest" "t \<le> clock (os s)" "dat \<noteq> []"
    and w: "write_file p (take z (payload dat)) (files s) = Some f"
  shows "\<exists>s'. receiveSmallFile p z s = Some (SUCCESS, s') \<and> files s' = f \<and> sends_ok s' \<and>
    config s' = config s \<and> state s' = state s \<and> incoming (os s') = rest \<and>
    metrics_of s' = count_upload z (metrics_of s) \<and>
    sent s s' [(currentClientAddr s, reply ACK 0), (a, reply ACK 0)]"
proof -
  obtain u where u: "sendResponse (reply ACK 0) s = (SUCCESS, u)" "same_but_net s u" "sends_ok u"
    "sent s u [(currentClientAddr s, reply ACK 0)]" "incoming (os u) = incoming (os s)"
    "clock (os s) \<le> clock (os u)"
    using reply_sent[OF assms(1)] by metis
  let ?v = "(setTimeout u)\<lparr>os := (os (setTimeout u))\<lparr>incoming := rest\<rparr>, currentClientAddr := a\<rparr>"
  have r: "receive DATA_BUF_LEN (setTimeout u) = Some (Some (payload dat), ?v)"
    using receive_ready[of "setTimeout u" t a dat rest DATA_BUF_LEN] assms u(5,6)
    by (simp add: payload_def DATA_BUF_LEN_def)
  have fv: "files ?v = files s" "metrics_of ?v = metrics_of s"
    using u(2) by (simp_all add: same_but_net_def files_def setTimeout_def set_rcvtimeo_def)
  let ?x = "(set_files f ?v)\<lparr>metrics_of := count_upload z (metrics_of s)\<rparr>"
  have "sends_ok ?x" using u(3) by (simp add: sends_ok_def set_files_def setTimeout_def set_rcvtimeo_def)
  then obtain s' where s': "sendResponse (reply ACK 0) ?x = (SUCCESS, s')" "same_but_net ?x s'" "sends_ok s'"
    "sent ?x s' [(currentClientAddr ?x, reply ACK 0)]" "incoming (os s') = incoming (os ?x)"
    using reply_sent[of ?x "reply ACK 0"] by metis
  have "receiveSmallFile p z s = Some (SUCCESS, s')"
    using u(1) r w fv s'(1) by (simp add: receiveSmallFile_def count_upload_def)
  moreover have "sent s s' [(currentClientAddr s, reply ACK 0), (a, reply ACK 0)]"
    using s'(4) u(2,4) by (simp add: sent_def same_but_net_def)
  ultimately show ?thesis
    using s'(2,3,5) u(2) fv(2)
    by (simp add: same_but_net_def setTimeout_def set_files_def) (simp add: files_def)
qed

text \<open>
  C4: an upload of at most 3000 bytes under a free valid name, when its data datagram has arrived:
  the announced number of bytes of the datagram becomes the content of that name and of no other,
  it is counted once, and there are two acknowledgements. The second one goes to whoever sent the
  data, which need not be the client that asked.
\<close>

theorem small_upload_stored:
  assumes "c_array (m_filename cmd) = Some n" "ok_name n" "ready d s" "kept s d n = None"
    and "unat (m_size cmd) \<le> 3000"
    and "incoming (os s) = (t, a, dat) # rest" "t \<le> clock (os s)" "length dat = 3000"
  shows "\<exists>s'. handleSend cmd s = Some (SUCCESS, s') \<and> ready d s' \<and>
    kept s' d = (kept s d)(n \<mapsto> take (unat (m_size cmd)) dat) \<and>
    metrics_of s' = count_upload (unat (m_size cmd)) (metrics_of s) \<and>
    sent s s' [(currentClientAddr s, reply ACK 0), (a, reply ACK 0)]"
proof -
  let ?p = "joinPath (backupDir (config s)) n" and ?z = "unat (m_size cmd)"
  have c: "clean (backupDir (config s)) d (files s)" "sends_ok s" using assms(3) by (simp_all add: ready_def)
  obtain f where f: "write_file ?p (take ?z dat) (files s) = Some f"
    using bk.put_total[OF c(1) assms(2)] by blast
  have p: "payload dat = dat" "dat \<noteq> []" using assms(8) by (auto simp: payload_full DATA_BUF_LEN_def)
  obtain s' where s': "receiveSmallFile ?p ?z s = Some (SUCCESS, s')" "files s' = f" "sends_ok s'"
    "config s' = config s" "metrics_of s' = count_upload ?z (metrics_of s)"
    "sent s s' [(currentClientAddr s, reply ACK 0), (a, reply ACK 0)]"
    using receiveSmallFile_arrived[OF c(2) assms(6,7) p(2), of ?p ?z f] f p(1) by auto
  have "handleSend cmd s = Some (SUCCESS, s')"
    using assms(1,2,4,5) s'(1) fileExists_store[OF c(1), of n]
    by (simp add: handleSend_def kept_def receiveFile_def DATA_BUF_LEN_def)
  then show ?thesis
    using s' bk.put_look[OF c(1) assms(2) f] bk.put_inv[OF c(1) assms(2) f]
    by (auto simp: ready_def kept_def)
qed

definition upload_cmd :: "string \<Rightarrow> u32 \<Rightarrow> cmd_msg" where
  "upload_cmd n z = (setFilename n (setCommand SEND CmdMsg))\<lparr>m_size := z\<rparr>"

lemma upload_cmd_simps [simp]:
  "m_size (upload_cmd n z) = z" "getCommand (upload_cmd n z) = SEND"
  "ok_name n \<Longrightarrow> length n \<le> 127 \<Longrightarrow> c_array (m_filename (upload_cmd n z)) = Some n"
  using name_in_message[of n "setCommand SEND CmdMsg"] by (simp_all add: upload_cmd_def)

theorem small_upload_stored_witness:
  "\<exists>s'. handleSend (upload_cmd ''b.txt'' 3) (sample [(5, (1, 2), ''new'' @ zeros 2997)] []) = Some (SUCCESS, s') \<and>
     kept s' [''backup''] = [''a.txt'' \<mapsto> ''old'', ''b.txt'' \<mapsto> ''new'']"
  using small_upload_stored[of "upload_cmd ''b.txt'' 3" "''b.txt''" "[''backup'']"
      "sample [(5, (1, 2), ''new'' @ zeros 2997)] []" 5 "(1, 2)" "''new'' @ zeros 2997" "[]"]
  by (auto simp: sample_ready sample_kept)

text \<open>
  On a socket whose sends are instantaneous and work, a reply is a plain update of the log.
\<close>

definition instant :: "server \<Rightarrow> bool" where
  "instant s \<longleftrightarrow> send_script (os s) = []"

definition log_reply :: "cmd_msg \<Rightarrow> server \<Rightarrow> server" where
  "log_reply m s =
     s\<lparr>os := (os s)\<lparr>outgoing :=
       outgoing (os s) @ [(currentClientAddr s, encode_cmd (endian (os s)) m)]\<rparr>\<rparr>"

lemma instant_reply: "instant s \<Longrightarrow> sendResponse m s = (SUCCESS, log_reply m s)"
  by (simp add: instant_def sendResponse_def send_to_def log_reply_def)

lemma log_reply_simps [simp]:
  "files (log_reply m s) = files s" "instant (log_reply m s) = instant s"
  "config (log_reply m s) = config s" "clock (os (log_reply m s)) = clock (os s)"
  "incoming (os (log_reply m s)) = incoming (os s)" "state (log_reply m s) = state s"
  "nonblocking (os (log_reply m s)) = nonblocking (os s)" "endian (os (log_reply m s)) = endian (os s)"
  "currentClientAddr (log_reply m s) = currentClientAddr s" "metrics_of (log_reply m s) = metrics_of s"
  "shutdownRequested (log_reply m s) = shutdownRequested s" "stop_at (log_reply m s) = stop_at s"
  "outgoing (os (log_reply m s)) = outgoing (os s) @ [(currentClientAddr s, encode_cmd (endian (os s)) m)]"
  "sends_ok (log_reply m s) = sends_ok s"
  by (simp_all add: log_reply_def files_def instant_def sends_ok_def)

lemma instant_setTimeout [simp]: "instant (setTimeout s) = instant s"
  by (simp add: instant_def setTimeout_def set_rcvtimeo_def)

lemma setTimeout_more [simp]:
  "config (setTimeout s) = config s" "state (setTimeout s) = state s"
  "metrics_of (setTimeout s) = metrics_of s" "shutdownRequested (setTimeout s) = shutdownRequested s"
  "stop_at (setTimeout s) = stop_at s"
  by (simp_all add: setTimeout_def)

text \<open>The next datagram is still on its way, or there is none.\<close>

definition not_yet :: "server \<Rightarrow> bool" where
  "not_yet s \<longleftrightarrow> (\<forall>t a d rest. incoming (os s) = (t, a, d) # rest \<longrightarrow> clock (os s) < t)"

lemma small_upload_lost_run:
  assumes "c_array (m_filename cmd) = Some n" "isValidFilename n" "ready d s" "kept s d n = None"
    and "unat (m_size cmd) \<le> 3000"
    and "nonblocking (os s)" "not_yet s" "instant s"
  shows "\<exists>s'. handleSend cmd s = Some (SOCKET_RECV_ERROR, s') \<and> files s' = files s \<and>
    incoming (os s') = incoming (os s) \<and> clock (os s') = clock (os s) \<and>
    metrics_of s' = metrics_of s \<and> state s' = state s \<and>
    shutdownRequested s' = shutdownRequested s \<and> stop_at s' = stop_at s \<and>
    sent s s' [(currentClientAddr s, reply ACK 0), (currentClientAddr s, reply ACK 1)]"
proof -
  have c: "clean (backupDir (config s)) d (files s)" using assms(3) by (simp add: ready_def)
  let ?u = "setTimeout (log_reply (reply ACK 0) s)"
  have "receive DATA_BUF_LEN ?u = Some (None, ?u)"
    using assms(6,7) by (intro receive_not_ready) (simp_all add: not_yet_def)
  then have "receiveSmallFile p z s = Some (SOCKET_RECV_ERROR, log_reply (reply ACK 1) ?u)" for p z
    using assms(8) by (simp add: receiveSmallFile_def instant_reply)
  then have "handleSend cmd s = Some (SOCKET_RECV_ERROR, log_reply (reply ACK 1) ?u)"
    using assms(1,2,4,5) fileExists_store[OF c, of n]
    by (simp add: handleSend_def kept_def receiveFile_def DATA_BUF_LEN_def)
  then show ?thesis by (simp add: sent_def)
qed

text \<open>
  C37: the same upload on the non-blocking socket of the server when the data has not arrived yet:
  the handler does not wait. It sends the acknowledgement the client is waiting for, fails with
  \<open>SOCKET_RECV_ERROR\<close> and reports error 1; nothing is stored and the data, when it comes, is left
  for the main loop. The configured timeout plays no part.
\<close>

theorem small_upload_lost:
  assumes "c_array (m_filename cmd) = Some n" "isValidFilename n" "ready d s" "kept s d n = None"
    and "unat (m_size cmd) \<le> 3000"
    and "nonblocking (os s)" "not_yet s" "instant s"
  shows "\<exists>s'. handleSend cmd s = Some (SOCKET_RECV_ERROR, s') \<and> files s' = files s \<and>
    incoming (os s') = incoming (os s) \<and> clock (os s') = clock (os s) \<and>
    metrics_of s' = metrics_of s \<and>
    sent s s' [(currentClientAddr s, reply ACK 0), (currentClientAddr s, reply ACK 1)]"
  using small_upload_lost_run[OF assms] by blast

theorem small_upload_lost_witness:
  "\<exists>s'. handleSend (upload_cmd ''b.txt'' 3) (sample [(11, (1, 2), ''new'' @ zeros 2997)] []) = Some (SOCKET_RECV_ERROR, s') \<and>
     files s' = sample_fs \<and> clock (os s') = 10"
proof -
  let ?s = "sample [(11, (1, 2), ''new'' @ zeros 2997)] []"
  have "not_yet ?s" "instant ?s" by (simp_all add: not_yet_def instant_def)
  then show ?thesis
    using small_upload_lost[of "upload_cmd ''b.txt'' 3" "''b.txt''" "[''backup'']" ?s]
    by (auto simp: sample_ready sample_kept)
qed

section \<open>Uploads over an existing file\<close>

lemma decode_received:
  "valid_msg m \<Longrightarrow>
     decode_cmd bo (overlay (zeros CMD_MSG_LEN) (take CMD_MSG_LEN (encode_cmd bo m))) = m"
  using cmd_codec.enc_width[of m bo] cmd_codec.dec_enc[of m bo] by simp

lemma encode_nonempty [simp]: "encode_cmd bo m \<noteq> []"
  by (simp add: encode_cmd_def)

lemma CMD_MSG_LEN_pos [simp]: "0 < CMD_MSG_LEN"
  by (simp add: CMD_MSG_LEN_def)

text \<open>The run up to the confirmation, which has arrived.\<close>

lemma handleSend_confirm:
  assumes "c_array (m_filename cmd) = Some n" "isValidFilename n" "ready d s" "kept s d n \<noteq> None"
    and "incoming (os s) = (t, a, encode_cmd (endian (os s)) conf) # rest" "t \<le> clock (os s)"
    and "valid_msg conf"
  obtains s1 bytes where "handleSend cmd s = sendConfirmed bytes s1"
    "decode_cmd (endian (os s1)) bytes = conf"
    "files s1 = files s" "config s1 = config s" "metrics_of s1 = metrics_of s" "sends_ok s1"
    "incoming (os s1) = rest" "currentClientAddr s1 = a" "clock (os s) \<le> clock (os s1)"
    "endian (os s1) = endian (os s)"
    "sent s s1 [(currentClientAddr s, (reply Command.FILE_EXISTS 0)\<lparr>m_size := m_size cmd\<rparr>)]"
proof -
  have c: "clean (backupDir (config s)) d (files s)" "sends_ok s" using assms(3) by (simp_all add: ready_def)
  let ?m = "(reply Command.FILE_EXISTS 0)\<lparr>m_size := m_size cmd\<rparr>"
  obtain u where u: "sendResponse ?m s = (SUCCESS, u)" "same_but_net s u" "sends_ok u"
    "sent s u [(currentClientAddr s, ?m)]" "incoming (os u) = incoming (os s)" "clock (os s) \<le> clock (os u)"
    using reply_sent[OF c(2)] by metis
  let ?v = "(setTimeout u)\<lparr>os := (os (setTimeout u))\<lparr>incoming := rest\<rparr>, currentClientAddr := a\<rparr>"
  let ?b = "overlay (zeros CMD_MSG_LEN) (take CMD_MSG_LEN (encode_cmd (endian (os s)) conf))"
  have r: "receive CMD_MSG_LEN (setTimeout u) = Some (Some ?b, ?v)"
    using receive_ready[of "setTimeout u" t a "encode_cmd (endian (os s)) conf" rest CMD_MSG_LEN] assms u(5,6)
    by simp
  have e: "endian (os u) = endian (os s)" using u(2) by (simp add: same_but_net_def)
  show ?thesis
  proof (rule that[of ?b ?v])
    show "handleSend cmd s = sendConfirmed ?b ?v"
      using assms(1,2,4) u(1) r fileExists_store[OF c(1), of n] by (simp add: handleSend_def kept_def)
    show "files ?v = files s" using u(2) by (simp add: same_but_net_def files_def setTimeout_def set_rcvtimeo_def)
    show "decode_cmd (endian (os ?v)) ?b = conf"
      using decode_received[OF assms(7)] e by (simp add: setTimeout_def set_rcvtimeo_def)
  qed (use u in \<open>simp_all add: same_but_net_def sends_ok_def setTimeout_def set_rcvtimeo_def sent_def\<close>)
qed

text \<open>
  An upload over an existing file is asked back, and an answer that is not OVERWRITE with error
  0 cancels it: the files are untouched, and the last reply, with error 2, goes to whoever answered.
\<close>

theorem overwrite_declined:
  assumes "c_array (m_filename cmd) = Some n" "isValidFilename n" "ready d s" "kept s d n \<noteq> None"
    and "incoming (os s) = (t, a, encode_cmd (endian (os s)) conf) # rest" "t \<le> clock (os s)"
    and "valid_msg conf" "getCommand conf \<noteq> OVERWRITE \<or> m_error conf \<noteq> 0"
  shows "\<exists>s'. handleSend cmd s = Some (SUCCESS, s') \<and> files s' = files s \<and> incoming (os s') = rest \<and>
    sent s s' [(currentClientAddr s, (reply Command.FILE_EXISTS 0)\<lparr>m_size := m_size cmd\<rparr>), (a, reply ACK 2)]"
proof -
  obtain s1 bytes where s1: "handleSend cmd s = sendConfirmed bytes s1"
    "decode_cmd (endian (os s1)) bytes = conf" "files s1 = files s" "sends_ok s1"
    "incoming (os s1) = rest" "currentClientAddr s1 = a" "endian (os s1) = endian (os s)"
    "sent s s1 [(currentClientAddr s, (reply Command.FILE_EXISTS 0)\<lparr>m_size := m_size cmd\<rparr>)]"
    using handleSend_confirm[OF assms(1-7)] by metis
  obtain s' where s': "sendResponse (reply ACK 2) s1 = (SUCCESS, s')" "same_but_net s1 s'"
    "sent s1 s' [(currentClientAddr s1, reply ACK 2)]" "incoming (os s') = incoming (os s1)"
    using reply_sent[OF s1(4)] by metis
  have "handleSend cmd s = Some (SUCCESS, s')"
    using s1(1,2) s'(1) assms(8) by (simp add: sendConfirmed_def)
  then show ?thesis
    using s'(2,3,4) s1 by (auto simp: same_but_net_def sent_def)
qed

theorem overwrite_declined_witness:
  "\<exists>s'. handleSend (upload_cmd ''a.txt'' 3) (sample [(5, (1, 2), encode_cmd LittleEndian (reply OVERWRITE 1))] [])
     = Some (SUCCESS, s') \<and> files s' = sample_fs"
  using overwrite_declined[of "upload_cmd ''a.txt'' 3" "''a.txt''" "[''backup'']"
      "sample [(5, (1, 2), encode_cmd LittleEndian (reply OVERWRITE 1))] []" 5 "(1, 2)" "reply OVERWRITE 1" "[]"]
  by (auto simp: sample_ready sample_kept reply_def)

text \<open>
  C40: the file name in the confirmation is not validated. An upload announced under an existing,
  valid name and confirmed under any other name \<open>m\<close> of at most 127 bytes writes the file that the
  path \<open>m\<close> names, wherever that is: with \<open>..\<close> components it leaves the backup directory.
\<close>

theorem overwrite_name_unchecked:
  assumes "c_array (m_filename cmd) = Some n" "isValidFilename n" "ready d s" "kept s d n \<noteq> None"
    and "conf = (setFilename m (setCommand OVERWRITE CmdMsg))\<lparr>m_size := z\<rparr>"
    and "NUL \<notin> set m" "length m \<le> 127" "unat z \<le> 3000"
    and "incoming (os s) = (t, a, encode_cmd (endian (os s)) conf) # (t', a', dat) # rest"
    and "t \<le> clock (os s)" "t' \<le> clock (os s)" "length dat = 3000"
    and "write_file (joinPath (backupDir (config s)) m) (take (unat z) dat) (files s) = Some f"
  shows "\<exists>s'. handleSend cmd s = Some (SUCCESS, s') \<and> files s' = f"
proof -
  have conf: "valid_msg conf" "getCommand conf = OVERWRITE" "m_error conf = 0" "m_size conf = z"
    "c_array (m_filename conf) = Some m"
    using assms(5-7) by (simp_all add: setFilename_short)
  obtain s1 bytes where s1: "handleSend cmd s = sendConfirmed bytes s1"
    "decode_cmd (endian (os s1)) bytes = conf" "files s1 = files s" "config s1 = config s" "sends_ok s1"
    "incoming (os s1) = (t', a', dat) # rest" "clock (os s) \<le> clock (os s1)"
    using handleSend_confirm[OF assms(1-4) assms(9,10) conf(1)] by metis
  let ?p = "joinPath (backupDir (config s)) m"
  have p: "payload dat = dat" "dat \<noteq> []" using assms(12) by (auto simp: payload_full DATA_BUF_LEN_def)
  have t': "t' \<le> clock (os s1)" using assms(11) s1(7) by simp
  obtain s' where "receiveSmallFile ?p (unat z) s1 = Some (SUCCESS, s')" "files s' = f"
    using receiveSmallFile_arrived[OF s1(5,6) t' p(2), of ?p "unat z" f] assms(13) p(1) s1(3) by auto
  then have "sendConfirmed bytes s1 = Some (SUCCESS, s')"
    using s1(2,4) conf assms(8) by (simp add: sendConfirmed_def receiveFile_def DATA_BUF_LEN_def)
  with s1(1) \<open>files s' = f\<close> show ?thesis by simp
qed

theorem overwrite_name_unchecked_witness:
  "\<exists>s'. handleSend (upload_cmd ''a.txt'' 3) (sample
      [(5, (1, 2), encode_cmd LittleEndian ((setFilename ''../evil'' (setCommand OVERWRITE CmdMsg))\<lparr>m_size := 3\<rparr>)),
       (6, (1, 2), ''bad'' @ zeros 2997)] []) = Some (SUCCESS, s') \<and>
     lookup (files s') [''evil''] = Some (RegularFile ''bad'')"
proof -
  let ?conf = "(setFilename ''../evil'' (setCommand OVERWRITE CmdMsg))\<lparr>m_size := 3\<rparr>"
  let ?s = "sample [(5, (1, 2), encode_cmd LittleEndian ?conf), (6, (1, 2), ''bad'' @ zeros 2997)] []"
  have r: "resolve sample_fs (joinPath ''backup'' ''../evil'') = Some [''evil'']"
    by (simp add: sample_fs_def resolve_def lookup_def joinPath_def is_sep_def slash_def backslash_def c_str_def NUL_def)
  have l: "lookup sample_fs [''evil''] = None" "writable sample_fs [''evil'']"
    by (simp_all add: sample_fs_def lookup_def)
  let ?f = "set_node [''evil''] (RegularFile ''bad'') sample_fs"
  have w: "write_file (joinPath ''backup'' ''../evil'') ''bad'' sample_fs = Some ?f"
    using r l by (simp add: write_file_def)
  have "NUL \<notin> set ''../evil''" by (simp add: NUL_def)
  then obtain s' where "handleSend (upload_cmd ''a.txt'' 3) ?s = Some (SUCCESS, s')" "files s' = ?f"
    using overwrite_name_unchecked[where cmd = "upload_cmd ''a.txt'' 3" and n = "''a.txt''" and d = "[''backup'']"
        and s = ?s and conf = ?conf and m = "''../evil''" and z = 3 and t = 5 and a = "(1, 2)" and t' = 6
        and a' = "(1, 2)" and dat = "''bad'' @ zeros 2997" and rest = "[]" and f = ?f] w
    by (auto simp: sample_ready sample_kept)
  then show ?thesis by (auto simp: lookup_set_node)
qed

end
