(* ===== verification/Server_Transfer.thy ===== *)
theory Server_Transfer
  imports Server_Spec
begin

text \<open>
  Uploads of more than 3000 bytes over a TCP connection: the receive loop, and what becomes of
  complete, truncated and stalled transfers.
\<close>

section \<open>Large uploads\<close>

text \<open>
  The receive loop on a stream that ends: it always returns, with a prefix of the stream, and it
  stops only once it has enough or the stream is used up.
\<close>

lemma recvLoop_closes:
  assumes "\<forall>x \<in> set segments. x \<noteq> []"
  shows "\<exists>content. recvLoop z segments PeerCloses w = Some content \<and>
    prefix w content \<and> prefix content (w @ concat segments) \<and>
    (z \<le> length content \<or> content = w @ concat segments) \<and>
    (content = w \<or> length content < z + 3000)"
  using assms
proof (induction z segments "PeerCloses" w rule: recvLoop.induct)
  case (1 z segments w)
  show ?case
  proof (cases "length w < z \<and> segments \<noteq> []")
    case False
    then show ?thesis by (subst recvLoop.simps) (auto simp: recv_def split: list.splits)
  next
    case True
    then obtain x xs where seg: "segments = x # xs" by (cases segments) auto
    define rest where "rest = (if length x \<le> 3000 then xs else drop 3000 x # xs)"
    have r: "recv 3000 segments PeerCloses = Some (take 3000 x, rest)"
      by (simp add: recv_def seg rest_def)
    have x: "x \<noteq> []" and ne: "\<forall>y \<in> set rest. y \<noteq> []"
      using "1.prems" by (auto simp: seg rest_def)
    have cat: "take 3000 x @ concat rest = concat segments" by (simp add: seg rest_def)
    have "\<exists>content. recvLoop z rest PeerCloses (w @ take 3000 x) = Some content \<and>
        prefix (w @ take 3000 x) content \<and> prefix content ((w @ take 3000 x) @ concat rest) \<and>
        (z \<le> length content \<or> content = (w @ take 3000 x) @ concat rest) \<and>
        (content = w @ take 3000 x \<or> length content < z + 3000)"
      using "1.hyps"[OF _ r] True x ne by simp
    then obtain content where c: "recvLoop z rest PeerCloses (w @ take 3000 x) = Some content"
      "prefix (w @ take 3000 x) content" "prefix content (w @ concat segments)"
      "z \<le> length content \<or> content = w @ concat segments"
      "content = w @ take 3000 x \<or> length content < z + 3000"
      using cat by auto
    have "recvLoop z segments PeerCloses w = Some content"
      using True x r c(1) by (subst recvLoop.simps) simp
    moreover have "prefix w content" using c(2) by (metis append_prefixD)
    moreover have "length content < z + 3000" using c(5) True by (elim disjE) auto
    ultimately show ?thesis using c by blast
  qed
qed

text \<open>A peer that stays connected and silent before it has sent enough blocks the server for ever.\<close>

lemma recvLoop_silent:
  assumes "\<forall>x \<in> set segments. x \<noteq> []"
  shows "recvLoop z segments PeerSilent w = None \<longleftrightarrow> length (w @ concat segments) < z"
  using assms
proof (induction z segments "PeerSilent" w rule: recvLoop.induct)
  case (1 z segments w)
  show ?case
  proof (cases "length w < z \<and> segments \<noteq> []")
    case False
    then show ?thesis by (subst recvLoop.simps) (auto simp: recv_def split: list.splits)
  next
    case True
    then obtain x xs where seg: "segments = x # xs" by (cases segments) auto
    define rest where "rest = (if length x \<le> 3000 then xs else drop 3000 x # xs)"
    have r: "recv 3000 segments PeerSilent = Some (take 3000 x, rest)"
      by (simp add: recv_def seg rest_def)
    have x: "x \<noteq> []" and ne: "\<forall>y \<in> set rest. y \<noteq> []"
      using "1.prems" by (auto simp: seg rest_def)
    have cat: "length (take 3000 x) + length (concat rest) = length (concat segments)"
      by (auto simp: seg rest_def)
    have "recvLoop z rest PeerSilent (w @ take 3000 x) = None \<longleftrightarrow>
        length ((w @ take 3000 x) @ concat rest) < z"
      using "1.hyps"[OF _ r] True x ne by simp
    moreover have "recvLoop z segments PeerSilent w = recvLoop z rest PeerSilent (w @ take 3000 x)"
      using True x r by (subst recvLoop.simps) simp
    ultimately show ?thesis using cat by simp
  qed
qed

text \<open>
  The server is blocked for ever by an upload that was announced with more bytes than the client
  sends before it falls silent with the connection open, and only by such a one: no timeout is set
  on the TCP socket.
\<close>

theorem silent_upload_blocks:
  assumes "c_array (m_filename cmd) = Some n" "ok_name n" "ready d s" "kept s d n = None"
    and "3000 < unat (m_size cmd)" "sessions s = Connected segments PeerSilent # ss"
    and "\<forall>x \<in> set segments. x \<noteq> []"
  shows "handleSend cmd s = None \<longleftrightarrow> length (concat segments) < unat (m_size cmd)"
proof -
  let ?p = "joinPath (backupDir (config s)) n" and ?z = "unat (m_size cmd)"
  have c: "clean (backupDir (config s)) d (files s)" "sends_ok s" using assms(3) by (simp_all add: ready_def)
  let ?t = "s\<lparr>sessions := ss\<rparr>" and ?m = "(reply ACK 0)\<lparr>m_size := ucast (currentTcpPort s)\<rparr>"
  have "sends_ok ?t" using c(2) by (simp add: sends_ok_def)
  then obtain u where u: "sendResponse ?m ?t = (SUCCESS, u)" "same_but_net ?t u"
    by (rule reply_sent[where m = ?m])
  have fu: "files u = files s" using u(2) by (simp add: same_but_net_def files_def)
  obtain f where f: "write_file ?p [] (files s) = Some f" using bk.put_total[OF c(1) assms(2)] by blast
  have w: "write_file ?p content f \<noteq> None" for content
    using bk.put_total[OF c(1) assms(2), of content] write_file_overwrite[OF f, of content] by auto
  have "handleSend cmd s = receiveLargeFile ?p ?z s"
    using assms(1-5) fileExists_store[OF c(1), of n]
    by (simp add: handleSend_def kept_def receiveFile_def DATA_BUF_LEN_def)
  also have "\<dots> = None \<longleftrightarrow> recvLoop ?z segments PeerSilent [] = None"
    using u(1) f fu w assms(6)
  proof (cases "recvLoop ?z segments PeerSilent []")
    case None
    then show ?thesis using u(1) f fu assms(6) by (simp add: receiveLargeFile_def nextSession_def)
  next
    case (Some content)
    obtain g where "write_file ?p content f = Some g" using w[of content] by blast
    then show ?thesis using Some u(1) f fu assms(6) by (simp add: receiveLargeFile_def nextSession_def Let_def)
  qed
  finally show ?thesis using recvLoop_silent[OF assms(7), of ?z "[]"] by simp
qed

theorem silent_upload_blocks_witness:
  "handleSend (upload_cmd ''b.txt'' 3002) (sample [] [Connected [''abc''] PeerSilent]) = None"
  using silent_upload_blocks[where cmd = "upload_cmd ''b.txt'' 3002" and n = "''b.txt''" and d = "[''backup'']"
      and s = "sample [] [Connected [''abc''] PeerSilent]" and segments = "[''abc'']" and ss = "[]"]
  by (simp add: sample_ready sample_kept)


lemma large_upload:
  assumes "c_array (m_filename cmd) = Some n" "ok_name n" "ready d s" "kept s d n = None"
    and "3000 < unat (m_size cmd)" "sessions s = Connected segments PeerCloses # ss"
    and "recvLoop (unat (m_size cmd)) segments PeerCloses [] = Some content"
  shows "\<exists>s'. handleSend cmd s = Some (SUCCESS, s') \<and> ready d s' \<and>
    kept s' d = (kept s d)(n \<mapsto> content) \<and>
    metrics_of s' = count_upload (length content) (metrics_of s) \<and>
    currentTcpPort s' = currentTcpPort s + 1 \<and>
    sent s s' (replicate 2 (currentClientAddr s, (reply ACK 0)\<lparr>m_size := ucast (currentTcpPort s)\<rparr>))"
proof -
  let ?p = "joinPath (backupDir (config s)) n" and ?z = "unat (m_size cmd)"
  have c: "clean (backupDir (config s)) d (files s)" "sends_ok s" using assms(3) by (simp_all add: ready_def)
  let ?t = "s\<lparr>sessions := ss\<rparr>" and ?m = "(reply ACK 0)\<lparr>m_size := ucast (currentTcpPort s)\<rparr>"
  have "sends_ok ?t" using c(2) by (simp add: sends_ok_def)
  then obtain u where u: "sendResponse ?m ?t = (SUCCESS, u)" "same_but_net ?t u" "sends_ok u"
    "sent ?t u [(currentClientAddr ?t, ?m)]" "currentClientAddr u = currentClientAddr ?t"
    by (rule reply_sent[where m = ?m])
  have fu: "files u = files s" "currentTcpPort u = currentTcpPort s" "metrics_of u = metrics_of s"
    "config u = config s"
    using u(2) by (simp_all add: same_but_net_def files_def)
  obtain o0 where o: "write_file ?p [] (files s) = Some o0" using bk.put_total[OF c(1) assms(2)] by blast
  obtain f where f: "write_file ?p content (files s) = Some f" using bk.put_total[OF c(1) assms(2)] by blast
  have f': "write_file ?p content o0 = Some f" using write_file_overwrite[OF o] f by simp
  let ?v = "(set_files f u)\<lparr>metrics_of := count_upload (length content) (metrics_of s), currentTcpPort := currentTcpPort s + 1\<rparr>"
  have "sends_ok ?v" using u(3) by (simp add: sends_ok_def set_files_def)
  then obtain s' where s': "sendResponse ?m ?v = (SUCCESS, s')" "same_but_net ?v s'" "sends_ok s'"
    "sent ?v s' [(currentClientAddr ?v, ?m)]"
    by (rule reply_sent[where m = ?m])
  have "handleSend cmd s = receiveLargeFile ?p ?z s"
    using assms(1-5) fileExists_store[OF c(1), of n]
    by (simp add: handleSend_def kept_def receiveFile_def DATA_BUF_LEN_def)
  also have "\<dots> = Some (SUCCESS, s')"
    using u(1) fu o f' s'(1) assms(6,7)
    by (simp add: receiveLargeFile_def nextSession_def count_upload_def Let_def)
  finally have "handleSend cmd s = Some (SUCCESS, s')" .
  moreover have "files s' = f" "config s' = config s" "currentTcpPort s' = currentTcpPort s + 1"
    "metrics_of s' = count_upload (length content) (metrics_of s)"
    using s'(2) fu by (simp_all add: same_but_net_def files_def set_files_def)
  moreover have "sent s s' (replicate 2 (currentClientAddr s, ?m))"
    using s'(4) u(2,4,5) by (simp add: sent_def same_but_net_def numeral_2_eq_2)
  ultimately show ?thesis
    using s'(3) bk.put_look[OF c(1) assms(2) f] bk.put_inv[OF c(1) assms(2) f]
    by (auto simp: ready_def kept_def)
qed

text \<open>
  C3: a large upload that the client completes: however the stream is cut into segments, the file
  has exactly the bytes of the stream, it is counted, the next transfer uses the next port (modulo
  \<open>2 ^ 16\<close>), and the client is told the port and then success.
\<close>

theorem large_upload_stored:
  assumes "c_array (m_filename cmd) = Some n" "ok_name n" "ready d s" "kept s d n = None"
    and "3000 < unat (m_size cmd)" "sessions s = Connected segments PeerCloses # ss"
    and "\<forall>x \<in> set segments. x \<noteq> []" "length (concat segments) = unat (m_size cmd)"
  shows "\<exists>s'. handleSend cmd s = Some (SUCCESS, s') \<and> ready d s' \<and>
    kept s' d = (kept s d)(n \<mapsto> concat segments) \<and>
    metrics_of s' = count_upload (unat (m_size cmd)) (metrics_of s) \<and>
    currentTcpPort s' = currentTcpPort s + 1 \<and>
    sent s s' (replicate 2 (currentClientAddr s, (reply ACK 0)\<lparr>m_size := ucast (currentTcpPort s)\<rparr>))"
proof -
  obtain content where c: "recvLoop (unat (m_size cmd)) segments PeerCloses [] = Some content"
    "prefix content (concat segments)"
    "unat (m_size cmd) \<le> length content \<or> content = concat segments"
    using recvLoop_closes[OF assms(7), of "unat (m_size cmd)" "[]"] by auto
  then obtain zs where "concat segments = content @ zs" by (auto simp: prefix_def)
  then have "content = concat segments" using c(3) assms(8) by (cases zs) auto
  with c(1) show ?thesis using large_upload[OF assms(1-6)] assms(8) by simp
qed

theorem large_upload_stored_witness:
  "\<exists>s'. handleSend (upload_cmd ''b.txt'' 3002)
       (sample [] [Connected [replicate 3001 (CHR ''x''), ''y''] PeerCloses]) = Some (SUCCESS, s') \<and>
     kept s' [''backup''] = [''a.txt'' \<mapsto> ''old'', ''b.txt'' \<mapsto> replicate 3001 (CHR ''x'') @ ''y'']"
  using large_upload_stored[where cmd = "upload_cmd ''b.txt'' 3002" and n = "''b.txt''" and d = "[''backup'']"
      and s = "sample [] [Connected [replicate 3001 (CHR ''x''), ''y''] PeerCloses]"
      and segments = "[replicate 3001 (CHR ''x''), ''y'']" and ss = "[]"]
  by (auto simp: sample_ready sample_kept)


text \<open>
  C39: a large upload that breaks off is acknowledged like a complete one. When the connection ends
  before the announced number of bytes has come, the partial file is kept under its final name,
  counted as a finished transfer, and the client receives success.
\<close>

theorem truncated_upload_acknowledged:
  assumes "c_array (m_filename cmd) = Some n" "ok_name n" "ready d s" "kept s d n = None"
    and "3000 < unat (m_size cmd)" "sessions s = Connected segments PeerCloses # ss"
    and "\<forall>x \<in> set segments. x \<noteq> []" "length (concat segments) < unat (m_size cmd)"
  shows "\<exists>s'. handleSend cmd s = Some (SUCCESS, s') \<and>
    kept s' d n = Some (concat segments) \<and>
    metrics_of s' = count_upload (length (concat segments)) (metrics_of s) \<and>
    sent s s' (replicate 2 (currentClientAddr s, (reply ACK 0)\<lparr>m_size := ucast (currentTcpPort s)\<rparr>))"
proof -
  obtain content where c: "recvLoop (unat (m_size cmd)) segments PeerCloses [] = Some content"
    "prefix content (concat segments)"
    "unat (m_size cmd) \<le> length content \<or> content = concat segments"
    using recvLoop_closes[OF assms(7), of "unat (m_size cmd)" "[]"] by auto
  then have "content = concat segments" using assms(8) prefix_length_le[OF c(2)] by auto
  with c(1) show ?thesis using large_upload[OF assms(1-6)] by fastforce
qed

theorem truncated_upload_acknowledged_witness:
  "\<exists>s'. handleSend (upload_cmd ''b.txt'' 3002) (sample [] [Connected [''abc''] PeerCloses]) = Some (SUCCESS, s') \<and>
     kept s' [''backup''] ''b.txt'' = Some ''abc''"
  using truncated_upload_acknowledged[where cmd = "upload_cmd ''b.txt'' 3002" and n = "''b.txt''"
      and d = "[''backup'']" and s = "sample [] [Connected [''abc''] PeerCloses]" and segments = "[''abc'']" and ss = "[]"]
  by (auto simp: sample_ready sample_kept)


end
