(* ===== verification/Server_Loop.thy ===== *)
theory Server_Loop
  imports Server_Spec
begin

text \<open>
  The main loop: it waits for the next datagram, serves it, and ends on SHUTDOWN or when another
  thread asks it to. The states it passes through are a reachability relation, over which the
  confinement of single commands becomes an invariant of the whole run.
\<close>

section \<open>Waiting\<close>

definition at_clock :: "nat \<Rightarrow> server \<Rightarrow> server" where
  "at_clock c s = s\<lparr>os := (os s)\<lparr>clock := c\<rparr>\<rparr>"

lemma at_clock_simps [simp]:
  "files (at_clock c s) = files s" "config (at_clock c s) = config s"
  "incoming (os (at_clock c s)) = incoming (os s)" "clock (os (at_clock c s)) = c"
  "nonblocking (os (at_clock c s)) = nonblocking (os s)" "endian (os (at_clock c s)) = endian (os s)"
  "stop_at (at_clock c s) = stop_at s" "shutdownRequested (at_clock c s) = shutdownRequested s"
  "instant (at_clock c s) = instant s" "sends_ok (at_clock c s) = sends_ok s"
  "metrics_of (at_clock c s) = metrics_of s" "state (at_clock c s) = state s"
  "at_clock c' (at_clock c s) = at_clock c' s" "at_clock (clock (os s)) s = s"
  "currentClientAddr (at_clock c s) = currentClientAddr s"
  by (simp_all add: at_clock_def files_def instant_def sends_ok_def)

text \<open>\<open>serveNext\<close>: receive the datagram at the head of the queue and serve it.\<close>

definition fetched :: "(nat \<times> addr \<times> string) list \<Rightarrow> addr \<Rightarrow> server \<Rightarrow> server" where
  "fetched rest a s = s\<lparr>os := (os s)\<lparr>incoming := rest\<rparr>, currentClientAddr := a\<rparr>"

lemma fetched_simps [simp]:
  "files (fetched rest a s) = files s" "config (fetched rest a s) = config s"
  "incoming (os (fetched rest a s)) = rest" "clock (os (fetched rest a s)) = clock (os s)"
  "nonblocking (os (fetched rest a s)) = nonblocking (os s)" "endian (os (fetched rest a s)) = endian (os s)"
  "stop_at (fetched rest a s) = stop_at s" "shutdownRequested (fetched rest a s) = shutdownRequested s"
  "instant (fetched rest a s) = instant s" "sends_ok (fetched rest a s) = sends_ok s"
  "metrics_of (fetched rest a s) = metrics_of s" "state (fetched rest a s) = state s"
  "currentClientAddr (fetched rest a s) = a"
  by (simp_all add: fetched_def files_def instant_def sends_ok_def)

definition command_in :: "byte_order \<Rightarrow> string \<Rightarrow> cmd_msg" where
  "command_in bo d = decode_cmd bo (overlay (zeros CMD_MSG_LEN) (take CMD_MSG_LEN d))"

lemma loopBody_ready:
  assumes "incoming (os s) = (t, a, d) # rest" "t \<le> clock (os s) + 100" "d \<noteq> []"
  shows "loopBody s =
    serveCommand (command_in (endian (os s)) d) (fetched rest a (at_clock (max (clock (os s)) t) s))"
proof -
  let ?s = "at_clock (max (clock (os s)) t) s"
  have "select 100 (os s) = (True, os ?s)" using assms by (simp add: select_def at_clock_def)
  moreover have "receive CMD_MSG_LEN ?s =
      Some (Some (overlay (zeros CMD_MSG_LEN) (take CMD_MSG_LEN d)), fetched rest a ?s)"
    using receive_ready[of ?s t a d rest CMD_MSG_LEN] assms by (simp add: fetched_def)
  ultimately show ?thesis
    by (simp add: loopBody_def at_clock_def command_in_def fetched_def)
qed

lemma loopBody_idle:
  assumes "\<forall>t a d rest. incoming (os s) = (t, a, d) # rest \<longrightarrow> clock (os s) + 100 < t"
  shows "loopBody s = Some (False, at_clock (clock (os s) + 100) s)"
proof -
  have "select 100 (os s) = (False, os (at_clock (clock (os s) + 100) s))"
    using assms by (auto simp: select_def at_clock_def split: list.splits)
  then show ?thesis by (simp add: loopBody_def at_clock_def)
qed

lemma runLoop_continue:
  "\<not> stopRequested s \<Longrightarrow> loopBody s = Some (False, s') \<Longrightarrow> runLoop s = runLoop s'"
  by (subst runLoop.simps) simp

lemma runLoop_leave:
  "\<not> stopRequested s \<Longrightarrow> loopBody s = Some (True, s') \<Longrightarrow> runLoop s = Some s'"
  by (subst runLoop.simps) simp

text \<open>With nobody to stop it, the loop polls until the next datagram is there.\<close>

lemma runLoop_waits:
  assumes "incoming (os s) = (t, a, d) # rest" "\<not> shutdownRequested s" "stop_at s = None"
  shows "\<exists>c. runLoop s = runLoop (at_clock c s) \<and> t \<le> c + 100 \<and> clock (os s) \<le> c \<and> (c = clock (os s) \<or> c < t)"
  using assms
proof (induction "t - clock (os s)" arbitrary: s rule: less_induct)
  case less
  show ?case
  proof (cases "t \<le> clock (os s) + 100")
    case True
    then show ?thesis by (intro exI[of _ "clock (os s)"]) simp
  next
    case False
    let ?s = "at_clock (clock (os s) + 100) s"
    have "loopBody s = Some (False, ?s)" using less.prems False by (intro loopBody_idle) simp
    then have e: "runLoop s = runLoop ?s"
      using less.prems by (intro runLoop_continue) (simp_all add: stopRequested_def)
    have "t - clock (os ?s) < t - clock (os s)" using False by simp
    from less.hyps[OF this] less.prems obtain c where
      "runLoop ?s = runLoop (at_clock c ?s)" "t \<le> c + 100" "clock (os ?s) \<le> c" "c = clock (os ?s) \<or> c < t"
      by auto
    with e False show ?thesis by (intro exI[of _ c]) auto
  qed
qed

text \<open>So the next datagram is served, at its time of arrival or now.\<close>

lemma runLoop_serves:
  assumes "incoming (os s) = (t, a, d) # rest" "\<not> shutdownRequested s" "stop_at s = None" "d \<noteq> []"
  shows "runLoop s =
    Option.bind (serveCommand (command_in (endian (os s)) d) (fetched rest a (at_clock (max (clock (os s)) t) s)))
      (\<lambda>(leave, s'). if leave then Some s' else runLoop s')"
proof -
  obtain c where c: "runLoop s = runLoop (at_clock c s)" "t \<le> c + 100" "clock (os s) \<le> c"
    "c = clock (os s) \<or> c < t" using runLoop_waits[OF assms(1-3)] by blast
  then have m: "max c t = max (clock (os s)) t" by auto
  have "loopBody (at_clock c s) = serveCommand (command_in (endian (os s)) d)
      (fetched rest a (at_clock (max (clock (os s)) t) s))"
    using loopBody_ready[of "at_clock c s" t a d rest] assms(1,4) c(2) by (simp add: m)
  moreover have "\<not> stopRequested (at_clock c s)" using assms(2,3) by (simp add: stopRequested_def)
  ultimately show ?thesis unfolding c(1) by (subst runLoop.simps) simp
qed

section \<open>The run around the loop\<close>

text \<open>
  \<open>http_idle\<close>: the management server is off or its thread has not been started; \<open>http_ends\<close>: it is
  off, or its \<open>listen\<close> fails or returns after \<open>stop\<close>. \<open>loop_start\<close> is the time at which the loop is
  entered, \<open>drain_time\<close> how long the end of a run waits for the thread, \<open>begun\<close> the state in which the
  loop starts.
\<close>

definition http_idle :: "server \<Rightarrow> bool" where
  "http_idle s \<longleftrightarrow> (case httpServer s of None \<Rightarrow> True | Some l \<Rightarrow> \<not> http_running l \<and> \<not> joinable l)"

definition http_ends :: "server \<Rightarrow> bool" where
  "http_ends s \<longleftrightarrow> (case httpServer s of None \<Rightarrow> True | Some l \<Rightarrow> listens l \<longrightarrow> drains l \<noteq> None)"

definition loop_start :: "server \<Rightarrow> nat" where
  "loop_start s = clock (os s) + (case httpServer s of None \<Rightarrow> 0 | Some l \<Rightarrow> 100)"

definition drain_time :: "server \<Rightarrow> nat" where
  "drain_time s =
     (case httpServer s of None \<Rightarrow> 0 | Some l \<Rightarrow> if listens l then (case drains l of None \<Rightarrow> 0 | Some k \<Rightarrow> k) else 0)"

definition begun :: "server \<Rightarrow> server" where
  "begun s =
     (case startHttp (s\<lparr>running := True, state := WAITING\<rparr>) of None \<Rightarrow> s | Some (h, u) \<Rightarrow> u)"

lemma http_off [simp]:
  "httpServer s = None \<Longrightarrow> http_idle s" "httpServer s = None \<Longrightarrow> http_ends s"
  "httpServer s = None \<Longrightarrow> loop_start s = clock (os s)" "httpServer s = None \<Longrightarrow> drain_time s = 0"
  "httpServer s = None \<Longrightarrow> begun s = s\<lparr>running := True, state := WAITING\<rparr>"
  by (simp_all add: http_idle_def http_ends_def loop_start_def drain_time_def begun_def startHttp_def)

lemma begun_keeps:
  "files (begun s) = files s" "config (begun s) = config s" "incoming (os (begun s)) = incoming (os s)"
  "nonblocking (os (begun s)) = nonblocking (os s)" "endian (os (begun s)) = endian (os s)"
  "stop_at (begun s) = stop_at s" "shutdownRequested (begun s) = shutdownRequested s"
  "instant (begun s) = instant s" "sends_ok (begun s) = sends_ok s"
  by (simp_all add: begun_def startHttp_def httpStart_def files_def instant_def sends_ok_def split: option.splits)

lemma begun_clock: "http_idle s \<Longrightarrow> clock (os (begun s)) = loop_start s"
  by (cases "httpServer s")
    (simp_all add: http_idle_def begun_def startHttp_def httpStart_def loop_start_def)

text \<open>A loop that returns makes a run that returns, later by the time the thread takes to end.\<close>

lemma run_of_loop:
  assumes "http_idle s" "http_ends s" "runLoop (begun s) = Some u"
  shows "\<exists>s'. run s = Some (SUCCESS, s') \<and> \<not> running s' \<and> files s' = files u \<and>
    incoming (os s') = incoming (os u) \<and> clock (os s') = clock (os u) + drain_time s"
  using assms
  by (auto simp: run_def http_idle_def http_ends_def begun_def startHttp_def httpStart_def stopHttp_def
      httpStop_def drain_time_def files_def split: option.splits if_splits)

lemma stopHttp_files: "stopHttp h u = Some v \<Longrightarrow> files v = files u"
  by (auto simp: stopHttp_def httpStop_def files_def bind_eq_Some_conv split: option.splits if_splits)

lemma run_is_loop:
  assumes "run s = Some (r, s')"
  shows "\<exists>u. runLoop (begun s) = Some u \<and> files s' = files u \<and> r = SUCCESS"
proof -
  obtain h v u w where r: "startHttp (s\<lparr>running := True, state := WAITING\<rparr>) = Some (h, v)"
    "runLoop v = Some u" "stopHttp h u = Some w" "r = SUCCESS" "s' = w\<lparr>running := False\<rparr>"
    using assms by (auto simp: run_def bind_eq_Some_conv)
  have "begun s = v" using r(1) by (simp add: begun_def)
  then show ?thesis using r(2,4,5) stopHttp_files[OF r(3)] by (simp add: files_def)
qed

section \<open>Shutdown\<close>

lemma serve_shutdown:
  assumes "getCommand cmd = Command.SHUTDOWN"
  shows "\<exists>s'. serveCommand cmd s = Some (True, s') \<and> files s' = files s \<and> shutdownRequested s' \<and>
    incoming (os s') = incoming (os s)"
proof -
  let ?s = "s\<lparr>metrics_of := recordRequest (commandToString Command.SHUTDOWN) (metrics_of s), state := SHUTDOWN\<rparr>"
  let ?t = "snd (sendResponse (reply ACK 0) ?s)"
  have "same_but_net ?s ?t" by (rule sendResponse_same)
  moreover have "incoming (os ?t) = incoming (os s)"
    by (simp add: sendResponse_def case_prod_unfold)
  moreover have "serveCommand cmd s = Some (True, ?t\<lparr>shutdownRequested := True\<rparr>)"
    using assms calculation(1)
    by (simp add: serveCommand_def processCommand_def handleShutdown_def same_but_net_def)
  ultimately show ?thesis
    by (intro exI[of _ "?t\<lparr>shutdownRequested := True\<rparr>"]) (simp add: same_but_net_def files_def)
qed

lemma command_in_first_byte:
  "getCommand (command_in bo (CHR 0x06 # d)) = Command.SHUTDOWN"
  using getCommand_data[of "CHR 0x06 # d" bo]
  by (simp add: command_in_def command_of_code_def command_table_def)

text \<open>
  A datagram whose first byte is 6, from any sender and at any time, ends the server: it stops
  waiting, \<open>run\<close> returns success once the management server's thread has ended, no file is touched and
  nothing after the datagram is read. There is no check of the sender or of the length of the message.
\<close>

theorem byte_6_ends_server:
  assumes "incoming (os s) = (t, a, CHR 0x06 # d) # rest" "\<not> shutdownRequested s" "stop_at s = None"
    and "http_idle s" "http_ends s"
  shows "\<exists>s'. run s = Some (SUCCESS, s') \<and> \<not> running s' \<and> files s' = files s \<and> incoming (os s') = rest"
proof -
  let ?s = "begun s"
  let ?f = "fetched rest a (at_clock (max (clock (os ?s)) t) ?s)"
  obtain s' where s': "serveCommand (command_in (endian (os s)) (CHR 0x06 # d)) ?f = Some (True, s')"
    "files s' = files ?f" "incoming (os s') = incoming (os ?f)"
    using serve_shutdown[OF command_in_first_byte] by blast
  have "runLoop ?s = Some s'"
    using runLoop_serves[of ?s t a "CHR 0x06 # d" rest] assms(1-3) s'(1) by (simp add: begun_keeps)
  then show ?thesis using run_of_loop[OF assms(4,5)] s'(2,3) by (auto simp: begun_keeps)
qed

text \<open>
  C38: a lost small upload becomes a command. A client sends a valid SEND for a new small file and,
  some time later and after the main loop has started, its data. The server has given up by then and
  reads the data as a command; when the file starts with the byte 6, the server shuts down (it returns
  once the management server's thread, if it runs, has ended), and the file is not stored.
\<close>

theorem upload_shuts_server_down:
  assumes "cmd = (setFilename n (setCommand SEND CmdMsg))\<lparr>m_size := z\<rparr>" "NUL \<notin> set n" "length n \<le> 127"
    and "isValidFilename n" "ready d s" "kept s d n = None" "unat z \<le> 3000"
    and "nonblocking (os s)" "instant s" "\<not> shutdownRequested s" "stop_at s = None"
    and "incoming (os s) = [(t1, a, encode_cmd (endian (os s)) cmd), (t2, a, CHR 0x06 # content)]"
    and "loop_start s < t2" "t1 < t2" "http_idle s" "http_ends s"
  shows "\<exists>s'. run s = Some (SUCCESS, s') \<and> \<not> running s' \<and> files s' = files s"
proof -
  let ?s = "begun s"
  let ?rest = "[(t2, a, CHR 0x06 # content)]"
  let ?f = "fetched ?rest a (at_clock (max (loop_start s) t1) ?s)"
  have cmd: "valid_msg cmd" "getCommand cmd = SEND" "c_array (m_filename cmd) = Some n" "m_size cmd = z"
    using assms(1-3) by (simp_all add: setFilename_short)
  let ?g = "?f\<lparr>metrics_of := recordRequest (commandToString SEND) (metrics_of ?f), state := PROCESS_SEND\<rparr>"
  have g: "ready d ?g" "kept ?g d = kept s d" "nonblocking (os ?g)" "not_yet ?g" "instant ?g"
    "config ?g = config s" "files ?g = files s"
    using assms begun_keeps[of s]
    by (auto simp: ready_def kept_def not_yet_def files_def instant_def sends_ok_def fetched_def at_clock_def)
  have zs: "unat (m_size cmd) \<le> 3000" using assms(7) cmd(4) by simp
  have "kept ?g d n = None" using assms(6) g(2) by simp
  from small_upload_lost_run[OF cmd(3) assms(4) g(1) this zs g(3-5)] obtain u where u:
    "handleSend cmd ?g = Some (SOCKET_RECV_ERROR, u)" "files u = files ?g" "incoming (os u) = incoming (os ?g)"
    "shutdownRequested u = shutdownRequested ?g" "stop_at u = stop_at ?g" "state u = state ?g" by blast
  let ?v = "u\<lparr>metrics_of := recordError (commandToString SEND) (errorCodeToString SOCKET_RECV_ERROR) (metrics_of u), state := WAITING\<rparr>"
  have "command_in (endian (os s)) (encode_cmd (endian (os s)) cmd) = cmd"
    using decode_received[OF cmd(1)] by (simp add: command_in_def)
  then have r1: "runLoop ?s = runLoop ?v"
    using runLoop_serves[of ?s t1 a "encode_cmd (endian (os s)) cmd" ?rest] assms(10-12) cmd(2) u
      begun_clock[OF assms(15)]
    by (simp add: begun_keeps serveCommand_def processCommand_def)
  have v: "incoming (os ?v) = (t2, a, CHR 0x06 # content) # []" "\<not> shutdownRequested ?v" "stop_at ?v = None"
    using u(3-5) assms(10,11) by (simp_all add: begun_keeps)
  let ?h = "fetched [] a (at_clock (max (clock (os ?v)) t2) ?v)"
  obtain s' where s': "serveCommand (command_in (endian (os ?v)) (CHR 0x06 # content)) ?h = Some (True, s')"
    "files s' = files ?h"
    using serve_shutdown[OF command_in_first_byte] by blast
  have "runLoop ?v = Some s'" using runLoop_serves[OF v] s'(1) by simp
  moreover have "files s' = files s" using s'(2) u(2) g(7) by (simp add: files_def fetched_def at_clock_def)
  ultimately show ?thesis using r1 run_of_loop[OF assms(15,16)] by auto
qed

theorem upload_shuts_server_down_witness:
  "\<exists>s'. run (sample [(11, (1, 2), encode_cmd LittleEndian (upload_cmd ''b.txt'' 3)),
      (12, (1, 2), CHR 0x06 # ''abc'')] []) = Some (SUCCESS, s') \<and> files s' = sample_fs"
  using upload_shuts_server_down[where n = "''b.txt''" and z = 3 and d = "[''backup'']" and ?t1.0 = 11 and ?t2.0 = 12
      and a = "(1, 2)" and content = "''abc''" and cmd = "upload_cmd ''b.txt'' 3"
      and s = "sample [(11, (1, 2), encode_cmd LittleEndian (upload_cmd ''b.txt'' 3)), (12, (1, 2), CHR 0x06 # ''abc'')] []"]
    sample_names(2)
  by (auto simp: sample_ready sample_kept upload_cmd_def instant_def ok_name_def NUL_def)

lemma runLoop_idle:
  assumes "stop_at s = Some t" "incoming (os s) = []" "\<not> shutdownRequested s"
  shows "\<exists>c. runLoop s = Some (at_clock c s) \<and>
    (if t \<le> clock (os s) then c = clock (os s) else t \<le> c \<and> c < t + 100)"
  using assms
proof (induction "t - clock (os s)" arbitrary: s rule: less_induct)
  case less
  show ?case
  proof (cases "t \<le> clock (os s)")
    case True
    then have "runLoop s = Some s" using less.prems by (subst runLoop.simps) (simp add: stopRequested_def)
    then show ?thesis using True by (intro exI[of _ "clock (os s)"]) simp
  next
    case False
    let ?s = "at_clock (clock (os s) + 100) s"
    have "loopBody s = Some (False, ?s)" using less.prems by (intro loopBody_idle) simp
    then have "runLoop s = runLoop ?s"
      using less.prems False by (intro runLoop_continue) (simp_all add: stopRequested_def)
    moreover have "t - clock (os ?s) < t - clock (os s)" using False by simp
    from less.hyps[OF this] less.prems obtain c where
      "runLoop ?s = Some (at_clock c ?s)"
      "if t \<le> clock (os ?s) then c = clock (os ?s) else t \<le> c \<and> c < t + 100" by auto
    ultimately show ?thesis using False by (intro exI[of _ c]) (auto split: if_splits)
  qed
qed

text \<open>
  C17: a server with nothing to do leaves its loop less than 100 milliseconds after a shutdown request,
  or at once when the request is there before the loop starts. It then waits for the thread of the
  management server, if that is enabled and listens, and returns with success, having touched no file itself (requests over HTTP are not part of a run); the
  loop starts 100 milliseconds later when the management server is enabled. If the thread listens and never
  ends after it is told to stop, \<open>run\<close> never returns.
\<close>

theorem idle_server_stops:
  assumes "stop_at s = Some t" "incoming (os s) = []" "\<not> shutdownRequested s" "http_idle s"
  shows "if http_ends s
    then \<exists>s'. run s = Some (SUCCESS, s') \<and> \<not> running s' \<and> files s' = files s \<and>
      (if t \<le> loop_start s then clock (os s') = loop_start s + drain_time s
       else t + drain_time s \<le> clock (os s') \<and> clock (os s') < t + 100 + drain_time s)
    else run s = None"
proof -
  obtain c where c: "runLoop (begun s) = Some (at_clock c (begun s))"
    "if t \<le> loop_start s then c = loop_start s else t \<le> c \<and> c < t + 100"
    using runLoop_idle[of "begun s" t] assms begun_clock[OF assms(4)] by (auto simp: begun_keeps)
  show ?thesis
  proof (cases "http_ends s")
    case True
    then show ?thesis using run_of_loop[OF assms(4) True c(1)] c(2) by (auto simp: begun_keeps)
  next
    case False
    then have "run s = None" using c(1) assms(4)
      by (auto simp: run_def http_idle_def http_ends_def begun_def startHttp_def httpStart_def stopHttp_def
          httpStop_def at_clock_def split: option.splits if_splits)
    with False show ?thesis by simp
  qed
qed

text \<open>With the management server, which takes 7 milliseconds to end; and when it never ends.\<close>

theorem idle_server_stops_witness:
  "(\<exists>s'. run ((sample [] [])\<lparr>stop_at := Some 950, httpServer := Some (HttpLife True (Some 7))\<rparr>) =
      Some (SUCCESS, s') \<and> 957 \<le> clock (os s') \<and> clock (os s') < 1057) \<and>
   run ((sample [] [])\<lparr>stop_at := Some 950, httpServer := Some (HttpLife True None)\<rparr>) = None"
  using idle_server_stops[of "(sample [] [])\<lparr>stop_at := Some 950, httpServer := Some (HttpLife True (Some 7))\<rparr>" 950]
    idle_server_stops[of "(sample [] [])\<lparr>stop_at := Some 950, httpServer := Some (HttpLife True None)\<rparr>" 950]
  by (auto simp: http_idle_def http_ends_def loop_start_def drain_time_def HttpLife_def)

section \<open>Confinement of a whole run\<close>

text \<open>The states at the head of the loop that a run starting in a given state passes through.\<close>

inductive reach :: "server \<Rightarrow> server \<Rightarrow> bool" where
  reach_here: "reach s s"
| reach_step: "\<not> stopRequested s \<Longrightarrow> loopBody s = Some (leave, u) \<Longrightarrow> reach u v \<Longrightarrow> reach s v"

text \<open>The command the loop is about to serve is an upload over an existing file.\<close>

definition risky :: "server \<Rightarrow> bool" where
  "risky s \<longleftrightarrow>
     (case select 100 (os s) of
        (avail, w) \<Rightarrow>
          avail \<and>
          (case receive CMD_MSG_LEN (s\<lparr>os := w\<rparr>) of
             Some (Some bytes, u) \<Rightarrow> overwrites (decode_cmd (endian (os u)) bytes) u
           | _ \<Rightarrow> False))"

lemma confined_refl [simp]: "confined s s"
  by (simp add: same_confined)

lemma os_update_confined: "fs w = fs (os s) \<Longrightarrow> confined s (s\<lparr>os := w\<rparr>)"
  by (simp add: confined_def files_def only_entries_refl)

lemma serveCommand_confined:
  assumes "serveCommand cmd s = Some (leave, s')" "\<not> overwrites cmd s"
  shows "confined s s'"
proof -
  let ?s = "s\<lparr>metrics_of := recordRequest (commandToString (getCommand cmd)) (metrics_of s)\<rparr>"
  obtain r u where u: "processCommand cmd ?s = Some (r, u)"
    and s': "files s' = files u" "config s' = config u"
  proof -
    obtain r u where u: "processCommand cmd ?s = Some (r, u)"
      using assms(1) by (auto simp: serveCommand_def Let_def bind_eq_Some_conv)
    define v where "v = (if r \<noteq> SUCCESS \<and> getCommand cmd \<noteq> Command.SHUTDOWN
              then u\<lparr>metrics_of := recordError (commandToString (getCommand cmd)) (errorCodeToString r) (metrics_of u)\<rparr>
              else u)"
    have "s' = v \<or> s' = v\<lparr>state := WAITING\<rparr>"
      using assms(1) u by (auto simp: serveCommand_def Let_def v_def split: if_splits)
    then have "files s' = files u" "config s' = config u" by (auto simp: v_def files_def)
    with u show ?thesis by (rule that)
  qed
  have "\<not> overwrites cmd ?s" using assms(2) by (auto simp: overwrites_def files_def split: option.splits)
  then have "confined ?s u" by (rule processCommand_confined[OF u])
  moreover have "confined u s'"
    using s' by (simp add: confined_def only_entries_refl)
  ultimately show ?thesis using metrics_confined(1) confined_trans by blast
qed

lemma loopBody_confined:
  assumes "loopBody s = Some (leave, s')" "\<not> risky s"
  shows "confined s s'"
proof -
  obtain avail w where w: "select 100 (os s) = (avail, w)" by (cases "select 100 (os s)")
  then have "fs w = fs (os s)" using fs_after_calls(4)[of 100 "os s"] by simp
  then have sw: "confined s (s\<lparr>os := w\<rparr>)" by (rule os_update_confined)
  show ?thesis
  proof (cases avail)
    case False
    with assms(1) w sw show ?thesis by (simp add: loopBody_def)
  next
    case True
    then obtain msg u where u: "receive CMD_MSG_LEN (s\<lparr>os := w\<rparr>) = Some (msg, u)"
      using assms(1) w by (auto simp: loopBody_def bind_eq_Some_conv)
    have su: "confined s u" using sw receive_confined[OF u] by (rule confined_trans)
    show ?thesis
    proof (cases msg)
      case None
      with assms(1) w True u su show ?thesis by (simp add: loopBody_def)
    next
      case (Some bytes)
      then have "serveCommand (decode_cmd (endian (os u)) bytes) u = Some (leave, s')"
        using assms(1) w True u by (simp add: loopBody_def)
      moreover have "\<not> overwrites (decode_cmd (endian (os u)) bytes) u"
        using assms(2) w True u Some by (simp add: risky_def)
      ultimately show ?thesis using su serveCommand_confined confined_trans by blast
    qed
  qed
qed

lemma runLoop_reach: "runLoop s = Some s' \<Longrightarrow> reach s s'"
proof (rule runLoop.raw_induct[of "\<lambda>s s'. reach s s'"])
  fix loop s s'
  assume ih: "\<And>s s'. loop s = Some s' \<Longrightarrow> reach s s'"
    and e: "(if stopRequested s then Some s
      else Option.bind (loopBody s) (\<lambda>(leave, s'). if leave then Some s' else loop s')) = Some s'"
  show "reach s s'"
  proof (cases "stopRequested s")
    case True
    with e show ?thesis by (simp add: reach_here)
  next
    case False
    then obtain leave u where u: "loopBody s = Some (leave, u)" "if leave then u = s' else loop u = Some s'"
      using e by (auto simp: bind_eq_Some_conv split: if_splits)
    then have "reach u s'" using ih reach_here by (auto split: if_splits)
    with False u(1) show ?thesis by (rule reach_step)
  qed
qed

lemma reach_confined: "reach s s' \<Longrightarrow> \<forall>u. reach s u \<longrightarrow> \<not> risky u \<Longrightarrow> confined s s'"
proof (induction rule: reach.induct)
  case (reach_step s leave u v)
  have "\<not> risky s" using reach_step.prems reach_here by blast
  then have "confined s u" by (rule loopBody_confined[OF reach_step.hyps(2)])
  moreover have "confined u v"
    using reach_step.IH reach_step.prems reach.reach_step[OF reach_step.hyps(1,2)] by blast
  ultimately show ?case by (rule confined_trans)
qed simp



lemma reach_stopped: "stopRequested s \<Longrightarrow> reach s u \<Longrightarrow> u = s"
  by (auto elim: reach.cases)

lemma risky_ready:
  assumes "incoming (os s) = (t, a, d) # rest" "t \<le> clock (os s) + 100" "d \<noteq> []"
  shows "risky s \<longleftrightarrow>
    overwrites (command_in (endian (os s)) d) (fetched rest a (at_clock (max (clock (os s)) t) s))"
proof -
  let ?s = "at_clock (max (clock (os s)) t) s"
  have "select 100 (os s) = (True, os ?s)" using assms by (simp add: select_def at_clock_def)
  moreover have "s\<lparr>os := os ?s\<rparr> = ?s" by (simp add: at_clock_def)
  moreover have "receive CMD_MSG_LEN ?s =
      Some (Some (overlay (zeros CMD_MSG_LEN) (take CMD_MSG_LEN d)), fetched rest a ?s)"
    using receive_ready[of ?s t a d rest CMD_MSG_LEN] assms by (simp add: fetched_def)
  ultimately show ?thesis by (simp add: risky_def command_in_def)
qed

lemma idle_not_risky: "incoming (os s) = [] \<Longrightarrow> \<not> risky s"
  by (simp add: risky_def select_def)

text \<open>
  C10: confinement of a run. As long as no upload over an existing file comes up, a run of the
  server of any length, under any traffic, that returns has changed nothing in the file system but
  entries directly inside the backup directory, and the tree is well-formed.
\<close>

theorem run_confined:
  assumes "run s = Some (r, s')" "fs_ok (files s)" "is_base (files s) (backupDir (config s)) d"
    and "\<forall>u. reach (begun s) u \<longrightarrow> \<not> risky u"
  shows "only_entries d (files s) (files s')"
proof -
  obtain u where u: "runLoop (begun s) = Some u" "files s' = files u" using run_is_loop[OF assms(1)] by blast
  have "confined (begun s) u" using runLoop_reach[OF u(1)] assms(4) by (rule reach_confined)
  then show ?thesis using assms(2,3) u(2) by (simp add: confined_def begun_keeps)
qed

theorem run_confined_witness:
  "\<exists>s'. run (sample [(5, (1, 2), [CHR 0x06])] []) = Some (SUCCESS, s') \<and>
     only_entries [''backup''] sample_fs (files s')"
proof -
  let ?s = "(sample [(5, (1, 2), [CHR 0x06])] [])\<lparr>running := True, state := WAITING\<rparr>"
  let ?cmd = "command_in LittleEndian [CHR 0x06]"
  obtain v where v: "serveCommand ?cmd (fetched [] (1, 2) (at_clock 10 ?s)) = Some (True, v)"
    "shutdownRequested v" "incoming (os v) = []"
    using serve_shutdown[OF command_in_first_byte[of LittleEndian "[]"], of "fetched [] (1, 2) (at_clock 10 ?s)"] by auto
  have body: "loopBody ?s = Some (True, v)"
    using loopBody_ready[of ?s 5 "(1, 2)" "[CHR 0x06]" "[]"] v(1) by simp
  have start: "\<not> stopRequested ?s" by (simp add: stopRequested_def)
  have ran: "run (sample [(5, (1, 2), [CHR 0x06])] []) = Some (SUCCESS, v\<lparr>running := False\<rparr>)"
    using runLoop_leave[OF start body] by (simp add: run_def startHttp_def stopHttp_def)
  have s: "\<not> risky ?s"
    using risky_ready[of ?s 5 "(1, 2)" "[CHR 0x06]" "[]"] command_in_first_byte[of LittleEndian "[]"]
    by (simp add: overwrites_def)
  have "\<not> risky u" if r: "reach ?s u" for u
  proof -
    consider "u = ?s" | (go) leave w where "loopBody ?s = Some (leave, w)" "reach w u"
      using r by (cases rule: reach.cases) auto
    then show ?thesis
    proof cases
      case 1
      then show ?thesis using s by simp
    next
      case go
      then have "w = v" using body by simp
      then have "u = v" using go(2) v(2) by (auto dest: reach_stopped[rotated] simp: stopRequested_def)
      with v(3) show ?thesis by (simp add: idle_not_risky)
    qed
  qed
  moreover have "fs_ok (files (sample [(5, (1, 2), [CHR 0x06])] []))"
    "is_base (files (sample [(5, (1, 2), [CHR 0x06])] [])) (backupDir (config (sample [(5, (1, 2), [CHR 0x06])] []))) [''backup'']"
    using sample_clean by (simp_all add: clean_def)
  ultimately have "only_entries [''backup''] (files (sample [(5, (1, 2), [CHR 0x06])] [])) (files (v\<lparr>running := False\<rparr>))"
    by (intro run_confined[OF ran]) simp_all
  with ran show ?thesis by simp
qed

end
