(* ===== verification/System.thy ===== *)
theory System
  imports Client Server_Transfer Server_Loop
begin

text \<open>
  Client and server together: the bytes one side sends are the bytes the other side reads. Both run
  on machines of the same byte order.
\<close>

section \<open>A remove command from the user to the store\<close>

text \<open>
  C8: REMOVE end to end. The server, given the datagram the client sends for a name of at most 127
  characters, removes that name from the store if it is valid and there; and the client, given the
  datagram the server answers with, reports success exactly when a file was removed, a missing file
  when there was none, and a failure for an invalid name.
\<close>

theorem remove_end_to_end:
  assumes "ready d s" "NUL \<notin> set name" "length name \<le> 127" "endian (os s) = bo"
    and "d1 = encode_cmd bo (setFilename name (setCommand REMOVE CmdMsg))"
  shows "\<exists>s' d2. serveCommand (command_in bo d1) s = Some (False, s') \<and>
    outgoing (os s') = outgoing (os s) @ [(currentClientAddr s, d2)] \<and>
    kept s' d = (if isValidFilename name then (kept s d)(name := None) else kept s d) \<and>
    (\<forall>c t a. answered c t a d2 \<and> endian (c_os c) = bo \<longrightarrow>
      (\<exists>c'. Client.handleRemove name c =
        Some (if \<not> isValidFilename name then FILE_DELETE_ERROR
              else if kept s d name \<noteq> None then SUCCESS else FILE_NOT_FOUND, c') \<and>
        outgoing (c_os c') = outgoing (c_os c) @ [(serverAddr c, d1)]))"
proof -
  let ?cmd = "setFilename name (setCommand REMOVE CmdMsg)"
  let ?e = "if \<not> isValidFilename name then 107 else if kept s d name \<noteq> None then 0 else 1 :: u16"
  let ?s = "s\<lparr>metrics_of := recordRequest (commandToString REMOVE) (metrics_of s), state := PROCESS_REMOVE\<rparr>"
  have cmd: "command_in bo d1 = ?cmd" "getCommand ?cmd = REMOVE" "c_array (m_filename ?cmd) = Some name"
    using assms(2,3,5) decode_received[of ?cmd bo] by (simp_all add: command_in_def setFilename_short)
  have r: "ready d ?s" "kept ?s d = kept s d" "currentClientAddr ?s = currentClientAddr s" "os ?s = os s"
    using assms(1) by (simp_all add: ready_def kept_def files_def sends_ok_def)
  obtain u where u: "Server.handleRemove ?cmd ?s = Some (SUCCESS, u)"
    "kept u d = (if isValidFilename name then (kept s d)(name := None) else kept s d)"
    "sent ?s u [(currentClientAddr s, reply ACK ?e)]" "state u = PROCESS_REMOVE"
    using handleRemove_spec[OF cmd(3) r(1)] unfolding r(2,3) by auto
  let ?d2 = "encode_cmd bo (reply ACK ?e)"
  have "serveCommand (command_in bo d1) s = Some (False, u\<lparr>state := ServerState.WAITING\<rparr>)"
    using u(1,4) cmd(1,2) by (simp add: serveCommand_def processCommand_def)
  moreover have "outgoing (os u) = outgoing (os s) @ [(currentClientAddr s, ?d2)]"
    using u(3) assms(4) r(4) by (simp add: sent_def)
  moreover have "\<exists>c'. Client.handleRemove name c =
        Some (if \<not> isValidFilename name then FILE_DELETE_ERROR
              else if kept s d name \<noteq> None then SUCCESS else FILE_NOT_FOUND, c') \<and>
        outgoing (c_os c') = outgoing (c_os c) @ [(serverAddr c, d1)]"
    if "answered c t a ?d2 \<and> endian (c_os c) = bo" for c t a
    using remove_answer[of c t a "reply ACK ?e" name] that assms(5)
    by (auto simp: reply_def)
  moreover have "kept (u\<lparr>state := ServerState.WAITING\<rparr>) d =
      (if isValidFilename name then (kept s d)(name := None) else kept s d)"
    using u(2) by (simp add: kept_def files_def)
  moreover have "os (u\<lparr>state := ServerState.WAITING\<rparr>) = os u" by simp
  ultimately show ?thesis by metis
qed

theorem remove_end_to_end_witness:
  "\<exists>s' d2. serveCommand (command_in LittleEndian
       (encode_cmd LittleEndian (setFilename ''a.txt'' (setCommand REMOVE CmdMsg)))) (sample [] []) = Some (False, s') \<and>
     outgoing (os s') = outgoing (os (sample [] [])) @ [(currentClientAddr (sample [] []), d2)] \<and>
     kept s' [''backup''] = Map.empty"
proof -
  have "isValidFilename ''a.txt''" using sample_names(1) by (simp add: ok_name_def)
  then show ?thesis
    using remove_end_to_end[OF sample_ready sample_names(3) _ _ refl, of "[]" "[]" LittleEndian]
    by (fastforce simp: sample_kept)
qed

section \<open>A large file from disk to disk\<close>

text \<open>
  C2: a large upload end to end. If every \<open>send\<close> of the client takes its whole buffer, then however
  TCP cuts the stream into segments, the file that the server stores under the announced name has
  exactly the content of the client's file, for any file of more than 3000 bytes and less than 4 GiB
  whose name is valid and new on the server.
\<close>

theorem upload_end_to_end:
  assumes "\<forall>x \<in> set script. \<exists>k \<ge> 3000. x = Some k" "3000 < length content" "length content < 2 ^ 32"
    and "sendLoop (length content) content (zeros 3000) script 0 [] = (finished, wire)"
    and "cmd = (setFilename n (setCommand SEND CmdMsg))\<lparr>m_size := of_nat (length content)\<rparr>"
    and "ok_name n" "length n \<le> 127" "ready d s" "kept s d n = None"
    and "sessions s = Connected segments PeerCloses # ss" "concat segments = wire"
    and "\<forall>x \<in> set segments. x \<noteq> []"
  shows "\<exists>s'. finished \<and> Server.handleSend cmd s = Some (SUCCESS, s') \<and>
    kept s' d = (kept s d)(n \<mapsto> content)"
proof -
  have w: "finished" "wire = content" using assms(4) full_sends[OF assms(1)] by simp_all
  have nul: "NUL \<notin> set n" using isValidFilenameD(3)[of n] assms(6) by simp
  have z: "unat (m_size cmd) = length content" using assms(3,5) by (simp add: unat_of_nat)
  have name: "c_array (m_filename cmd) = Some n" using assms(5,7) nul by (simp add: setFilename_short)
  have "3000 < unat (m_size cmd)" using z assms(2) by simp
  note up = large_upload[OF name assms(6,8,9) this assms(10)]
  obtain stored where c: "recvLoop (unat (m_size cmd)) segments PeerCloses [] = Some stored"
    "prefix stored (concat segments)"
    "unat (m_size cmd) \<le> length stored \<or> stored = concat segments"
    using recvLoop_closes[OF assms(12), of "unat (m_size cmd)" "[]"] by auto
  then obtain zs where "concat segments = stored @ zs" by (auto simp: prefix_def)
  then have "stored = content" using c(3) z assms(11) w(2) by (cases zs) auto
  with up[OF c(1)] w(1) show ?thesis by blast
qed

theorem upload_end_to_end_witness:
  "\<exists>s'. Server.handleSend (upload_cmd ''b.txt'' 3001)
       (sample [] [Connected [replicate 2000 (CHR ''x''), replicate 1001 (CHR ''x'')] PeerCloses]) = Some (SUCCESS, s') \<and>
     kept s' [''backup''] ''b.txt'' = Some (replicate 3001 (CHR ''x''))"
proof -
  let ?x = "replicate 3001 (CHR ''x'')"
  have "sendLoop (length ?x) ?x (zeros 3000) [Some 3000] 0 [] = (True, ?x)"
    by (rule full_sends) simp_all
  moreover have "concat [replicate 2000 (CHR ''x''), replicate 1001 (CHR ''x'')] = ?x"
    by (simp flip: replicate_add)
  ultimately show ?thesis
    using upload_end_to_end[where script = "[Some 3000]" and content = ?x and finished = True and wire = ?x
        and cmd = "upload_cmd ''b.txt'' 3001" and n = "''b.txt''" and d = "[''backup'']" and ss = "[]"
        and s = "sample [] [Connected [replicate 2000 (CHR ''x''), replicate 1001 (CHR ''x'')] PeerCloses]"
        and segments = "[replicate 2000 (CHR ''x''), replicate 1001 (CHR ''x'')]"]
    by (auto simp: sample_ready sample_kept upload_cmd_def)
qed

text \<open>
  A file of 4 GiB or more is cut. The size in the message has 32 bits; the server stops after
  that many bytes (and at most one buffer), stores this prefix, and acknowledges it as complete.
\<close>

theorem huge_upload_cut:
  assumes "2 ^ 32 \<le> length content" "3000 < length content mod 2 ^ 32"
    and "cmd = (setFilename n (setCommand SEND CmdMsg))\<lparr>m_size := of_nat (length content)\<rparr>"
    and "ok_name n" "length n \<le> 127" "ready d s" "kept s d n = None"
    and "sessions s = Connected segments PeerCloses # ss" "concat segments = content"
    and "\<forall>x \<in> set segments. x \<noteq> []"
  shows "\<exists>s' stored. Server.handleSend cmd s = Some (SUCCESS, s') \<and> kept s' d = (kept s d)(n \<mapsto> stored) \<and>
    prefix stored content \<and> length content mod 2 ^ 32 \<le> length stored \<and>
    length stored < length content mod 2 ^ 32 + 3000 \<and>
    sent s s' (replicate 2 (currentClientAddr s, (reply ACK 0)\<lparr>m_size := ucast (currentTcpPort s)\<rparr>))"
proof -
  have nul: "NUL \<notin> set n" using isValidFilenameD(3)[of n] assms(4) by simp
  have z: "unat (m_size cmd) = length content mod 2 ^ 32" using assms(3) by (simp add: unat_of_nat)
  have name: "c_array (m_filename cmd) = Some n" using assms(3,5) nul by (simp add: setFilename_short)
  have "3000 < unat (m_size cmd)" using z assms(2) by simp
  note up = large_upload[OF name assms(4,6,7) this assms(8)]
  obtain stored where c: "recvLoop (unat (m_size cmd)) segments PeerCloses [] = Some stored"
    "prefix stored (concat segments)"
    "unat (m_size cmd) \<le> length stored \<or> stored = concat segments"
    "stored = [] \<or> length stored < unat (m_size cmd) + 3000"
    using recvLoop_closes[OF assms(10), of "unat (m_size cmd)" "[]"] by auto
  have "length content mod 2 ^ 32 \<le> length content" by (rule mod_less_eq_dividend)
  then have "length content mod 2 ^ 32 \<le> length stored" using c(3) z assms(9) by auto
  moreover have "length stored < length content mod 2 ^ 32 + 3000" using c(4) z by auto
  ultimately show ?thesis using up[OF c(1)] c(2) assms(9) by blast
qed

theorem huge_upload_cut_witness:
  "\<exists>s' stored. Server.handleSend (upload_cmd ''b.txt'' 3001)
       (sample [] [Connected [replicate (2 ^ 32 + 3001) (CHR ''x'')] PeerCloses]) = Some (SUCCESS, s') \<and>
     kept s' [''backup''] = [''a.txt'' \<mapsto> ''old'', ''b.txt'' \<mapsto> stored] \<and> length stored < 6001"
proof -
  have n: "(of_nat (2 ^ 32 + 3001) :: u32) = 3001" by simp
  let ?x = "replicate (2 ^ 32 + 3001) (CHR ''x'')"
  have l: "length ?x = 2 ^ 32 + 3001" by (rule length_replicate)
  have m: "(2 ^ 32 + 3001 :: nat) mod 2 ^ 32 = 3001" by simp
  have ne: "?x \<noteq> []" using l by (metis add_is_0 list.size(3) zero_neq_numeral)
  define x where "x = ?x"
  have x: "length x = 2 ^ 32 + 3001" "x \<noteq> []" unfolding x_def by (rule l, rule ne)
  have "upload_cmd ''b.txt'' 3001 = (setFilename ''b.txt'' (setCommand SEND CmdMsg))\<lparr>m_size := of_nat (length x)\<rparr>"
    unfolding x(1) n upload_cmd_def ..
  moreover have "2 ^ 32 \<le> length x" "3000 < length x mod 2 ^ 32" "length x mod 2 ^ 32 = 3001"
    unfolding x(1) m by simp_all
  ultimately show ?thesis
    using huge_upload_cut[where content = x and cmd = "upload_cmd ''b.txt'' 3001" and n = "''b.txt''"
        and d = "[''backup'']" and s = "sample [] [Connected [x] PeerCloses]" and segments = "[x]" and ss = "[]"] x(2)
    unfolding x_def[symmetric] by (auto simp: sample_ready sample_kept)
qed

end
