(* ===== verification/Listing.thy ===== *)
theory Listing
  imports Client Server_Spec
begin

text \<open>
  The LS listing at both ends: the names the server packs into one data message, the loop of
  \<open>Client::handleLs\<close> that takes them apart, and the listing of the backup directory.
\<close>

section \<open>Packing\<close>

text \<open>The names that get a place: those that still fit when their turn comes.\<close>

fun placedNames :: "string list \<Rightarrow> nat \<Rightarrow> string list" where
  "placedNames [] offset = []"
| "placedNames (n # ns) offset =
     (if offset + length n + 1 < DATA_BUF_LEN then n # placedNames ns (offset + length n + 1)
      else placedNames ns offset)"

definition packed :: "string list \<Rightarrow> string" where
  "packed ns = concat (map (\<lambda>n. n @ [NUL]) ns)"

lemma packed_simps [simp]: "packed [] = []" "packed (n # ns) = n @ NUL # packed ns"
  by (simp_all add: packed_def)

lemma packNames_eq:
  assumes "\<forall>n \<in> set ns. NUL \<notin> set n" "length pre < DATA_BUF_LEN"
  shows "packNames ns (length pre) (pre @ zeros (DATA_BUF_LEN - length pre)) =
      pre @ packed (placedNames ns (length pre)) @
        zeros (DATA_BUF_LEN - length pre - length (packed (placedNames ns (length pre)))) \<and>
    length pre + length (packed (placedNames ns (length pre))) < DATA_BUF_LEN"
  using assms
proof (induction ns arbitrary: pre)
  case (Cons n ns)
  show ?case
  proof (cases "length pre + length n + 1 < DATA_BUF_LEN")
    case True
    let ?p = "pre @ n @ [NUL]"
    have w: "write_at (length pre) (c_str n @ [NUL]) (pre @ zeros (DATA_BUF_LEN - length pre)) =
        ?p @ zeros (DATA_BUF_LEN - length ?p)"
      using Cons.prems True by (simp add: write_at_def diff_diff_add)
    have "length ?p < DATA_BUF_LEN" using True by simp
    from Cons.IH[OF _ this] Cons.prems True show ?thesis
      unfolding packNames.simps if_P[OF True] w by (simp add: add.assoc)
  next
    case False
    with Cons show ?thesis by simp
  qed
qed simp

lemma parse_packed:
  assumes "\<forall>n \<in> set ns. NUL \<notin> set n \<and> n \<noteq> []" "0 < k"
  shows "parseListing (packed ns @ zeros k) = Some ns"
  using assms(1)
proof (induction ns)
  case Nil
  obtain j where "zeros k = NUL # zeros j" using assms(2) by (cases k) (auto simp: zeros_def)
  then show ?case by (subst parseListing.simps) simp
next
  case (Cons n ns)
  obtain c cs where n: "n = c # cs" "c \<noteq> NUL" using Cons.prems by (cases n) auto
  have "c_array (packed (n # ns) @ zeros k) = Some n" using Cons.prems by simp
  then show ?case using Cons n by (subst parseListing.simps) simp
qed

lemma placedNames_subset: "set (placedNames ns k) \<subseteq> set ns"
  by (induction ns k rule: placedNames.induct) auto

lemma placedNames_all: "k + length (packed ns) < DATA_BUF_LEN \<Longrightarrow> placedNames ns k = ns"
  by (induction ns k rule: placedNames.induct) auto

lemma parse_pack:
  assumes "\<forall>n \<in> set ns. NUL \<notin> set n \<and> n \<noteq> []"
  shows "parseListing (packNames ns 0 DataMsg) = Some (placedNames ns 0) \<and>
    length (packNames ns 0 DataMsg) = 3000 \<and>
    (length (packed ns) < 3000 \<longrightarrow> placedNames ns 0 = ns)"
proof -
  let ?k = "DATA_BUF_LEN - length (packed (placedNames ns 0))"
  have p: "packNames ns 0 DataMsg = packed (placedNames ns 0) @ zeros ?k" "0 < ?k"
    using packNames_eq[of ns "[]"] assms by (simp_all add: DataMsg_def DATA_BUF_LEN_def)
  have "\<forall>n \<in> set (placedNames ns 0). NUL \<notin> set n \<and> n \<noteq> []"
    using assms placedNames_subset[of ns 0] by blast
  then show ?thesis
    using parse_packed[OF _ p(2)] p placedNames_all[of 0 ns] by (simp add: DATA_BUF_LEN_def)
qed

text \<open>
  The listing round-trips. Whatever legal names the server lists, the packed message has exactly
  3000 bytes, the client's loop ends inside it and prints the names that were given a place, in
  order; when names and terminators take less than 3000 bytes that is all of them.
\<close>

theorem listing_roundtrip:
  assumes "\<forall>n \<in> set ns. NUL \<notin> set n \<and> n \<noteq> []"
  shows "parseListing (packNames ns 0 DataMsg) = Some (placedNames ns 0) \<and>
    length (packNames ns 0 DataMsg) = 3000 \<and>
    (length (packed ns) < 3000 \<longrightarrow> placedNames ns 0 = ns)"
  by (rule parse_pack[OF assms])

theorem listing_roundtrip_witness:
  "parseListing (packNames [''a.txt'', ''b.txt''] 0 DataMsg) = Some [''a.txt'', ''b.txt'']"
  using listing_roundtrip[of "[''a.txt'', ''b.txt'']"] by (simp add: NUL_def)

section \<open>The listing of the backup directory\<close>

lemma children_iff:
  "fs_wf f \<Longrightarrow> n \<in> set (children f d) \<longleftrightarrow> lookup f (d @ [n]) \<noteq> None"
proof -
  assume wf: "fs_wf f"
  have "n \<in> set (children f d) \<longleftrightarrow> (\<exists>x. (d @ [n], x) \<in> set (nodes f))"
  proof
    assume "n \<in> set (children f d)"
    then obtain q x where "(q, x) \<in> set (nodes f)" "q \<noteq> []" "butlast q = d" "n = last q"
      by (auto simp: children_def)
    then show "\<exists>x. (d @ [n], x) \<in> set (nodes f)" by (metis append_butlast_last_id)
  qed (force simp: children_def)
  then show ?thesis using fs_wf_member[OF wf] by auto
qed

lemma distinct_children: "fs_wf f \<Longrightarrow> distinct (children f d)"
proof -
  assume "fs_wf f"
  then have d: "distinct (map fst (nodes f))" by (simp add: fs_wf_def)
  let ?p = "\<lambda>q. q \<noteq> [] \<and> butlast q = d"
  have "children f d = map last (filter ?p (map fst (nodes f)))"
    unfolding children_def by (induction "nodes f" rule: list.induct) (auto simp: filter_map comp_def case_prod_unfold)
  moreover have "inj_on last (set (filter ?p (map fst (nodes f))))"
    by (auto simp: inj_on_def) (metis append_butlast_last_id)
  ultimately show ?thesis using d by (simp add: distinct_map)
qed

text \<open>
  The names \<open>listDirectory\<close> returns for a backup directory of regular files are the names of
  the store, each once, and all of them can be put into a listing.
\<close>

lemma listDirectory_store:
  assumes "clean b d f"
  shows "set (listDirectory b f) = dom (store f d) \<and> distinct (listDirectory b f) \<and>
    (\<forall>n \<in> set (listDirectory b f). NUL \<notin> set n \<and> n \<noteq> [])"
proof -
  have ok: "fs_ok f" "is_base f b d" using assms by (simp_all add: clean_def)
  then have wf: "fs_wf f" by (simp add: fs_ok_def)
  have dir: "readdir b f = Some (''.'' # ''..'' # children f d)"
    using ok(2) by (simp add: readdir_def is_base_def is_dir_def)
  have ex: "fileExists (b @ slash # n) f \<longleftrightarrow> store f d n \<noteq> None" if "good_name n" for n
  proof -
    have "resolve f (b @ slash # n) = Some (d @ [n])"
      using resolve_child[OF ok(2), of n] that by (simp add: good_name_def)
    then show ?thesis
      using clean_regular[OF assms that]
      by (auto simp: fileExists_def stat_def store_def S_IFREG_def)
  qed
  have kids: "n \<in> set (children f d) \<Longrightarrow> good_name n" for n
    using children_iff[OF wf, of n d] fs_wf_lookup[OF wf, of "d @ [n]"] by auto
  have l: "listDirectory b f = filter (\<lambda>n. store f d n \<noteq> None) (children f d)"
    using kids by (auto simp: listDirectory_def dir ex good_name_def intro!: filter_cong)
  have "n \<in> set (children f d)" if "store f d n \<noteq> None" for n
    using that children_iff[OF wf, of n d] by (auto simp: store_def split: option.splits)
  then have "set (listDirectory b f) = dom (store f d)" unfolding l by auto
  then show ?thesis using distinct_children[OF wf] kids unfolding l by (auto simp: good_name_def)
qed

text \<open>
  C7: LS from the store to the client's screen: on a directory of regular files whose names fit into
  one message, the server sends one data message to the requesting client and changes no file, and a
  client that gets this message prints every stored name exactly once, or that the folder is empty.
\<close>

theorem ls_shows_store:
  assumes "ready d s" "length (packed (listDirectory (backupDir (config s)) (files s))) < 3000"
  shows "\<exists>s' data names. Server.handleLs s = Some (SUCCESS, s') \<and> files s' = files s \<and>
    outgoing (os s') = outgoing (os s) @ [(currentClientAddr s, data)] \<and>
    set names = dom (kept s d) \<and> distinct names \<and>
    (\<forall>c t a. answered c t a data \<longrightarrow>
      (\<exists>c'. Client.handleLs c = Some (SUCCESS, c') \<and> printed c' = printed c @ screen names))"
proof -
  have c: "clean (backupDir (config s)) d (files s)" "sends_ok s" using assms(1) by (simp_all add: ready_def)
  let ?ns = "listDirectory (backupDir (config s)) (files s)"
  let ?data = "packNames ?ns 0 DataMsg" and ?s = "snd (sendDataResponse (packNames ?ns 0 DataMsg) s)"
  have ns: "set ?ns = dom (kept s d)" "distinct ?ns" "\<forall>n \<in> set ?ns. NUL \<notin> set n \<and> n \<noteq> []"
    using listDirectory_store[OF c(1)] by (simp_all add: kept_def)
  have p: "parseListing ?data = Some ?ns" "length ?data = DATA_BUF_LEN"
    using parse_pack[OF ns(3)] assms(2) by (simp_all add: DATA_BUF_LEN_def)
  have r: "fst (sendDataResponse ?data s) = SUCCESS"
    "outgoing (os ?s) = outgoing (os s) @ [(currentClientAddr s, ?data)]"
    using c(2) by (auto simp: sendDataResponse_def send_to_def sends_ok_def split: list.splits prod.splits)
  have f: "files ?s = files s" using sendDataResponse_same[of s ?data] by (simp add: same_but_net_def)
  have h: "Server.handleLs s = Some (SUCCESS, ?s)"
    unfolding Server.handleLs_def Let_def using r(1) by (simp add: prod_eq_iff)
  have shown: "\<forall>c t a. answered c t a ?data \<longrightarrow>
      (\<exists>c'. Client.handleLs c = Some (SUCCESS, c') \<and> printed c' = printed c @ screen ?ns)"
    using ls_answer[OF _ p(2,1)] by blast
  from h f r(2) ns(1,2) shown show ?thesis
    by (intro exI[of _ ?s] exI[of _ ?data] exI[of _ ?ns]) blast
qed

theorem ls_shows_store_witness:
  "\<exists>s' data names. Server.handleLs (sample [] []) = Some (SUCCESS, s') \<and> files s' = sample_fs \<and>
     outgoing (os s') = outgoing (os (sample [] [])) @ [((0, 0), data)] \<and> set names = {''a.txt''}"
proof -
  have "listDirectory ''backup'' sample_fs = [''a.txt'']"
    by (simp add: listDirectory_def readdir_def resolve_def fileExists_def stat_def children_def lookup_def
        sample_fs_def is_sep_def slash_def backslash_def c_str_def NUL_def S_IFREG_def)
  moreover have "currentClientAddr (sample [] []) = (0, 0)" by (simp add: sample_def Server_def)
  ultimately show ?thesis
    using ls_shows_store[OF sample_ready, of "[]" "[]"] by (auto simp: sample_kept)
qed

end
