(* ===== verification/Server_Rename.thy ===== *)
theory Server_Rename
  imports Server_Spec
begin

text \<open>
  The RENAME dialogue: the handshake, the new name, the confirmation for an existing target and the
  effect on the store, by the laws of the store interface.
\<close>

section \<open>The dialogue\<close>

definition handshake :: "server \<Rightarrow> (addr \<times> cmd_msg) list" where
  "handshake s =
     (if enableHandshake (config s) then [(currentClientAddr s, reply READY_FOR_NEW_NAME 0)] else [])"

text \<open>The run up to the new name, which has arrived.\<close>

lemma handleRename_named:
  assumes "c_array (m_filename cmd) = Some m" "isValidFilename m" "ready d s" "kept s d m \<noteq> None"
    and "incoming (os s) = (t, a, dat) # rest" "t \<le> clock (os s)" "dat \<noteq> []"
  obtains u where "handleRename cmd s = renameTo (joinPath (backupDir (config s)) m) (payload dat) u"
    "files u = files s" "config u = config s" "metrics_of u = metrics_of s" "sends_ok u"
    "incoming (os u) = rest" "currentClientAddr u = a" "clock (os s) \<le> clock (os u)"
    "endian (os u) = endian (os s)" "sent s u (handshake s)"
proof -
  have c: "clean (backupDir (config s)) d (files s)" "sends_ok s" using assms(3) by (simp_all add: ready_def)
  define v where "v = (if enableHandshake (config s) then snd (sendResponse (reply READY_FOR_NEW_NAME 0) s) else s)"
  have v: "same_but_net s v" "sends_ok v" "incoming (os v) = incoming (os s)"
    "clock (os s) \<le> clock (os v)" "sent s v (handshake s)"
  proof -
    obtain w where w: "sendResponse (reply READY_FOR_NEW_NAME 0) s = (SUCCESS, w)" "same_but_net s w" "sends_ok w"
      "sent s w [(currentClientAddr s, reply READY_FOR_NEW_NAME 0)]" "incoming (os w) = incoming (os s)"
      "clock (os s) \<le> clock (os w)"
      using reply_sent[OF c(2)] by metis
    show "same_but_net s v" "sends_ok v" "incoming (os v) = incoming (os s)"
      "clock (os s) \<le> clock (os v)" "sent s v (handshake s)"
      using w c(2) by (simp_all add: v_def handshake_def)
  qed
  let ?u = "(setTimeout v)\<lparr>os := (os (setTimeout v))\<lparr>incoming := rest\<rparr>, currentClientAddr := a\<rparr>"
  have r: "receive DATA_BUF_LEN (setTimeout v) = Some (Some (payload dat), ?u)"
    using receive_ready[of "setTimeout v" t a dat rest DATA_BUF_LEN] assms(5-7) v(3,4)
    by (simp add: payload_def DATA_BUF_LEN_def)
  show ?thesis
  proof (rule that[of ?u])
    show "handleRename cmd s = renameTo (joinPath (backupDir (config s)) m) (payload dat) ?u"
      using assms(1,2,4) r fileExists_store[OF c(1), of m]
      by (simp add: handleRename_def kept_def flip: v_def)
    show "files ?u = files s"
      using v(1) by (simp add: same_but_net_def files_def setTimeout_def set_rcvtimeo_def)
  qed (use v in \<open>simp_all add: same_but_net_def sends_ok_def setTimeout_def set_rcvtimeo_def sent_def\<close>)
qed

lemma performRename_effect:
  assumes "ready d u" "ok_name m" "ok_name n" "m \<noteq> n \<or> kept u d m = None"
  shows "\<exists>s'. performRename (joinPath (backupDir (config u)) m) (joinPath (backupDir (config u)) n) u = (SUCCESS, s') \<and>
    ready d s' \<and> kept s' d = (if kept u d m = None then kept u d else (kept u d)(m := None, n := kept u d m)) \<and>
    incoming (os s') = incoming (os u) \<and>
    sent u s' [(currentClientAddr u, reply ACK (if kept u d m = None then 1 else 0))]"
proof -
  let ?b = "backupDir (config u)"
  have c: "clean ?b d (files u)" "sends_ok u" using assms(1) by (simp_all add: ready_def)
  let ?r = "rename (joinPath ?b m) (joinPath ?b n) (files u)"
  let ?f = "case ?r of None \<Rightarrow> files u | Some f \<Rightarrow> f" and ?e = "(case ?r of None \<Rightarrow> 1 | Some f \<Rightarrow> 0) :: u16"
  have e: "performRename (joinPath ?b m) (joinPath ?b n) u = sendResponse (reply ACK ?e) (set_files ?f u)"
    by (simp add: performRename_def renameFile_def split: option.splits)
  have "sends_ok (set_files ?f u)" using c(2) by simp
  then obtain s' where s': "sendResponse (reply ACK ?e) (set_files ?f u) = (SUCCESS, s')"
    "same_but_net (set_files ?f u) s'" "sends_ok s'" "sent (set_files ?f u) s' [(currentClientAddr u, reply ACK ?e)]"
    "incoming (os s') = incoming (os u)"
    using reply_sent[of "set_files ?f u" "reply ACK ?e"] by (metis set_files_simps(3,9))
  have none: "?r = None \<longleftrightarrow> kept u d m = None"
    using bk.ren_none[OF c(1) assms(2,3)] by (simp add: kept_def)
  have look: "store ?f d = (if kept u d m = None then kept u d else (kept u d)(m := None, n := kept u d m))"
  proof (cases ?r)
    case None
    then show ?thesis using none by (simp add: kept_def)
  next
    case (Some f)
    then show ?thesis using bk.ren_look[OF c(1) assms(2,3) Some] none assms(4) by (auto simp: kept_def)
  qed
  have cl: "clean ?b d ?f" using bk.ren_inv[OF c(1) assms(2,3)] c(1) by (auto split: option.splits)
  have "?e = (if kept u d m = None then 1 else 0)" using none by (auto split: option.splits)
  with s' look cl e show ?thesis
    by (auto simp: ready_def kept_def same_but_net_def sent_def)
qed

text \<open>
  C5: renaming to a free valid name. The content moves to the new name, no other entry changes, and
  the acknowledgement goes to whoever sent the new name.
\<close>

theorem rename_correct:
  assumes "c_array (m_filename cmd) = Some m" "ok_name m" "ready d s" "kept s d m = Some content"
    and "incoming (os s) = (t, a, dat) # rest" "t \<le> clock (os s)" "dat \<noteq> []"
    and "c_array (payload dat) = Some n" "ok_name n" "kept s d n = None"
  shows "\<exists>s'. handleRename cmd s = Some (SUCCESS, s') \<and> ready d s' \<and>
    kept s' d = (kept s d)(m := None, n \<mapsto> content) \<and>
    sent s s' (handshake s @ [(a, reply ACK 0)])"
proof -
  have ex: "kept s d m \<noteq> None" using assms(4) by simp
  obtain u where u: "handleRename cmd s = renameTo (joinPath (backupDir (config s)) m) (payload dat) u"
    "files u = files s" "config u = config s" "sends_ok u" "currentClientAddr u = a"
    "endian (os u) = endian (os s)" "sent s u (handshake s)"
    using handleRename_named[OF assms(1) ok_name_valid[OF assms(2)] assms(3) ex assms(5-7)] by metis
  have ru: "ready d u" "kept u d = kept s d" using u(2-4) assms(3) by (simp_all add: ready_def kept_def)
  then have c: "clean (backupDir (config u)) d (files u)" by (simp add: ready_def)
  have mn: "m \<noteq> n \<or> kept u d m = None" using assms(4,10) by auto
  obtain s' where s': "performRename (joinPath (backupDir (config u)) m) (joinPath (backupDir (config u)) n) u = (SUCCESS, s')"
    "ready d s'" "kept s' d = (kept s d)(m := None, n \<mapsto> content)" "sent u s' [(a, reply ACK 0)]"
    using performRename_effect[OF ru(1) assms(2,9) mn] assms(4) ru(2) u(5) by auto
  have "handleRename cmd s = Some (SUCCESS, s')"
    using u(1,3) s'(1) assms(8-10) fileExists_store[OF c, of n] ru(2)
    by (simp add: renameTo_def kept_def)
  then show ?thesis using s'(2,3) sent_append[OF u(7) s'(4) u(6)] by blast
qed

theorem rename_correct_witness:
  "\<exists>s'. handleRename (setFilename ''a.txt'' (setCommand RENAME CmdMsg)) (sample [(5, (1, 2), ''b.txt'')] []) =
      Some (SUCCESS, s') \<and> kept s' [''backup''] = [''b.txt'' \<mapsto> ''old'']"
proof -
  have d: "c_array (payload ''b.txt'') = Some ''b.txt''" by (rule c_array_payload) (simp_all add: NUL_def)
  show ?thesis
    using rename_correct[OF name_in_message[OF sample_names(1)] _ sample_ready _ _ _ _ d,
        where inc5 = "[(5, (1, 2), ''b.txt'')]" and tcp5 = "[]"]
    by (fastforce simp: sample_kept fun_eq_iff)
qed

text \<open>The run up to the confirmation for an existing target.\<close>

lemma handleRename_confirmed:
  assumes "c_array (m_filename cmd) = Some m" "ok_name m" "ready d s" "kept s d m \<noteq> None"
    and "incoming (os s) = (t, a, dat) # (t', a', encode_cmd (endian (os s)) conf) # rest"
    and "t \<le> clock (os s)" "t' \<le> clock (os s)" "dat \<noteq> []"
    and "c_array (payload dat) = Some n" "ok_name n" "kept s d n \<noteq> None" "valid_msg conf"
  obtains v bytes where "handleRename cmd s = Some (renameConfirmed (joinPath (backupDir (config v)) m)
      (joinPath (backupDir (config v)) n) bytes v)"
    "decode_cmd (endian (os v)) bytes = conf" "ready d v" "kept v d = kept s d" "files v = files s"
    "currentClientAddr v = a'" "incoming (os v) = rest" "endian (os v) = endian (os s)"
    "sent s v (handshake s @ [(a, reply Command.FILE_EXISTS 0)])"
proof -
  obtain u where u: "handleRename cmd s = renameTo (joinPath (backupDir (config s)) m) (payload dat) u"
    "files u = files s" "config u = config s" "sends_ok u"
    "incoming (os u) = (t', a', encode_cmd (endian (os s)) conf) # rest" "currentClientAddr u = a"
    "clock (os s) \<le> clock (os u)" "endian (os u) = endian (os s)" "sent s u (handshake s)"
    using handleRename_named[OF assms(1) ok_name_valid[OF assms(2)] assms(3-6,8)] by metis
  have ru: "ready d u" "kept u d = kept s d" using u(2-4) assms(3) by (simp_all add: ready_def kept_def)
  then have c: "clean (backupDir (config u)) d (files u)" by (simp add: ready_def)
  obtain w where w: "sendResponse (reply Command.FILE_EXISTS 0) u = (SUCCESS, w)" "same_but_net u w" "sends_ok w"
    "sent u w [(currentClientAddr u, reply Command.FILE_EXISTS 0)]" "incoming (os w) = incoming (os u)"
    "clock (os u) \<le> clock (os w)"
    using reply_sent[OF u(4)] by metis
  let ?b = "overlay (zeros CMD_MSG_LEN) (take CMD_MSG_LEN (encode_cmd (endian (os s)) conf))"
  let ?v = "w\<lparr>os := (os w)\<lparr>incoming := rest\<rparr>, currentClientAddr := a'\<rparr>"
  have r: "receive CMD_MSG_LEN w = Some (Some ?b, ?v)"
    using receive_ready[of w t' a' "encode_cmd (endian (os s)) conf" rest CMD_MSG_LEN] u(5,7) w(5,6) assms(7)
    by simp
  have e: "endian (os w) = endian (os s)" "config w = config s" "files w = files s"
    using w(2) u by (simp_all add: same_but_net_def)
  show ?thesis
  proof (rule that[of ?v ?b])
    show "handleRename cmd s = Some (renameConfirmed (joinPath (backupDir (config ?v)) m)
      (joinPath (backupDir (config ?v)) n) ?b ?v)"
      using u(1,3) w(1) r assms(9-11) fileExists_store[OF c, of n] ru(2) e
      by (simp add: renameTo_def kept_def)
    show "decode_cmd (endian (os ?v)) ?b = conf" using decode_received[OF assms(12)] e by simp
    show "files ?v = files s" using e(3) by (simp add: files_def)
    then show "ready d ?v" "kept ?v d = kept s d"
      using assms(3) e w(3) by (simp_all add: ready_def kept_def sends_ok_def)
    have "sent s w (handshake s @ [(a, reply Command.FILE_EXISTS 0)])"
      using sent_append[OF u(9) w(4) u(8)] u(6) by simp
    then show "sent s ?v (handshake s @ [(a, reply Command.FILE_EXISTS 0)])" by (simp add: sent_def)
  qed (use e in simp_all)
qed

text \<open>
  Renaming over an existing file, confirmed. If the names differ the target's old content is
  replaced and the source is gone, with success as the answer. If both names are the same the file
  is lost: the server deletes the target, which is the source, then fails to rename and says 1.
\<close>

theorem rename_over_existing:
  assumes "c_array (m_filename cmd) = Some m" "ok_name m" "ready d s" "kept s d m = Some content"
    and "incoming (os s) = (t, a, dat) # (t', a', encode_cmd (endian (os s)) conf) # rest"
    and "t \<le> clock (os s)" "t' \<le> clock (os s)" "dat \<noteq> []"
    and "c_array (payload dat) = Some n" "ok_name n" "kept s d n \<noteq> None"
    and "valid_msg conf" "getCommand conf = OVERWRITE" "m_error conf = 0"
  shows "\<exists>s'. handleRename cmd s = Some (SUCCESS, s') \<and> ready d s' \<and>
    kept s' d = (if m = n then (kept s d)(m := None) else (kept s d)(m := None, n \<mapsto> content)) \<and>
    sent s s' (handshake s @ [(a, reply Command.FILE_EXISTS 0), (a', reply ACK (if m = n then 1 else 0))])"
proof -
  have ex: "kept s d m \<noteq> None" using assms(4) by simp
  obtain v bytes where v: "handleRename cmd s = Some (renameConfirmed (joinPath (backupDir (config v)) m)
      (joinPath (backupDir (config v)) n) bytes v)"
    "decode_cmd (endian (os v)) bytes = conf" "ready d v" "kept v d = kept s d"
    "currentClientAddr v = a'" "endian (os v) = endian (os s)"
    "sent s v (handshake s @ [(a, reply Command.FILE_EXISTS 0)])"
    using handleRename_confirmed[OF assms(1-3) ex assms(5-12)] by metis
  have c: "clean (backupDir (config v)) d (files v)" using v(3) by (simp add: ready_def)
  obtain f where f: "unlink (joinPath (backupDir (config v)) n) (files v) = Some f"
    using bk.del_none[OF c assms(10)] assms(11) v(4) by (auto simp: kept_def)
  let ?w = "set_files f v"
  have kw: "kept ?w d = (kept s d)(n := None)" using bk.del_look[OF c assms(10) f] v(4) by (simp add: kept_def)
  have rw: "ready d ?w" using bk.del_inv[OF c assms(10) f] v(3) by (simp add: ready_def)
  have mn: "m \<noteq> n \<or> kept ?w d m = None" by (simp add: kw)
  obtain s' where s': "performRename (joinPath (backupDir (config ?w)) m) (joinPath (backupDir (config ?w)) n) ?w = (SUCCESS, s')"
    "ready d s'" "kept s' d = (if m = n then (kept s d)(m := None) else (kept s d)(m := None, n \<mapsto> content))"
    "sent ?w s' [(a', reply ACK (if m = n then 1 else 0))]"
    using performRename_effect[OF rw assms(2,10) mn] assms(4) v(5)
    by (cases "m = n") (auto simp: kw fun_upd_twist)
  have "handleRename cmd s = Some (SUCCESS, s')"
    using v(1,2) assms(13,14) s'(1) f by (simp add: renameConfirmed_def deleteFile_def)
  moreover have "sent v s' [(a', reply ACK (if m = n then 1 else 0))]" using s'(4) by (simp add: sent_def)
  ultimately show ?thesis
    using s'(2,3) sent_append[OF v(7) _ v(6)] by fastforce
qed

theorem rename_over_existing_witness:
  "\<exists>s'. handleRename (setFilename ''a.txt'' (setCommand RENAME CmdMsg))
      (sample [(5, (1, 2), ''a.txt''), (6, (1, 2), encode_cmd LittleEndian (reply OVERWRITE 0))] []) =
      Some (SUCCESS, s') \<and> kept s' [''backup''] = Map.empty"
proof -
  let ?s = "sample [(5, (1, 2), ''a.txt''), (6, (1, 2), encode_cmd LittleEndian (reply OVERWRITE 0))] []"
  have d: "c_array (payload ''a.txt'') = Some ''a.txt''" by (rule c_array_payload) (simp_all add: NUL_def)
  have n: "c_array (m_filename (setFilename ''a.txt'' (setCommand RENAME CmdMsg))) = Some ''a.txt''"
    by (rule name_in_message) simp_all
  have c: "valid_msg (reply OVERWRITE 0)" "getCommand (reply OVERWRITE 0) = OVERWRITE" "m_error (reply OVERWRITE 0) = 0"
    by (simp_all add: reply_def)
  show ?thesis
    using rename_over_existing[where s = ?s and conf = "reply OVERWRITE 0" and t = 5 and t' = 6 and a = "(1, 2)"
        and a' = "(1, 2)" and rest = "[]" and content = "''old''", OF n sample_names(1) sample_ready _ _ _ _ _ d sample_names(1) _ c]
    by (auto simp: sample_kept)
qed

text \<open>
  On the non-blocking socket the rename handshake succeeds only if the new name was sent before
  the server asked for it: otherwise the server asks, gives up at once with \<open>TIMEOUT\<close>, sends no
  further answer, and the name, when it comes, is left for the main loop.
\<close>

theorem rename_gives_up:
  assumes "c_array (m_filename cmd) = Some m" "isValidFilename m" "ready d s" "kept s d m \<noteq> None"
    and "nonblocking (os s)" "not_yet s" "instant s"
  shows "\<exists>s'. handleRename cmd s = Some (TIMEOUT, s') \<and> files s' = files s \<and>
    clock (os s') = clock (os s) \<and> incoming (os s') = incoming (os s) \<and> sent s s' (handshake s)"
proof -
  have c: "clean (backupDir (config s)) d (files s)" using assms(3) by (simp add: ready_def)
  let ?u = "setTimeout (if enableHandshake (config s) then log_reply (reply READY_FOR_NEW_NAME 0) s else s)"
  have "receive DATA_BUF_LEN ?u = Some (None, ?u)"
    using assms(5,6) by (intro receive_not_ready) (simp_all add: not_yet_def)
  then have "handleRename cmd s = Some (TIMEOUT, ?u)"
    using assms(1,2,4,7) fileExists_store[OF c, of m]
    by (auto simp: handleRename_def kept_def instant_reply)
  then show ?thesis by (simp add: sent_def handshake_def)
qed

end
