(* ===== verification/Http_Server.thy ===== *)
theory Http_Server
  imports Metrics File_System
begin

text \<open>
  \<open>include/server/http_server.h\<close> and \<open>src/server/http_server.cpp\<close>: the handlers of the management
  API. \<open>httplib\<close> and \<open>nlohmann::json\<close> are third-party: a request comes as the values the handler
  takes from it, the content of a response is the JSON value that is dumped, and two parameters
  stand for the library: \<open>dumps j\<close> says whether \<open>j.dump()\<close> succeeds, \<open>parse\<close> is \<open>json::parse\<close> (\<open>None\<close>
  when it throws). What the library documents of them is \<open>dumps_utf8\<close> and \<open>parses_utf8\<close>. Static files
  and CORS headers are not modelled; requests are served one after another.
\<close>

section \<open>State\<close>

datatype json =
    JNull
  | JBool bool
  | JInt int
  | JDouble rat
  | JString string
  | JArray "json list"
  | JObject "(string \<times> json) list"

text \<open>The byte sequences that are UTF-8 (RFC 3629, section 4).\<close>

abbreviation tail_byte :: "nat \<Rightarrow> bool" where
  "tail_byte b \<equiv> 0x80 \<le> b \<and> b \<le> 0xBF"

fun utf8_bytes :: "nat list \<Rightarrow> bool" where
  "utf8_bytes [] \<longleftrightarrow> True"
| "utf8_bytes (b # bs) \<longleftrightarrow>
     (if b \<le> 0x7F then utf8_bytes bs
      else if 0xC2 \<le> b \<and> b \<le> 0xDF then
        (case bs of b1 # bs \<Rightarrow> tail_byte b1 \<and> utf8_bytes bs | _ \<Rightarrow> False)
      else if 0xE0 \<le> b \<and> b \<le> 0xEF then
        (case bs of
           b1 # b2 # bs \<Rightarrow>
             tail_byte b1 \<and> (b = 0xE0 \<longrightarrow> 0xA0 \<le> b1) \<and> (b = 0xED \<longrightarrow> b1 \<le> 0x9F) \<and> tail_byte b2 \<and> utf8_bytes bs
         | _ \<Rightarrow> False)
      else if 0xF0 \<le> b \<and> b \<le> 0xF4 then
        (case bs of
           b1 # b2 # b3 # bs \<Rightarrow>
             tail_byte b1 \<and> (b = 0xF0 \<longrightarrow> 0x90 \<le> b1) \<and> (b = 0xF4 \<longrightarrow> b1 \<le> 0x8F) \<and>
             tail_byte b2 \<and> tail_byte b3 \<and> utf8_bytes bs
         | _ \<Rightarrow> False)
      else False)"

definition utf8 :: "string \<Rightarrow> bool" where
  "utf8 s \<longleftrightarrow> utf8_bytes (map of_char s)"

fun utf8_json :: "json \<Rightarrow> bool" where
  "utf8_json (JString s) \<longleftrightarrow> utf8 s"
| "utf8_json (JArray js) \<longleftrightarrow> (\<forall>j \<in> set js. utf8_json j)"
| "utf8_json (JObject kvs) \<longleftrightarrow> (\<forall>kv \<in> set kvs. utf8 (fst kv) \<and> utf8_json (snd kv))"
| "utf8_json j \<longleftrightarrow> True"

text \<open>
  What the library documents: \<open>dump\<close> throws (\<open>type_error.316\<close>) exactly when a string in the value is
  not UTF-8, and \<open>parse\<close> refuses ill-formed input (\<open>parse_error.101\<close>), so its strings are UTF-8.
\<close>

definition dumps_utf8 :: "(json \<Rightarrow> bool) \<Rightarrow> bool" where
  "dumps_utf8 dumps \<longleftrightarrow> (\<forall>j. dumps j = utf8_json j)"

definition parses_utf8 :: "(string \<Rightarrow> json option) \<Rightarrow> bool" where
  "parses_utf8 parse \<longleftrightarrow> (\<forall>body j. parse body = Some j \<longrightarrow> utf8_json j)"

record http_config =
  h_port :: u16
  h_host :: string
  h_backupDir :: string
  h_staticDir :: string
  h_maxUploadSize :: u64

definition HttpServerConfig :: http_config where
  "HttpServerConfig =
     \<lparr>h_port = 8080, h_host = ''0.0.0.0'', h_backupDir = ''backup'', h_staticDir = ''static'',
      h_maxUploadSize = 100 * 1024 * 1024\<rparr>"

text \<open>The callbacks are functions of the file system; \<open>None\<close> is a callback that was not set.\<close>

record http_server =
  h_config :: http_config
  fileListCallback :: "(filesystem \<Rightarrow> string list) option"
  fileDeleteCallback :: "(string \<Rightarrow> filesystem \<Rightarrow> bool \<times> filesystem) option"
  fileRenameCallback :: "(string \<Rightarrow> string \<Rightarrow> filesystem \<Rightarrow> bool \<times> filesystem) option"

definition HttpServer :: "http_config \<Rightarrow> http_server" where
  "HttpServer cfg =
     \<lparr>h_config = cfg, fileListCallback = None, fileDeleteCallback = None, fileRenameCallback = None\<rparr>"

definition setFileListCallback :: "(filesystem \<Rightarrow> string list) \<Rightarrow> http_server \<Rightarrow> http_server" where
  "setFileListCallback cb h = h\<lparr>fileListCallback := Some cb\<rparr>"

definition setFileDeleteCallback ::
  "(string \<Rightarrow> filesystem \<Rightarrow> bool \<times> filesystem) \<Rightarrow> http_server \<Rightarrow> http_server" where
  "setFileDeleteCallback cb h = h\<lparr>fileDeleteCallback := Some cb\<rparr>"

definition setFileRenameCallback ::
  "(string \<Rightarrow> string \<Rightarrow> filesystem \<Rightarrow> bool \<times> filesystem) \<Rightarrow> http_server \<Rightarrow> http_server" where
  "setFileRenameCallback cb h = h\<lparr>fileRenameCallback := Some cb\<rparr>"

text \<open>
  What the handlers share with the rest of the process: the metrics, the file system and the counter
  of \<open>generateRequestId\<close>. A \<open>moment\<close> holds what a handler reads of the outside: the steady clock in
  nanoseconds when it starts and ends, and the draw of the latency reservoir.
\<close>

record web =
  w_metrics :: metrics
  w_files :: filesystem
  w_counter :: u32

record moment =
  started :: int
  ended :: int
  drawn :: nat

record response =
  status :: nat
  content :: "json option"
  request_id :: string

definition newRequest :: "string \<Rightarrow> string \<Rightarrow> moment \<Rightarrow> web \<Rightarrow> string \<times> web" where
  "newRequest endpoint verb t w =
     (case generateRequestId (started t div 1000000) (w_counter w) of
        (reqId, counter) \<Rightarrow>
          (reqId, w\<lparr>w_counter := counter, w_metrics := recordHttpRequest endpoint verb (w_metrics w)\<rparr>))"

text \<open>The destructor of the timer at the end of the handler.\<close>

definition stopTimer :: "string \<Rightarrow> moment \<Rightarrow> web \<Rightarrow> web" where
  "stopTimer name t w =
     w\<lparr>w_metrics := endTimer (startTimer name (started t)) (ended t) (drawn t) (w_metrics w)\<rparr>"

definition countError :: "string \<Rightarrow> string \<Rightarrow> web \<Rightarrow> web" where
  "countError name code w = w\<lparr>w_metrics := recordError name code (w_metrics w)\<rparr>"

text \<open>
  \<open>res.set_content(response.dump(), ...)\<close> with a status. \<open>None\<close> is the exception of \<open>dump\<close>; when
  it leaves the handler, the library answers 500 without content.
\<close>

definition setContent :: "(json \<Rightarrow> bool) \<Rightarrow> string \<Rightarrow> nat \<Rightarrow> json \<Rightarrow> response option" where
  "setContent dumps reqId st j =
     (if dumps j then Some \<lparr>status = st, content = Some j, request_id = reqId\<rparr> else None)"

definition escape :: "string \<Rightarrow> response option \<Rightarrow> response" where
  "escape reqId r = (case r of Some r \<Rightarrow> r | None \<Rightarrow> \<lparr>status = 500, content = None, request_id = reqId\<rparr>)"

definition failure :: "string \<Rightarrow> string \<Rightarrow> json" where
  "failure reqId message =
     JObject [(''success'', JBool False), (''error'', JString message), (''request_id'', JString reqId)]"

text \<open>
  \<open>set_payload_max_length\<close>: the library answers a request with a longer body itself, with 413, and no
  handler runs.
\<close>

definition payloadLimited ::
  "http_server \<Rightarrow> nat \<Rightarrow> (web \<Rightarrow> response \<times> web) \<Rightarrow> web \<Rightarrow> response \<times> web" where
  "payloadLimited h payload handler w =
     (if unat (h_maxUploadSize (h_config h)) < payload then (\<lparr>status = 413, content = None, request_id = []\<rparr>, w)
      else handler w)"

section \<open>The handlers\<close>

definition getHealthz :: "(json \<Rightarrow> bool) \<Rightarrow> moment \<Rightarrow> web \<Rightarrow> response \<times> web" where
  "getHealthz dumps t w =
     (case newRequest ''/healthz'' ''GET'' t w of
        (reqId, w) \<Rightarrow>
          (escape reqId (setContent dumps reqId 200 (JObject
             [(''status'', JString ''ok''),
              (''uptime_seconds'', JInt (uint (getUptimeSeconds (w_metrics w) (started t)))),
              (''request_id'', JString reqId)])), w))"

definition getFiles :: "(json \<Rightarrow> bool) \<Rightarrow> string \<Rightarrow> http_server \<Rightarrow> moment \<Rightarrow> web \<Rightarrow> response \<times> web" where
  "getFiles dumps what h t w =
     (case newRequest ''/api/files'' ''GET'' t w of
        (reqId, w) \<Rightarrow>
          (let files = (case fileListCallback h of
                          Some cb \<Rightarrow> cb (w_files w)
                        | None \<Rightarrow> listDirectory (h_backupDir (h_config h)) (w_files w));
               fileInfo = (\<lambda>filename. JObject
                 [(''name'', JString filename),
                  (''size'', JInt (uint (getFileSize (h_backupDir (h_config h) @ [slash] @ filename) (w_files w))))]);
               response = JObject
                 [(''success'', JBool True), (''files'', JArray (map fileInfo files)),
                  (''count'', JInt (int (length files))), (''request_id'', JString reqId)]
           in (case setContent dumps reqId 200 response of
                 Some r \<Rightarrow> r
               | None \<Rightarrow> escape reqId (setContent dumps reqId 500 (failure reqId what)),
               stopTimer ''http_ls'' t w)))"

text \<open>The upload: \<open>file\<close> is the form field, if the request has one; \<open>what\<close> the text of an exception of \<open>dump\<close>.\<close>

definition storeUpload :: "string \<Rightarrow> string \<Rightarrow> string \<Rightarrow> filesystem \<Rightarrow> filesystem \<times> bool" where
  "storeUpload dir filename body f =
     (let f = snd (createDirectory dir f)
      in case write_file (dir @ [slash] @ filename) body f of
           None \<Rightarrow> (f, False)
         | Some f' \<Rightarrow> (f', True))"

definition uploadFailed ::
  "(json \<Rightarrow> bool) \<Rightarrow> string \<Rightarrow> string \<Rightarrow> web \<Rightarrow> response \<times> web" where
  "uploadFailed dumps reqId what w =
     (escape reqId (setContent dumps reqId 500 (failure reqId what)),
      countError ''http_upload'' ''write_error'' (w\<lparr>w_metrics := recordSendFailure (w_metrics w)\<rparr>))"

definition postUpload ::
  "(json \<Rightarrow> bool) \<Rightarrow> string \<Rightarrow> http_server \<Rightarrow> (string \<times> string) option \<Rightarrow> moment \<Rightarrow> web \<Rightarrow> response \<times> web" where
  "postUpload dumps what h file t w =
     (case newRequest ''/api/upload'' ''POST'' t w of
        (reqId, w) \<Rightarrow>
          (case (case file of
             None \<Rightarrow> (escape reqId (setContent dumps reqId 400 (failure reqId ''No file provided'')), w)
           | Some (filename, body) \<Rightarrow>
               if \<not> isValidFilename filename
               then (escape reqId (setContent dumps reqId 400 (failure reqId ''Invalid filename'')),
                     if dumps (failure reqId ''Invalid filename'')
                     then countError ''http_upload'' ''invalid_filename'' w else w)
               else if unat (h_maxUploadSize (h_config h)) < length body
               then (escape reqId (setContent dumps reqId 413 (failure reqId ''File too large'')),
                     if dumps (failure reqId ''File too large'')
                     then countError ''http_upload'' ''file_too_large'' w else w)
               else (case storeUpload (h_backupDir (h_config h)) filename body (w_files w) of
                       (f, False) \<Rightarrow>
                         uploadFailed dumps reqId ''Failed to create file'' (w\<lparr>w_files := f\<rparr>)
                     | (f, True) \<Rightarrow>
                         (let w = w\<lparr>w_files := f, w_metrics :=
                                recordRequest ''http_upload'' (recordSendSession
                                  (recordBytesReceived (of_nat (length body)) (w_metrics w)))\<rparr>
                          in case setContent dumps reqId 200 (JObject
                               [(''success'', JBool True), (''filename'', JString filename),
                                (''size'', JInt (int (length body))), (''request_id'', JString reqId)]) of
                               Some r \<Rightarrow> (r, w)
                             | None \<Rightarrow> uploadFailed dumps reqId what w)))
           of (r, w) \<Rightarrow> (r, stopTimer ''http_upload'' t w)))"

definition deleteFailed ::
  "(json \<Rightarrow> bool) \<Rightarrow> string \<Rightarrow> string \<Rightarrow> web \<Rightarrow> response \<times> web" where
  "deleteFailed dumps reqId what w =
     (escape reqId (setContent dumps reqId 500 (failure reqId what)),
      countError ''http_delete'' ''exception'' w)"

text \<open>\<open>filename\<close> is the part of the path after \<open>/api/files/\<close>.\<close>

definition deleteFiles ::
  "(json \<Rightarrow> bool) \<Rightarrow> string \<Rightarrow> http_server \<Rightarrow> string \<Rightarrow> moment \<Rightarrow> web \<Rightarrow> response \<times> web" where
  "deleteFiles dumps what h filename t w =
     (case newRequest ''/api/files'' ''DELETE'' t w of
        (reqId, w) \<Rightarrow>
          (case (
             let filepath = h_backupDir (h_config h) @ [slash] @ filename
             in if \<not> isValidFilename filename
                then (escape reqId (setContent dumps reqId 400 (failure reqId ''Invalid filename'')),
                      if dumps (failure reqId ''Invalid filename'')
                      then countError ''http_delete'' ''invalid_filename'' w else w)
                else if \<not> fileExists filepath (w_files w)
                then (case setContent dumps reqId 404 (failure reqId ''File not found'') of
                        Some r \<Rightarrow> (r, countError ''http_delete'' ''not_found'' w)
                      | None \<Rightarrow> deleteFailed dumps reqId what w)
                else (case (case fileDeleteCallback h of
                              Some cb \<Rightarrow> cb filename (w_files w)
                            | None \<Rightarrow> deleteFile filepath (w_files w)) of
                        (success, f) \<Rightarrow>
                          let w = w\<lparr>w_files := f, w_metrics :=
                                (if success then recordRequest ''http_delete'' (w_metrics w)
                                 else recordError ''http_delete'' ''delete_failed'' (w_metrics w))\<rparr>;
                              r = (if success
                                   then setContent dumps reqId 200 (JObject
                                     [(''success'', JBool True), (''filename'', JString filename),
                                      (''request_id'', JString reqId)])
                                   else setContent dumps reqId 500 (failure reqId ''Failed to delete file''))
                          in case r of
                               Some r \<Rightarrow> (r, w)
                             | None \<Rightarrow> deleteFailed dumps reqId what w))
           of (r, w) \<Rightarrow> (r, stopTimer ''http_delete'' t w)))"

text \<open>The string under a key of a JSON object, as \<open>contains\<close> and \<open>get<std::string>\<close> read it.\<close>

definition field :: "json \<Rightarrow> string \<Rightarrow> json option" where
  "field j key = (case j of JObject kvs \<Rightarrow> map_of kvs key | _ \<Rightarrow> None)"

definition badJson :: "(json \<Rightarrow> bool) \<Rightarrow> string \<Rightarrow> response" where
  "badJson dumps reqId = escape reqId (setContent dumps reqId 400 (failure reqId ''Invalid JSON''))"

definition renameFiles ::
  "(json \<Rightarrow> bool) \<Rightarrow> http_server \<Rightarrow> string \<Rightarrow> string \<Rightarrow> string \<Rightarrow> web \<Rightarrow> response \<times> web" where
  "renameFiles dumps h reqId oldName newName w =
     (let oldPath = h_backupDir (h_config h) @ [slash] @ oldName;
          newPath = h_backupDir (h_config h) @ [slash] @ newName;
          reject = (\<lambda>st message code.
            case setContent dumps reqId st (failure reqId message) of
              Some r \<Rightarrow> (r, countError ''http_rename'' code w)
            | None \<Rightarrow> (badJson dumps reqId, w))
      in if \<not> isValidFilename oldName \<or> \<not> isValidFilename newName
         then reject 400 ''Invalid filename'' ''invalid_filename''
         else if \<not> fileExists oldPath (w_files w)
         then reject 404 ''Source file not found'' ''not_found''
         else if fileExists newPath (w_files w)
         then reject 409 ''Target file already exists'' ''exists''
         else (case (case fileRenameCallback h of
                       Some cb \<Rightarrow> cb oldName newName (w_files w)
                     | None \<Rightarrow> renameFile oldPath newPath (w_files w)) of
                 (success, f) \<Rightarrow>
                   let w = w\<lparr>w_files := f, w_metrics :=
                         (if success then recordRequest ''http_rename'' (w_metrics w)
                          else recordError ''http_rename'' ''rename_failed'' (w_metrics w))\<rparr>;
                       r = (if success
                            then setContent dumps reqId 200 (JObject
                              [(''success'', JBool True), (''oldName'', JString oldName),
                               (''newName'', JString newName), (''request_id'', JString reqId)])
                            else setContent dumps reqId 500 (failure reqId ''Failed to rename file''))
                   in (case r of Some r \<Rightarrow> r | None \<Rightarrow> badJson dumps reqId, w)))"

definition postRename ::
  "(json \<Rightarrow> bool) \<Rightarrow> (string \<Rightarrow> json option) \<Rightarrow> http_server \<Rightarrow> string \<Rightarrow> moment \<Rightarrow> web \<Rightarrow> response \<times> web" where
  "postRename dumps parse h body t w =
     (case newRequest ''/api/rename'' ''POST'' t w of
        (reqId, w) \<Rightarrow>
          (case (case parse body of
             None \<Rightarrow> (badJson dumps reqId, w)
           | Some j \<Rightarrow>
               (case (field j ''oldName'', field j ''newName'') of
                  (Some (JString oldName), Some (JString newName)) \<Rightarrow>
                    renameFiles dumps h reqId oldName newName w
                | (Some _, Some _) \<Rightarrow> (badJson dumps reqId, w)
                | _ \<Rightarrow>
                    (case setContent dumps reqId 400 (failure reqId ''Missing oldName or newName'') of
                       Some r \<Rightarrow> r | None \<Rightarrow> badJson dumps reqId, w)))
           of (r, w) \<Rightarrow> (r, stopTimer ''http_rename'' t w)))"

section \<open>The metrics report\<close>

definition counter :: "u64 \<Rightarrow> json" where
  "counter n = JInt (uint n)"

definition latencyReport :: "metrics \<Rightarrow> string \<Rightarrow> (string \<times> json) option" where
  "latencyReport m name = do {
     p50 \<leftarrow> getLatencyPercentile m name 50;
     p95 \<leftarrow> getLatencyPercentile m name 95;
     p99 \<leftarrow> getLatencyPercentile m name 99;
     Some (name, JObject
       [(''avg_ms'', JDouble (getAverageLatency m name)), (''max_ms'', JDouble (getMaxLatency m name)),
        (''p50_ms'', JDouble p50), (''p95_ms'', JDouble p95), (''p99_ms'', JDouble p99)])
   }"

text \<open>\<open>100.0 * (sessions - failures) / sessions\<close>, the difference in \<open>uint64_t\<close>.\<close>

definition successRate :: "u64 \<Rightarrow> u64 \<Rightarrow> rat" where
  "successRate sessions failures =
     (if 0 < sessions
      then fl (fl (100 * fl (of_nat (unat (sessions - failures)))) / fl (of_nat (unat sessions)))
      else 100)"

fun sequence_options :: "'a option list \<Rightarrow> 'a list option" where
  "sequence_options [] = Some []"
| "sequence_options (x # xs) =
     Option.bind x (\<lambda>y. map_option (Cons y) (sequence_options xs))"

definition metricsReport :: "string list \<Rightarrow> metrics \<Rightarrow> int \<Rightarrow> string \<Rightarrow> json option" where
  "metricsReport errorKeys m now reqId = do {
     latency \<leftarrow> sequence_options (map (latencyReport m)
       [''ls'', ''send'', ''http_upload'', ''http_delete'', ''http_rename'']);
     let byName = (\<lambda>get names. JObject (map (\<lambda>(label, name). (label, counter (get m name))) names));
     let commands = [(''ls'', ''ls''), (''send'', ''send''), (''remove'', ''remove''), (''rename'', ''rename'')];
     let endpoints = [(''upload'', ''http_upload''), (''delete'', ''http_delete''), (''rename'', ''http_rename'')];
     Some (JObject
       [(''uptime_seconds'', counter (getUptimeSeconds m now)),
        (''start_time'', counter (getStartTime m)),
        (''request_id'', JString reqId),
        (''requests'', JObject
          [(''by_command'', byName getRequestCount commands),
           (''by_http_endpoint'', byName getRequestCount endpoints),
           (''http_total'', counter (httpRequests m))]),
        (''errors'', JObject
          [(''by_command'', byName getErrorCount commands),
           (''by_http_endpoint'', byName getErrorCount endpoints),
           (''details'', JObject (map (\<lambda>key. (key, counter (getErrorCount m key))) errorKeys))]),
        (''transfer'', JObject
          [(''bytes_received'', counter (bytesReceived m)), (''bytes_sent'', counter (bytesSent m)),
           (''send_sessions'', counter (sendSessions m)), (''send_failures'', counter (sendFailures m)),
           (''success_rate_pct'', JDouble (successRate (sendSessions m) (sendFailures m)))]),
        (''latency'', JObject latency)])
   }"

text \<open>
  \<open>errorKeys\<close> lists the keys of \<open>getAllErrorCounts\<close> in the order the hash map gives them. \<open>None\<close>
  is the undefined conversion in a percentile.
\<close>

definition getMetrics ::
  "(json \<Rightarrow> bool) \<Rightarrow> string list \<Rightarrow> moment \<Rightarrow> web \<Rightarrow> (response \<times> web) option" where
  "getMetrics dumps errorKeys t w =
     (case newRequest ''/api/metrics'' ''GET'' t w of
        (reqId, w) \<Rightarrow>
          map_option (\<lambda>j. (escape reqId (setContent dumps reqId 200 j), w))
            (metricsReport errorKeys (w_metrics w) (started t) reqId))"

end
