(* ===== verification/Http_Proofs.thy ===== *)
theory Http_Proofs
  imports Http_Server Message Backup_Store
begin

text \<open>
  The management API over the backup directory as a store, its status codes, and what its metrics
  report shows.
\<close>

section \<open>The handlers and the store\<close>

definition shelf :: "web \<Rightarrow> path \<Rightarrow> string \<Rightarrow> string option" where
  "shelf w d = store (w_files w) d"

text \<open>The callbacks are unset, or those \<open>Server::initialize\<close> installs.\<close>

definition standard_callbacks :: "http_server \<Rightarrow> bool" where
  "standard_callbacks h \<longleftrightarrow>
     (fileDeleteCallback h = None \<or>
      fileDeleteCallback h = Some (\<lambda>n. deleteFile (joinPath (h_backupDir (h_config h)) n))) \<and>
     (fileRenameCallback h = None \<or>
      fileRenameCallback h = Some (\<lambda>m n. renameFile (joinPath (h_backupDir (h_config h)) m)
        (joinPath (h_backupDir (h_config h)) n)))"

lemma web_files_simps [simp]:
  "w_files (stopTimer n t w) = w_files w" "w_files (countError n c w) = w_files w"
  by (simp_all add: stopTimer_def countError_def)

text \<open>ASCII is UTF-8; so are the request identifiers.\<close>

lemma utf8_ascii: "\<forall>c \<in> set s. (of_char c :: nat) < 128 \<Longrightarrow> utf8 s"
  by (induction s) (simp_all add: utf8_def)

lemma newRequest_id:
  assumes "newRequest e verb t w = (reqId, v)"
  shows "utf8 reqId" "w_files v = w_files w"
proof -
  have "(of_char (digit_char (k mod 16)) :: nat) < 128" for k
  proof -
    have "k mod 16 < 41" using mod_less_divisor[of 16 k] by linarith
    then show ?thesis by (simp add: digit_char_def)
  qed
  then show "utf8 reqId" "w_files v = w_files w"
    using assms by (auto simp: newRequest_def generateRequestId_def hex_digits_def intro!: utf8_ascii)
qed

text \<open>So every answer without a file name in it can be dumped.\<close>

lemma setContent_utf8:
  "dumps_utf8 dumps \<Longrightarrow> setContent dumps reqId st j =
     (if utf8_json j then Some \<lparr>status = st, content = Some j, request_id = reqId\<rparr> else None)"
  by (simp add: setContent_def dumps_utf8_def)

lemma failure_utf8: "utf8 message \<Longrightarrow> utf8 reqId \<Longrightarrow> utf8_json (failure reqId message)"
  by (simp add: failure_def) (simp add: utf8_def)

lemma status_500 [simp]: "status (escape reqId (setContent dumps reqId 500 j)) = 500"
  by (simp add: escape_def setContent_def)

lemma status_utf8:
  "dumps_utf8 dumps \<Longrightarrow> utf8_json j \<Longrightarrow> status (escape reqId (setContent dumps reqId st j)) = st"
  by (simp add: escape_def setContent_utf8)

lemma uploadFailed_simps [simp]:
  "status (fst (uploadFailed dumps reqId what w)) = 500" "w_files (snd (uploadFailed dumps reqId what w)) = w_files w"
  by (simp_all add: uploadFailed_def)

lemma deleteFailed_simps [simp]:
  "status (fst (deleteFailed dumps reqId what w)) = 500" "w_files (snd (deleteFailed dumps reqId what w)) = w_files w"
  by (simp_all add: deleteFailed_def)

lemma utf8_words [simp]:
  "utf8 ''No file provided''" "utf8 ''Invalid filename''" "utf8 ''File too large''" "utf8 ''File not found''"
  "utf8 ''Invalid JSON''" "utf8 ''Missing oldName or newName''" "utf8 ''Source file not found''"
  "utf8 ''Target file already exists''" "utf8 ''success''" "utf8 ''filename''" "utf8 ''size''" "utf8 ''request_id''"
  "utf8 ''oldName''" "utf8 ''newName''" "utf8 ''Failed to rename file''"
  by (simp_all add: utf8_def)

lemma createDirectory_exists: "clean b d f \<Longrightarrow> createDirectory b f = (True, f)"
proof -
  assume "clean b d f"
  then have "stat f b = Some Directory" by (simp add: clean_def is_base_def is_dir_def stat_def)
  then show ?thesis by (simp add: createDirectory_def directoryExists_def S_IFDIR_def)
qed

text \<open>A web server over the example directory, and one request moment.\<close>

definition sample_web :: web where
  "sample_web = \<lparr>w_metrics = Metrics 0 0, w_files = sample_fs, w_counter = 0\<rparr>"

definition tick :: moment where
  "tick = \<lparr>started = 0, ended = 1000000, drawn = 0\<rparr>"

lemma sample_web_clean:
  "clean (h_backupDir (h_config (HttpServer HttpServerConfig))) [''backup''] (w_files sample_web)"
  "standard_callbacks (HttpServer HttpServerConfig)"
  "shelf sample_web [''backup''] = [''a.txt'' \<mapsto> ''old'']"
  using sample_clean sample_store
  by (simp_all add: HttpServer_def HttpServerConfig_def sample_web_def standard_callbacks_def shelf_def)

lemma sample_valid: "isValidFilename ''a.txt''" "isValidFilename ''b.txt''"
  using sample_names by (simp_all add: ok_name_def)

text \<open>The name of the directory itself cannot be written, nor renamed to.\<close>

lemma dot_path:
  assumes "clean b d f"
  shows "resolve f (b @ slash # ''.'') = Some d" "resolve f (joinPath b ''.'') = Some d" "lookup f d = Some Directory"
proof -
  have b: "is_base f b d" using assms by (simp add: clean_def)
  have v: "isValidFilename ''.''" by code_simp
  show "resolve f (b @ slash # ''.'') = Some d" "resolve f (joinPath b ''.'') = Some d" "lookup f d = Some Directory"
    using b resolve_slash[OF b v] resolve_joinPath[OF b, of "''.''"] isValidFilenameD[OF v] by (simp_all add: is_base_def is_dir_def)
qed

text \<open>
  C13: HTTP upload, on a backup directory of regular files. A request longer than the limit is answered 413 by the library, one without a file or
  with an invalid name 400, a file longer than the limit 413, the accepted name \<open>.\<close> 500, and no file
  changes. Any other upload is stored under its name, over an existing file without asking. The answer is
  then 200 if the name is UTF-8; otherwise the answer cannot be dumped, and it is 500 though the file is
  stored.
\<close>

theorem http_upload_correct:
  assumes "clean (h_backupDir (h_config h)) d (w_files w)" "dumps_utf8 dumps"
  shows "\<exists>r w'. payloadLimited h payload (postUpload dumps what h file t) w = (r, w') \<and>
    clean (h_backupDir (h_config h)) d (w_files w') \<and>
    (if unat (h_maxUploadSize (h_config h)) < payload then status r = 413 \<and> w_files w' = w_files w
     else case file of
       None \<Rightarrow> status r = 400 \<and> w_files w' = w_files w
     | Some (n, body) \<Rightarrow>
         if \<not> isValidFilename n then status r = 400 \<and> w_files w' = w_files w
         else if unat (h_maxUploadSize (h_config h)) < length body then status r = 413 \<and> w_files w' = w_files w
         else if n = ''.'' then status r = 500 \<and> w_files w' = w_files w
         else shelf w' d = (shelf w d)(n \<mapsto> body) \<and> status r = (if utf8 n then 200 else 500))"
proof (cases "unat (h_maxUploadSize (h_config h)) < payload")
  case True
  then show ?thesis using assms(1) by (simp add: payloadLimited_def)
next
  case p: False
  let ?b = "h_backupDir (h_config h)" and ?f = "w_files w"
  obtain reqId v where v: "newRequest ''/api/upload'' ''POST'' t w = (reqId, v)" by fastforce
  note id = newRequest_id[OF v]
  have st: "status (escape reqId (setContent dumps reqId st (failure reqId m))) = st" if "utf8 m" for st m
    using that assms(2) failure_utf8 id(1) by (intro status_utf8)
  show ?thesis
  proof (cases "file")
    case None
    then show ?thesis using p v id st assms(1) by (simp add: payloadLimited_def postUpload_def)
  next
    case (Some x)
    then obtain n body where x: "file = Some (n, body)" by (cases x) auto
    note u = p v id x
    consider "\<not> isValidFilename n \<or> unat (h_maxUploadSize (h_config h)) < length body"
      | "isValidFilename n" "\<not> unat (h_maxUploadSize (h_config h)) < length body" "n = ''.''"
      | "isValidFilename n" "\<not> unat (h_maxUploadSize (h_config h)) < length body" "n \<noteq> ''.''" by blast
    then show ?thesis
    proof cases
      case 1
      then show ?thesis using u st assms(1) by (auto simp: payloadLimited_def postUpload_def)
    next
      case 2
      have "storeUpload ?b n body ?f = (?f, False)"
        using dot_path[OF assms(1)] 2(3) by (simp add: storeUpload_def createDirectory_exists[OF assms(1)] write_file_def)
      with 2 u assms(1) show ?thesis
        by (simp add: payloadLimited_def postUpload_def case_prod_beta)
    next
      case 3
      then have n: "ok_name n" by (simp add: ok_name_def)
      obtain f where f: "write_file (joinPath ?b n) body ?f = Some f" using bk.put_total[OF assms(1) n] by blast
      have "storeUpload ?b n body ?f = (f, True)"
        using f slash_path(1)[OF assms(1)] 3(1) by (simp add: storeUpload_def createDirectory_exists[OF assms(1)])
      then show ?thesis
        using u 3 bk.put_look[OF assms(1) n f] bk.put_inv[OF assms(1) n f]
        by (simp add: payloadLimited_def postUpload_def setContent_utf8[OF assms(2)] shelf_def case_prod_beta)
    qed
  qed
qed

text \<open>A name in Latin-1, which the validator accepts.\<close>

definition latin_name :: string where
  "latin_name = [CHR 0xE9]"

lemma latin_name: "isValidFilename latin_name" "\<not> utf8 latin_name" "latin_name \<noteq> ''.''"
  by code_simp+

lemma dumps_exists: "dumps_utf8 utf8_json"
  by (simp add: dumps_utf8_def)

theorem http_upload_correct_witness:
  "(\<exists>r w'. payloadLimited (HttpServer HttpServerConfig) 200
       (postUpload utf8_json [] (HttpServer HttpServerConfig) (Some (''b.txt'', ''new'')) tick) sample_web = (r, w') \<and>
     status r = 200 \<and> shelf w' [''backup''] = [''a.txt'' \<mapsto> ''old'', ''b.txt'' \<mapsto> ''new'']) \<and>
   (\<exists>r w'. payloadLimited (HttpServer HttpServerConfig) 200
       (postUpload utf8_json [] (HttpServer HttpServerConfig) (Some (latin_name, ''new'')) tick) sample_web = (r, w') \<and>
     status r = 500 \<and> shelf w' [''backup''] = [''a.txt'' \<mapsto> ''old'', latin_name \<mapsto> ''new''])"
proof -
  note u = http_upload_correct[OF sample_web_clean(1) dumps_exists, of 200 "[]" _ tick]
  have l: "\<not> unat (h_maxUploadSize (h_config (HttpServer HttpServerConfig))) < 200"
    "\<not> unat (h_maxUploadSize (h_config (HttpServer HttpServerConfig))) < 3" "utf8 ''b.txt''"
    by (simp_all add: HttpServer_def HttpServerConfig_def utf8_def)
  then show ?thesis
    using u[of "Some (''b.txt'', ''new'')"] u[of "Some (latin_name, ''new'')"] latin_name sample_valid(2)
    by (auto simp: sample_web_clean(3))
qed

text \<open>
  C14: HTTP delete, on a backup directory of regular files and with the callbacks that \<open>initialize\<close> sets, or
  none. An invalid name is answered 400 and a missing file 404, and no file changes. A file
  that is there is removed, and nothing else; the answer is then 200 if the name is UTF-8, and 500 though
  the file is removed if it is not.
\<close>

theorem http_delete_correct:
  assumes "clean (h_backupDir (h_config h)) d (w_files w)" "dumps_utf8 dumps" "standard_callbacks h"
  shows "\<exists>r w'. deleteFiles dumps what h n t w = (r, w') \<and>
    clean (h_backupDir (h_config h)) d (w_files w') \<and>
    (if \<not> isValidFilename n then status r = 400 \<and> w_files w' = w_files w
     else if shelf w d n = None then status r = 404 \<and> w_files w' = w_files w
     else shelf w' d = (shelf w d)(n := None) \<and> status r = (if utf8 n then 200 else 500))"
proof -
  let ?b = "h_backupDir (h_config h)" and ?f = "w_files w"
  obtain reqId v where v: "newRequest ''/api/files'' ''DELETE'' t w = (reqId, v)" by fastforce
  note id = newRequest_id[OF v]
  have u: "utf8_json (failure reqId m)" if "utf8 m" for m using that id(1) by (rule failure_utf8)
  show ?thesis
  proof (cases "isValidFilename n \<and> shelf w d n \<noteq> None")
    case False
    then show ?thesis
      using v id u assms(1) slash_path(2)[OF assms(1), of n] fileExists_store[OF assms(1), of n]
      by (cases "isValidFilename n")
        (simp_all add: deleteFiles_def escape_def setContent_utf8[OF assms(2)] shelf_def Let_def)
  next
    case True
    then have n: "ok_name n" using stored_ok_name[OF assms(1)] by (simp add: shelf_def)
    obtain f where f: "unlink (joinPath ?b n) ?f = Some f"
      using bk.del_none[OF assms(1) n] True by (auto simp: shelf_def)
    have d: "(case fileDeleteCallback h of Some cb \<Rightarrow> cb n (w_files v)
        | None \<Rightarrow> deleteFile (?b @ slash # n) (w_files v)) = (True, f)"
      using assms(3) id(2) f slash_path(3)[OF assms(1), of n] True
      by (auto simp: standard_callbacks_def deleteFile_def)
    show ?thesis
      using v id True d bk.del_look[OF assms(1) n f] bk.del_inv[OF assms(1) n f]
        slash_path(2)[OF assms(1), of n] fileExists_store[OF assms(1), of n]
      by (simp add: deleteFiles_def setContent_utf8[OF assms(2)] shelf_def Let_def case_prod_beta)
  qed
qed

theorem http_delete_correct_witness:
  "\<exists>r w'. deleteFiles utf8_json [] (HttpServer HttpServerConfig) ''a.txt'' tick sample_web = (r, w') \<and>
     status r = 200 \<and> shelf w' [''backup''] = Map.empty"
proof -
  have "utf8 ''a.txt''" by (simp add: utf8_def)
  then show ?thesis
    using http_delete_correct[OF sample_web_clean(1) dumps_exists sample_web_clean(2), of "[]" "''a.txt''" tick]
    by (auto simp: sample_web_clean(3) sample_valid)
qed

lemma field_utf8: "utf8_json j \<Longrightarrow> field j key = Some x \<Longrightarrow> utf8_json x"
  by (cases j) (auto simp: field_def dest!: map_of_SomeD)

text \<open>What becomes of a rename that asks for two names.\<close>

lemma renameFiles_correct:
  assumes "clean (h_backupDir (h_config h)) d (w_files w)" "dumps_utf8 dumps" "standard_callbacks h"
    and "utf8 reqId" "utf8 m" "utf8 n"
  shows "\<exists>r w'. renameFiles dumps h reqId m n w = (r, w') \<and> clean (h_backupDir (h_config h)) d (w_files w') \<and>
    (if \<not> isValidFilename m \<or> \<not> isValidFilename n then status r = 400 \<and> w_files w' = w_files w
     else if shelf w d m = None then status r = 404 \<and> w_files w' = w_files w
     else if shelf w d n \<noteq> None then status r = 409 \<and> w_files w' = w_files w
     else if n = ''.'' then status r = 500 \<and> w_files w' = w_files w
     else status r = 200 \<and> shelf w' d = (shelf w d)(m := None, n := shelf w d m))"
proof -
  let ?b = "h_backupDir (h_config h)" and ?f = "w_files w"
  note ex = slash_path(2)[OF assms(1)] fileExists_store[OF assms(1)]
  have u: "utf8_json (failure reqId x)" if "utf8 x" for x using that assms(4) by (rule failure_utf8)
  note reply = renameFiles_def setContent_utf8[OF assms(2)] shelf_def Let_def
  show ?thesis
  proof (cases "isValidFilename m \<and> isValidFilename n \<and> shelf w d m \<noteq> None \<and> shelf w d n = None")
    case False
    then consider "\<not> (isValidFilename m \<and> isValidFilename n)"
      | "isValidFilename m" "isValidFilename n" "shelf w d m = None"
      | "isValidFilename m" "isValidFilename n" "shelf w d m \<noteq> None" "shelf w d n \<noteq> None" by fastforce
    then show ?thesis
      by cases (use assms(1) ex[of m] ex[of n] u in \<open>auto simp: reply\<close>)
  next
    case True
    then have e: "fileExists (?b @ slash # m) ?f" "\<not> fileExists (?b @ slash # n) ?f"
      using ex[of m] ex[of n] by (simp_all add: shelf_def)
    have m: "ok_name m" by (rule stored_ok_name[OF assms(1)]) (use True in \<open>simp_all add: shelf_def\<close>)
    define outcome where "outcome = (case fileRenameCallback h of Some cb \<Rightarrow> cb m n ?f
      | None \<Rightarrow> renameFile (?b @ slash # m) (?b @ slash # n) ?f)"
    have c: "outcome = renameFile (joinPath ?b m) (joinPath ?b n) ?f"
      using assms(3) slash_path(4)[OF assms(1), of n m] True
      by (auto simp: standard_callbacks_def renameFile_def outcome_def)
    show ?thesis
    proof (cases "n = ''.''")
      case Dot: True
      have "rename (joinPath ?b m) (joinPath ?b n) ?f = None"
        using dot_path[OF assms(1)] clean_resolve[OF assms(1) m] clean_entry[OF assms(1) m] Dot
        by (auto simp: rename_def is_dir_def split: option.splits)
      then have "outcome = (False, ?f)" using c by (simp add: renameFile_def)
      then show ?thesis
        using True e u assms(1) unfolding outcome_def by (simp add: reply) (simp add: Dot)
    next
      case False
      then have n: "ok_name n" using True by (simp add: ok_name_def)
      obtain f where f: "rename (joinPath ?b m) (joinPath ?b n) ?f = Some f"
        using bk.ren_none[OF assms(1) m n] True by (auto simp: shelf_def)
      then have "outcome = (True, f)" using c by (simp add: renameFile_def)
      moreover have "m \<noteq> n" using True by auto
      ultimately show ?thesis
        using True False e assms(4-6) bk.ren_look[OF assms(1) m n f] bk.ren_inv[OF assms(1) m n f]
        by (simp add: reply outcome_def)
    qed
  qed
qed

text \<open>
  C15: HTTP rename never overwrites, on a backup directory of regular files and with the callbacks that
  \<open>initialize\<close> sets, or none. A body longer than the limit is answered 413 by the library; a body that
  is not JSON, lacks a name or has a name that is no string 400, as is an invalid name; a missing source is
  404, an existing target 409, the target \<open>.\<close> 500; and in all those cases no file changes. Otherwise
  the content moves to the new name, and the answer is 200.
\<close>

theorem http_rename_never_overwrites:
  assumes "clean (h_backupDir (h_config h)) d (w_files w)" "dumps_utf8 dumps" "parses_utf8 parse" "standard_callbacks h"
  shows "\<exists>r w'. payloadLimited h (length body) (postRename dumps parse h body t) w = (r, w') \<and>
    clean (h_backupDir (h_config h)) d (w_files w') \<and>
    (if unat (h_maxUploadSize (h_config h)) < length body then status r = 413 \<and> w_files w' = w_files w
     else case Option.bind (parse body) (\<lambda>j. do { x \<leftarrow> field j ''oldName''; y \<leftarrow> field j ''newName''; Some (x, y) }) of
       Some (JString m, JString n) \<Rightarrow>
         if \<not> isValidFilename m \<or> \<not> isValidFilename n then status r = 400 \<and> w_files w' = w_files w
         else if shelf w d m = None then status r = 404 \<and> w_files w' = w_files w
         else if shelf w d n \<noteq> None then status r = 409 \<and> w_files w' = w_files w
         else if n = ''.'' then status r = 500 \<and> w_files w' = w_files w
         else status r = 200 \<and> shelf w' d = (shelf w d)(m := None, n := shelf w d m)
     | _ \<Rightarrow> status r = 400 \<and> w_files w' = w_files w)"
proof (cases "unat (h_maxUploadSize (h_config h)) < length body")
  case True
  then show ?thesis using assms(1) by (simp add: payloadLimited_def)
next
  case p: False
  obtain reqId v where v: "newRequest ''/api/rename'' ''POST'' t w = (reqId, v)" by fastforce
  note id = newRequest_id[OF v]
  have bad: "status (badJson dumps reqId) = 400"
    unfolding badJson_def using assms(2) id(1) by (intro status_utf8 failure_utf8) simp_all
  have missing: "status (case setContent dumps reqId 400 (failure reqId ''Missing oldName or newName'') of
      Some r \<Rightarrow> r | None \<Rightarrow> badJson dumps reqId) = 400"
    using id(1) failure_utf8 by (simp add: setContent_utf8[OF assms(2)])
  let ?names = "Option.bind (parse body) (\<lambda>j. do { x \<leftarrow> field j ''oldName''; y \<leftarrow> field j ''newName''; Some (x, y) })"
  show ?thesis
  proof (cases "\<exists>m n. ?names = Some (JString m, JString n)")
    case True
    then obtain j m n where j: "parse body = Some j" "field j ''oldName'' = Some (JString m)" "field j ''newName'' = Some (JString n)"
      by (auto simp: bind_eq_Some_conv)
    then have "utf8_json j" using assms(3) by (simp add: parses_utf8_def)
    then have "utf8 m" "utf8 n" using field_utf8[of j] j(2,3) by fastforce+
    then obtain r w' where r: "renameFiles dumps h reqId m n v = (r, w')" "clean (h_backupDir (h_config h)) d (w_files w')"
      "if \<not> isValidFilename m \<or> \<not> isValidFilename n then status r = 400 \<and> w_files w' = w_files v
       else if shelf v d m = None then status r = 404 \<and> w_files w' = w_files v
       else if shelf v d n \<noteq> None then status r = 409 \<and> w_files w' = w_files v
       else if n = ''.'' then status r = 500 \<and> w_files w' = w_files v
       else status r = 200 \<and> shelf w' d = (shelf v d)(m := None, n := shelf v d m)"
      using renameFiles_correct[of h d v dumps reqId m n] assms(1,2,4) id by auto
    have "payloadLimited h (length body) (postRename dumps parse h body t) w = (r, stopTimer ''http_rename'' t w')"
      using p v j r(1) by (simp add: payloadLimited_def postRename_def)
    then show ?thesis
      using p j r(2) r(3)[unfolded shelf_def id(2)]
      by (intro exI[of _ r] exI[of _ "stopTimer ''http_rename'' t w'"]) (simp add: shelf_def)
  next
    case False
    then show ?thesis
      using p v id bad missing assms(1)
      by (auto simp: payloadLimited_def postRename_def split: option.splits json.splits)
  qed
qed

text \<open>A parser of objects with two members that are plain strings.\<close>

definition sample_parse :: "string \<Rightarrow> json option" where
  "sample_parse body =
     (case getlines (CHR 0x22) body of
        [a, k1, b, v1, c, k2, d, v2, e] \<Rightarrow>
          (let j = JObject [(k1, JString v1), (k2, JString v2)]
           in if [a, b, c, d, e] = [''{'', '':'', '','', '':'', ''}''] \<and> utf8_json j then Some j else None)
      | _ \<Rightarrow> None)"

lemma sample_parse_utf8: "parses_utf8 sample_parse"
  by (auto simp: parses_utf8_def sample_parse_def Let_def split: list.splits if_splits)

definition sample_body :: string where
  "sample_body = ''{\"oldName\":\"a.txt\",\"newName\":\"b.txt\"}''"

lemma sample_body:
  "sample_parse sample_body = Some (JObject [(''oldName'', JString ''a.txt''), (''newName'', JString ''b.txt'')])"
  "length sample_body = 37"
  by code_simp+

theorem http_rename_never_overwrites_witness:
  "\<exists>r w'. payloadLimited (HttpServer HttpServerConfig) (length sample_body)
       (postRename utf8_json sample_parse (HttpServer HttpServerConfig) sample_body tick) sample_web = (r, w') \<and>
     status r = 200 \<and> shelf w' [''backup''] = [''b.txt'' \<mapsto> ''old'']"
proof -
  have l: "\<not> unat (h_maxUploadSize (h_config (HttpServer HttpServerConfig))) < 37"
    by (simp add: HttpServer_def HttpServerConfig_def)
  have s: "[''a.txt'' \<mapsto> ''old''](''a.txt'' := None, ''b.txt'' := Some ''old'') = [''b.txt'' \<mapsto> ''old'']"
    by (auto simp: fun_eq_iff)
  show ?thesis
    using http_rename_never_overwrites[OF sample_web_clean(1) dumps_exists sample_parse_utf8 sample_web_clean(2),
        of sample_body tick] sample_body l s
    by (auto simp: sample_web_clean(3) sample_valid field_def)
qed

section \<open>What the report shows\<close>

text \<open>
  The counters by command of the metrics report stay at zero. The UDP server records a command
  under the name that \<open>commandToString\<close> gives it; none of these names is one the report reads.
\<close>

theorem report_misses_commands:
  "name \<in> {''ls'', ''send'', ''remove'', ''rename''} \<Longrightarrow>
     getRequestCount (fold recordRequest (map commandToString commands) (Metrics s0 t0)) name = 0"
proof -
  assume n: "name \<in> {''ls'', ''send'', ''remove'', ''rename''}"
  have "commandToString c \<noteq> name" for c using n by (cases c) auto
  then have "name \<notin> set (map commandToString commands)" by auto
  then have "getRequestCount (fold recordRequest (map commandToString commands) (Metrics s0 t0)) name =
      getRequestCount (Metrics s0 t0) name"
    by (rule requests.get_bumps_absent)
  then show ?thesis by (simp add: getRequestCount_def Metrics_def)
qed

theorem report_misses_commands_witness:
  "getRequestCount (fold recordRequest (map commandToString [LS, SEND, LS]) (Metrics 0 0)) ''ls'' = 0"
  by (rule report_misses_commands) simp

text \<open>
  The success rate is a percentage as long as there are no more failures than sessions; with more
  failures the unsigned difference wraps around and the rate exceeds 100 by far.
\<close>

theorem success_rate:
  assumes "0 < sessions" "sessions < 2 ^ 32" "failures < 2 ^ 32"
  shows "if failures \<le> sessions then 0 \<le> successRate sessions failures \<and> successRate sessions failures \<le> 100
    else 100 < successRate sessions failures"
proof -
  define k where "k = unat sessions"
  define e where "e = unat (sessions - failures)"
  have s: "0 < k" "k < 2 ^ 32"
    using assms(1,2) by (simp_all add: k_def unat_gt_0 word_less_nat_alt)
  have fs: "fl (of_nat k) = of_nat k" using s(2) by (intro fl_of_nat) simp
  let ?x = "fl (100 * fl (of_nat e))"
  have rate: "successRate sessions failures = fl (?x / of_nat k)"
    using assms(1) fs by (simp add: successRate_def k_def e_def)
  show ?thesis
  proof (cases "failures \<le> sessions")
    case True
    then have d: "e \<le> k" by (simp add: e_def k_def unat_sub word_le_nat_alt)
    then have fd: "fl (of_nat e) = of_nat e" using s(2) by (intro fl_of_nat) simp
    have "fl (of_nat (100 * e)) = of_nat (100 * e)" using d s(2) by (intro fl_of_nat) simp
    then have x: "?x = 100 * of_nat e" using fd by simp
    have q: "?x / of_nat k \<le> 100" "0 \<le> ?x / of_nat k"
      unfolding x using d s(1) by (simp_all add: field_simps)
    have "fl (?x / of_nat k) \<le> fl 100"
    proof (cases "?x / of_nat k = 0")
      case True
      then show ?thesis using fl_nonneg[of 100] by (simp only: fl_0)
    next
      case False
      with q have "0 < ?x / of_nat k" by linarith
      then show ?thesis using q(1) by (rule fl_mono_pos)
    qed
    moreover have "fl 100 = 100" using fl_of_nat[of 100] by simp
    ultimately show ?thesis using True rate fl_nonneg[OF q(2)] by simp
  next
    case False
    have "e = 2 ^ 64 + k - unat failures"
      using False by (simp add: e_def k_def unat_sub_if_size word_size word_le_nat_alt not_le)
    moreover have "unat failures < 2 ^ 32" using assms(3) by (simp add: word_less_nat_alt)
    ultimately have d: "2 ^ 63 \<le> e" by simp
    have "(2::rat) ^ 63 = pow2 63" by (simp add: pow2_nonneg)
    then have f63: "fl (2 ^ 63) = 2 ^ 63" using fl_scale[of 1 63] fl_of_nat[of 1] by simp
    have "(of_nat (2 ^ 63) :: rat) \<le> of_nat e" "(of_nat k :: rat) \<le> of_nat (2 ^ 32)"
      using d s(2) by (simp_all only: of_nat_le_iff less_imp_le)
    then have r: "(2 ^ 63 :: rat) \<le> of_nat e" "(of_nat k :: rat) \<le> 2 ^ 32" by simp_all
    have "fl (2 ^ 63) \<le> fl (of_nat e)" by (rule fl_mono_pos) (use r in simp_all)
    then have "2 ^ 63 \<le> 100 * fl (of_nat e)" using f63 by simp
    then have "fl (2 ^ 63) \<le> ?x" by (rule fl_mono_pos[rotated]) simp
    then have x: "2 ^ 63 \<le> ?x" using f63 by simp
    have "(2 ^ 63 :: rat) / 2 ^ 32 \<le> ?x / of_nat k"
      by (rule frac_le) (use x s r in simp_all)
    then have "(200 :: rat) \<le> ?x / of_nat k" by simp
    then have "fl 200 \<le> fl (?x / of_nat k)" by (rule fl_mono_pos[rotated]) simp
    moreover have "fl 200 = 200" using fl_of_nat[of 200] by simp
    ultimately show ?thesis using False rate by simp
  qed
qed

theorem success_rate_witness:
  "100 < successRate 1 2 \<and> successRate 2 1 \<le> 100"
proof -
  have "\<not> (2 :: u64) \<le> 1" "(1 :: u64) \<le> 2" "(2 :: u64) < 2 ^ 32" "(1 :: u64) < 2 ^ 32" by code_simp+
  note w = this
  have "100 < successRate 1 2" using success_rate[of 1 2] w(3,4) unfolding if_not_P[OF w(1)] by simp
  moreover have "successRate 2 1 \<le> 100" using success_rate[of 2 1] w(3,4) unfolding if_P[OF w(2)] by simp
  ultimately show ?thesis by simp
qed

end
