(* ===== verification/Startup.thy ===== *)
theory Startup
  imports Server Http_Server Client
begin

text \<open>
  Starting the programs: \<open>Server::initialize\<close> and the command lines of \<open>src/server/main.cpp\<close> and
  \<open>src/client/main.cpp\<close>. The logger is not modelled.
\<close>

section \<open>\<open>Server::initialize\<close>\<close>

text \<open>How the creation of the UDP socket goes; \<open>UdpBound\<close> carries the port \<open>getsockname\<close> reports.\<close>

datatype udp_setup = UdpSocketFails | UdpBindFails | UdpBound u16

definition httpServerOf :: "server_config \<Rightarrow> http_server" where
  "httpServerOf cfg =
     (let h = HttpServer (HttpServerConfig\<lparr>h_port := httpPort cfg, h_backupDir := backupDir cfg,
                h_staticDir := staticDir cfg, h_maxUploadSize := maxFileSize cfg\<rparr>);
          h = setFileListCallback (listDirectory (backupDir cfg)) h;
          h = setFileDeleteCallback (\<lambda>filename. deleteFile (joinPath (backupDir cfg) filename)) h
      in setFileRenameCallback (\<lambda>oldName newName.
           renameFile (joinPath (backupDir cfg) oldName) (joinPath (backupDir cfg) newName)) h)"

text \<open>
  \<open>canListen\<close> and \<open>drain\<close> say how the management server's thread will go (see \<open>Http_Life\<close>); the
  server object holds its life, the object with routes and callbacks is returned beside it.
\<close>

definition initialize ::
  "udp_setup \<Rightarrow> bool \<Rightarrow> nat option \<Rightarrow> server \<Rightarrow> ErrorCode \<times> server \<times> http_server option" where
  "initialize udp canListen drain s =
     (case udp of
        UdpSocketFails \<Rightarrow> (SOCKET_CREATE_ERROR, s, None)
      | UdpBindFails \<Rightarrow> (SOCKET_BIND_ERROR, s, None)
      | UdpBound port \<Rightarrow>
          (let s = s\<lparr>actualUdpPort := port, os := set_nonblocking (os s)\<rparr>;
               s = set_files (snd (createDirectory (backupDir (config s)) (files s))) s
           in if enableHttpServer (config s)
              then (SUCCESS, s\<lparr>httpServer := Some (HttpLife canListen drain)\<rparr>, Some (httpServerOf (config s)))
              else (SUCCESS, s, None)))"

section \<open>Command lines\<close>

text \<open>\<open>std::atoi\<close>; \<open>None\<close> is a value outside \<open>int\<close>, for which it is undefined.\<close>

definition is_digit :: "char \<Rightarrow> bool" where
  "is_digit c \<longleftrightarrow> (let n = of_char c :: nat in 48 \<le> n \<and> n \<le> 57)"

definition digits_value :: "string \<Rightarrow> nat" where
  "digits_value s = foldl (\<lambda>n c. 10 * n + (of_char c - 48)) 0 s"

definition atoi :: "string \<Rightarrow> int option" where
  "atoi s =
     (let t = dropWhile isspace s;
          negative = (t \<noteq> [] \<and> hd t = CHR ''-'');
          t = (if t \<noteq> [] \<and> (hd t = CHR ''-'' \<or> hd t = CHR ''+'') then tl t else t);
          n = int (digits_value (takeWhile is_digit t));
          v = (if negative then - n else n)
      in if - (2 ^ 31) \<le> v \<and> v < 2 ^ 31 then Some v else None)"

text \<open>What \<open>main\<close> does with its arguments: start with a configuration, or exit with a code.\<close>

datatype 'c command_line = Start 'c bool | Exit int

fun serverArgs :: "string list \<Rightarrow> server_config \<Rightarrow> bool \<Rightarrow> server_config command_line option" where
  "serverArgs [] cfg fileLog = Some (Start cfg fileLog)"
| "serverArgs (a # v # rest) cfg fileLog =
     (if a = ''-port'' then
        Option.bind (atoi v) (\<lambda>n. serverArgs rest (cfg\<lparr>udpPort := of_int n\<rparr>) fileLog)
      else if a = ''-http'' then
        Option.bind (atoi v) (\<lambda>n. serverArgs rest (cfg\<lparr>httpPort := of_int n\<rparr>) fileLog)
      else if a = ''-backup'' then serverArgs rest (cfg\<lparr>backupDir := v\<rparr>) fileLog
      else if a = ''-static'' then serverArgs rest (cfg\<lparr>staticDir := v\<rparr>) fileLog
      else if a = ''-no-http'' then serverArgs (v # rest) (cfg\<lparr>enableHttpServer := False\<rparr>) fileLog
      else if a = ''-log'' then serverArgs (v # rest) cfg True
      else if a = ''-help'' \<or> a = ''--help'' then Some (Exit 0)
      else Some (Exit 1))"
| "serverArgs [a] cfg fileLog =
     (if a = ''-no-http'' then serverArgs [] (cfg\<lparr>enableHttpServer := False\<rparr>) fileLog
      else if a = ''-log'' then serverArgs [] cfg True
      else if a = ''-help'' \<or> a = ''--help'' then Some (Exit 0)
      else Some (Exit 1))"

fun clientArgs :: "string list \<Rightarrow> client_config \<Rightarrow> bool \<Rightarrow> bool \<Rightarrow> client_config command_line option" where
  "clientArgs [] cfg fileLog portProvided =
     Some (if portProvided then Start cfg fileLog else Exit 1)"
| "clientArgs (a # v # rest) cfg fileLog portProvided =
     (if a = ''-port'' then
        Option.bind (atoi v) (\<lambda>n. clientArgs rest (cfg\<lparr>serverPort := of_int n\<rparr>) fileLog True)
      else if a = ''-address'' then clientArgs rest (cfg\<lparr>serverHost := v\<rparr>) fileLog portProvided
      else if a = ''-log'' then clientArgs (v # rest) cfg True portProvided
      else if a = ''-help'' \<or> a = ''--help'' then Some (Exit 0)
      else Some (Exit 1))"
| "clientArgs [a] cfg fileLog portProvided =
     (if a = ''-log'' then clientArgs [] cfg True portProvided
      else if a = ''-help'' \<or> a = ''--help'' then Some (Exit 0)
      else Some (Exit 1))"

text \<open>
  The exit code of the processes: \<open>arguments\<close> without the program name; the start of the server
  takes the rest of the world as its further arguments.
\<close>

definition serverMain ::
  "string list \<Rightarrow> udp_setup \<Rightarrow> bool \<Rightarrow> nat option \<Rightarrow> metrics \<Rightarrow> os \<Rightarrow> tcp_session list \<Rightarrow> nat option \<Rightarrow>
   int option" where
  "serverMain arguments udp canListen drain m w tcp stop = do {
     start \<leftarrow> serverArgs arguments ServerConfig False;
     case start of
       Exit code \<Rightarrow> Some code
     | Start cfg fileLog \<Rightarrow>
         (case initialize udp canListen drain (Server cfg m w tcp stop) of
            (result, s, http) \<Rightarrow>
              if result \<noteq> SUCCESS then Some 1
              else do {
                (result, s) \<leftarrow> Server.run s;
                Some (if result \<noteq> SUCCESS then 1 else 0)
              })
   }"

definition clientMain ::
  "string list \<Rightarrow> bool \<Rightarrow> (string \<Rightarrow> u32 option) \<Rightarrow> os \<Rightarrow> string \<Rightarrow> tcp_client list \<Rightarrow> int option" where
  "clientMain arguments created resolveHost w input tcp = do {
     start \<leftarrow> clientArgs arguments ClientConfig False False;
     case start of
       Exit code \<Rightarrow> Some code
     | Start cfg fileLog \<Rightarrow>
         (case Client.initialize created (resolveHost (serverHost cfg)) (Client cfg w input tcp) of
            (result, c) \<Rightarrow>
              if result \<noteq> SUCCESS then Some 1
              else do {
                (result, c) \<leftarrow> Client.run c;
                Some (if result \<noteq> SUCCESS then 1 else 0)
              })
   }"

section \<open>Properties\<close>

text \<open>Reading back a printed number.\<close>

lemma of_char_digit: "d < 10 \<Longrightarrow> (of_char (digit_char d) :: nat) = 48 + d"
  by (simp add: digit_char_def)

lemma digits_value_snoc: "digits_value (s @ [c]) = 10 * digits_value s + (of_char c - 48)"
  by (simp add: digits_value_def)

lemma digits_value_print_nat: "digits_value (print_nat n) = n"
proof (induction n rule: print_nat.induct)
  case (1 n)
  show ?case
  proof (cases "n < 10")
    case True
    then show ?thesis by (subst print_nat.simps) (simp add: digits_value_def of_char_digit)
  next
    case False
    then show ?thesis using 1 by (subst print_nat.simps) (simp add: digits_value_snoc of_char_digit)
  qed
qed

lemma print_nat_digits: "\<forall>c \<in> set (print_nat n). is_digit c"
proof (induction n rule: print_nat.induct)
  case (1 n)
  then show ?case
    by (subst print_nat.simps) (auto simp: is_digit_def of_char_digit)
qed

lemma digit_not_special: "is_digit c \<Longrightarrow> \<not> isspace c \<and> c \<noteq> CHR ''-'' \<and> c \<noteq> CHR ''+''"
  by (auto simp: is_digit_def isspace_def Let_def)

lemma atoi_print_nat: "n < 2 ^ 31 \<Longrightarrow> atoi (print_nat n) = Some (int n)"
proof -
  assume n: "n < 2 ^ 31"
  obtain c cs where c: "print_nat n = c # cs" using print_nat_nonempty[of n] by (cases "print_nat n") auto
  have d: "is_digit c" "\<forall>x \<in> set (print_nat n). is_digit x" using print_nat_digits[of n] c by auto
  have "dropWhile isspace (print_nat n) = print_nat n" using digit_not_special[OF d(1)] c by simp
  moreover have "takeWhile is_digit (print_nat n) = print_nat n" using d(2) by (simp add: takeWhile_eq_all_conv)
  ultimately show ?thesis
    using n digit_not_special[OF d(1)] c digits_value_print_nat[of n] by (simp add: atoi_def Let_def)
qed

text \<open>
  The port on the command line is taken modulo 65536: a port below that is used as given, and a
  larger number silently becomes another port (65536 becomes 0, which asks the system for any).
\<close>

theorem port_argument_wraps:
  assumes "n < 2 ^ 31"
  shows "serverArgs [''-port'', print_nat n] ServerConfig False =
      Some (Start (ServerConfig\<lparr>udpPort := of_nat n\<rparr>) False) \<and>
    clientArgs [''-port'', print_nat n] ClientConfig False False =
      Some (Start (ClientConfig\<lparr>serverPort := of_nat n\<rparr>) False) \<and>
    unat (of_nat n :: u16) = n mod 65536"
  using atoi_print_nat[OF assms] by (simp add: unat_of_nat)

theorem port_argument_wraps_witness:
  "unat (of_nat 65536 :: u16) = 0 \<and>
   serverArgs [''-port'', print_nat 65536] ServerConfig False =
     Some (Start (ServerConfig\<lparr>udpPort := of_nat 65536\<rparr>) False)"
  using port_argument_wraps[of 65536] by simp

text \<open>
  After a successful \<open>initialize\<close> the UDP socket is non-blocking and bound to the reported port,
  the backup directory is the configured one, and the management server, if enabled, works on the
  same directory through the same file operations and limits uploads to the configured size.
\<close>

theorem initialize_success:
  assumes "initialize udp canListen drain s = (SUCCESS, s', http)"
  shows "udp = UdpBound (actualUdpPort s') \<and> nonblocking (os s') \<and> config s' = config s \<and>
    files s' = snd (createDirectory (backupDir (config s)) (files s)) \<and>
    (case http of
       None \<Rightarrow> \<not> enableHttpServer (config s)
     | Some h \<Rightarrow> enableHttpServer (config s) \<and> httpServer s' = Some (HttpLife canListen drain) \<and>
         h_backupDir (h_config h) = backupDir (config s) \<and> h_maxUploadSize (h_config h) = maxFileSize (config s) \<and>
         fileListCallback h = Some (listDirectory (backupDir (config s))) \<and>
         fileDeleteCallback h = Some (\<lambda>n. deleteFile (joinPath (h_backupDir (h_config h)) n)) \<and>
         fileRenameCallback h = Some (\<lambda>m n. renameFile (joinPath (h_backupDir (h_config h)) m)
           (joinPath (h_backupDir (h_config h)) n)))"
  using assms
  by (auto simp: initialize_def httpServerOf_def HttpServer_def setFileListCallback_def
      setFileDeleteCallback_def setFileRenameCallback_def set_nonblocking_def set_files_def files_def
      Let_def split: udp_setup.splits if_splits)

definition first_boot :: server where
  "first_boot = Server ServerConfig (Metrics 0 0) (quiet_os empty_fs) [] None"

theorem initialize_success_witness:
  "\<exists>s' h. initialize (UdpBound 4711) True (Some 7) first_boot = (SUCCESS, s', Some h) \<and> nonblocking (os s') \<and>
     h_backupDir (h_config h) = ''backup''"
proof -
  have "enableHttpServer (config first_boot)" "backupDir (config first_boot) = ''backup''"
    by (simp_all add: first_boot_def Server_def ServerConfig_def)
  moreover obtain s' h where i: "initialize (UdpBound 4711) True (Some 7) first_boot = (SUCCESS, s', Some h)"
    using calculation(1) by (simp add: initialize_def Let_def set_files_def)
  ultimately show ?thesis using initialize_success[OF i] by auto
qed

end
