(* ===== verification/Packets.thy ===== *)
theory Packets
  imports Prelude
begin

unbundle bit_operations_syntax

text \<open>
  The packets of the transport-protocol labs (\<open>src/original-labs/gbn.c\<close> and \<open>stable.c\<close>, which
  share this code) and their checksum: a 16-bit sum with at most one carry folded in per byte,
  complemented. Sequence numbers are C integers; the lab keeps them far below an overflow. The
  checksum field is only ever added to an unsigned sum, so it is kept as the 32 bits it consists of.
\<close>

section \<open>Packets and checksum\<close>

record pkt =
  seqnum :: int
  acknum :: int
  checksum :: u32
  payload :: string

definition NOTUSED :: int where
  "NOTUSED = 0"

text \<open>One round of the loop: add a byte, then fold the upper half into the lower one.\<close>

definition add_byte :: "u32 \<Rightarrow> char \<Rightarrow> u32" where
  "add_byte acc c =
     (let acc = acc + of_nat (of_char c)
      in if acc AND 0xFFFF0000 \<noteq> 0 then (acc AND 0xFFFF) + drop_bit 16 acc else acc)"

definition packet_sum :: "pkt \<Rightarrow> u32" where
  "packet_sum packet =
     foldl add_byte (word_of_int (seqnum packet) + word_of_int (acknum packet)) (payload packet)"

definition ComputeChecksum :: "pkt \<Rightarrow> pkt" where
  "ComputeChecksum packet = packet\<lparr>checksum := NOT (packet_sum packet AND 0xFFFF)\<rparr>"

definition CheckCorrupted :: "pkt \<Rightarrow> bool" where
  "CheckCorrupted packet \<longleftrightarrow> (packet_sum packet + checksum packet) AND 0xFFFF \<noteq> 0xFFFF"

text \<open>What the simulated channel does to a packet it corrupts.\<close>

definition corrupt :: "pkt \<Rightarrow> pkt" where
  "corrupt packet = packet\<lparr>payload := (payload packet)[0 := CHR ''Z''], seqnum := 999999, acknum := 999999\<rparr>"

section \<open>What the checksum notices\<close>

lemma uint_low16: "uint ((x :: u32) AND 0xFFFF) = uint x mod 65536"
proof -
  have "x AND 0xFFFF = take_bit 16 x" by (simp add: take_bit_eq_mask mask_eq_decr_exp)
  then have "uint (x AND 0xFFFF) = take_bit 16 (uint x)" by (simp only: unsigned_take_bit_eq)
  then show ?thesis by (simp add: take_bit_eq_mod)
qed

lemma mod_less_one: "(a - c mod m - 1) mod m = (- 1) mod m \<longleftrightarrow> a mod m = c mod (m :: int)"
  by (simp add: mod_eq_dvd_iff) (metis mod_eq_dvd_iff mod_mod_trivial)

lemma check_iff:
  assumes "checksum q = NOT (c AND 0xFFFF)"
  shows "CheckCorrupted q \<longleftrightarrow> uint (packet_sum q) mod 65536 \<noteq> uint c mod 65536"
proof -
  let ?s = "packet_sum q" and ?t = "c AND 0xFFFF"
  have "?s + NOT ?t = ?s - ?t - 1" by (simp only: not_eq_complement add_diff_eq add_uminus_conv_diff)
  then have "uint (?s + NOT ?t) = (uint ?s - uint ?t - 1) mod 2 ^ 32"
    by (simp only: uint_word_ariths mod_simps uint_1_eq) simp
  then have "uint (?s + NOT ?t) mod 65536 = (uint ?s - uint c mod 65536 - 1) mod 65536"
    by (simp add: uint_low16 mod_mod_cancel)
  moreover have "(?s + NOT ?t) AND 0xFFFF = 0xFFFF \<longleftrightarrow> uint (?s + NOT ?t) mod 65536 = 65535"
    unfolding word_uint_eq_iff uint_low16 by simp
  moreover have "(- 1 :: int) mod 65536 = 65535" by simp
  ultimately show ?thesis unfolding CheckCorrupted_def assms using mod_less_one[of "uint ?s" "uint c" 65536] by (simp only:)
qed

lemma packet_sum_checksum [simp]: "packet_sum (packet\<lparr>checksum := x\<rparr>) = packet_sum packet"
  by (simp add: packet_sum_def)

lemma ComputeChecksum_simps [simp]:
  "seqnum (ComputeChecksum p) = seqnum p" "acknum (ComputeChecksum p) = acknum p"
  "payload (ComputeChecksum p) = payload p" "packet_sum (ComputeChecksum p) = packet_sum p"
  by (simp_all add: ComputeChecksum_def)

lemma computed_not_corrupted [simp]: "\<not> CheckCorrupted (ComputeChecksum p)"
  using check_iff[of "ComputeChecksum p" "packet_sum p"] by (simp add: ComputeChecksum_def)

lemma of_char_less_256: "of_char c < (256 :: nat)"
  by simp

lemma unat_byte: "unat (of_nat (of_char c) :: u32) = of_char c"
proof -
  obtain k :: nat where k: "k = of_char c" "k < 256" by (metis of_char_less_256)
  then show ?thesis unfolding unat_of_nat k(1)[symmetric] by simp
qed

lemma unat_add_byte:
  assumes "unat x + of_char c < (65536 :: nat)"
  shows "unat (add_byte x c) = unat x + of_char c"
proof -
  define y where "y = x + of_nat (of_char c)"
  have c: "unat (of_nat (of_char c) :: u32) = of_char c" by (rule unat_byte)
  have u: "unat y = unat x + of_char c" unfolding y_def unat_word_ariths c using assms by simp
  then have "uint y < 65536" using assms unfolding uint_nat by linarith
  then have "uint y mod 65536 = uint y" by (intro mod_pos_pos_trivial uint_ge_0)
  then have "y = y AND 0xFFFF" unfolding word_uint_eq_iff uint_low16 by (rule sym)
  then have "y AND 0xFFFF0000 = y AND (0xFFFF AND 0xFFFF0000)" by (metis and.assoc)
  then have "y AND 0xFFFF0000 = 0" by simp
  then show ?thesis using u by (simp add: add_byte_def y_def[symmetric])
qed

lemma unat_sum_bytes:
  "unat x + sum_list (map of_char cs) < (65536 :: nat) \<Longrightarrow>
     unat (foldl add_byte x cs) = unat x + sum_list (map of_char cs)"
proof (induction cs arbitrary: x)
  case (Cons c cs)
  then have "unat (add_byte x c) = unat x + of_char c" by (intro unat_add_byte) simp
  with Cons show ?case by simp
qed simp

lemma sum_bytes_bound: "sum_list (map of_char cs) \<le> 255 * length cs"
proof (induction cs)
  case (Cons c cs)
  obtain k :: nat where k: "k = of_char c" "k < 256" by (metis of_char_less_256)
  then show ?case using Cons unfolding list.map sum_list.Cons list.size k(1)[symmetric] by simp
qed simp

lemma corrupted_head: "add_byte (word_of_int 999999 + word_of_int 999999) (CHR ''Z'') = 34038"
  by (simp add: add_byte_def)

lemma corrupt_iff:
  assumes "length (payload p) = 20" "0 \<le> seqnum p + acknum p" "seqnum p + acknum p \<le> 60000"
  shows "CheckCorrupted (corrupt (ComputeChecksum p)) \<longleftrightarrow>
      seqnum p + acknum p + of_char (payload p ! 0) \<noteq> 34038"
proof -
  obtain c cs where p: "payload p = c # cs" "length cs = 19" using assms(1) by (cases "payload p") auto
  define n where "n = nat (seqnum p + acknum p)"
  have n: "seqnum p + acknum p = int n" "n \<le> 60000" using assms(2,3) by (simp_all add: n_def)
  have s: "word_of_int (seqnum p) + word_of_int (acknum p) = (of_nat n :: u32)"
    using n(1) by (metis of_int_add of_int_of_nat_eq)
  have un: "unat (of_nat n :: u32) = n" using n(2) by (simp add: unat_of_nat)
  let ?r = "sum_list (map of_char cs) :: nat"
  have r: "?r \<le> 4845" using sum_bytes_bound[of cs] p(2) by simp
  have cc: "of_char c < (256 :: nat)" by simp
  have sp: "unat (packet_sum p) = n + of_char c + ?r"
    using unat_sum_bytes[of "of_nat n" "c # cs"] un n(2) r cc by (simp add: packet_sum_def s p(1))
  let ?q = "corrupt (ComputeChecksum p)"
  have "packet_sum ?q = foldl add_byte 34038 cs"
    using corrupted_head by (simp add: packet_sum_def corrupt_def p(1))
  then have sq: "unat (packet_sum ?q) = 34038 + ?r" using unat_sum_bytes[of 34038 cs] r by simp
  have "checksum ?q = NOT (packet_sum p AND 0xFFFF)" by (simp add: corrupt_def ComputeChecksum_def)
  from check_iff[OF this] have "CheckCorrupted ?q \<longleftrightarrow> int (34038 + ?r) mod 65536 \<noteq> int (n + of_char c + ?r) mod 65536"
    by (simp only: uint_nat sp sq)
  also have "int (34038 + ?r) mod 65536 = int (34038 + ?r)" using r by simp
  also have "int (n + of_char c + ?r) mod 65536 = int (n + of_char c + ?r)"
    using r n(2) cc by (intro mod_pos_pos_trivial) linarith+
  also have "int (34038 + ?r) \<noteq> int (n + of_char c + ?r) \<longleftrightarrow> int n + of_char c \<noteq> 34038"
    using of_nat_of_char[of c, where ?'a = int] by auto
  finally show ?thesis using p(1) n(1) by simp
qed

text \<open>
  C25: the checksum accepts every packet it was computed for, and notices the channel's corruption of a
  data or acknowledgement packet with number at most 60000 unless the number and the first byte add
  up to exactly 34038 (so always, for numbers up to 33782).
\<close>

theorem corruption_noticed:
  assumes "length (payload p) = 20" "0 \<le> seqnum p + acknum p" "seqnum p + acknum p \<le> 60000"
  shows "\<not> CheckCorrupted (ComputeChecksum p) \<and>
    (CheckCorrupted (corrupt (ComputeChecksum p)) \<longleftrightarrow>
      seqnum p + acknum p + of_char (payload p ! 0) \<noteq> 34038)"
  using corrupt_iff[OF assms] by simp

lemma corrupt_small:
  "length (payload p) = 20 \<Longrightarrow> 0 \<le> seqnum p + acknum p \<Longrightarrow> seqnum p + acknum p \<le> 33782 \<Longrightarrow>
     CheckCorrupted (corrupt (ComputeChecksum p))"
proof -
  assume a: "length (payload p) = 20" "0 \<le> seqnum p + acknum p" "seqnum p + acknum p \<le> 33782"
  obtain k :: nat where k: "k = of_char (payload p ! 0)" "k < 256" by (metis of_char_less_256)
  have "(of_char (payload p ! 0) :: int) = int k" unfolding k(1) by (rule of_nat_of_char[symmetric])
  then have "(of_char (payload p ! 0) :: int) < 256" using k(2) by linarith
  with corrupt_iff[of p] a show ?thesis by simp
qed

theorem corruption_noticed_witness:
  "CheckCorrupted (corrupt (ComputeChecksum \<lparr>seqnum = 33941, acknum = 0, checksum = 0, payload = replicate 20 (CHR ''b'')\<rparr>)) \<and>
   \<not> CheckCorrupted (corrupt (ComputeChecksum \<lparr>seqnum = 33941, acknum = 0, checksum = 0, payload = replicate 20 (CHR ''a'')\<rparr>))"
  using corruption_noticed[of "\<lparr>seqnum = 33941, acknum = 0, checksum = 0, payload = replicate 20 (CHR ''b'')\<rparr>"]
    corruption_noticed[of "\<lparr>seqnum = 33941, acknum = 0, checksum = 0, payload = replicate 20 (CHR ''a'')\<rparr>"]
  by simp

end
