(* ===== verification/Emulator.thy ===== *)
theory Emulator
  imports Packets Doubles
begin

text \<open>
  The network emulator of the transport labs (section III and IV of \<open>src/original-labs/gbn.c\<close>): a
  list of future events ordered by time, a channel that delivers, corrupts or loses packets after a
  pattern the user types, and timers. Both protocols extend its state record by their own variables.
  Times are C \<open>float\<close>s; \<open>fl24\<close> rounds to one. Printing (all of it behind \<open>TRACE\<close>) and the doubly
  linked cells of the event list are left out: the list is a list. \<open>layer5\<close> records what the
  protocol hands to the receiving application.
\<close>

section \<open>State\<close>

definition fl24 :: "rat \<Rightarrow> rat" where
  "fl24 x =
     (if x = 0 then 0
      else let e = ulp_exp \<bar>x\<bar> + 29 in of_int (round_even (x / pow2 e)) * pow2 e)"

datatype entity = A | B

datatype evtype = TimerInterrupt int | FromLayer5 | FromLayer3 pkt

record event =
  evtime :: rat
  evtype :: evtype
  eventity :: entity

record net =
  time :: rat
  evlist :: "event list"
  pattern :: string
  cp :: int
  ntolayer3 :: int
  nlost :: int
  ncorrupt :: int
  nsim :: int
  nsimmax :: int
  lambda :: rat
  layer5 :: "string list"

definition RTT :: rat where
  "RTT = 15"

section \<open>The event list\<close>

fun insert_event :: "event \<Rightarrow> event list \<Rightarrow> event list" where
  "insert_event p [] = [p]"
| "insert_event p (q # qs) =
     (if evtime q \<le> evtime p then q # insert_event p qs else p # q # qs)"

definition insertevent :: "event \<Rightarrow> 'a net_scheme \<Rightarrow> 'a net_scheme" where
  "insertevent p s = s\<lparr>evlist := insert_event p (evlist s)\<rparr>"

definition generate_next_arrival :: "'a net_scheme \<Rightarrow> 'a net_scheme" where
  "generate_next_arrival s =
     (if nsimmax s \<le> nsim s then s
      else (insertevent \<lparr>evtime = fl24 (fl (time s + lambda s)), evtype = FromLayer5, eventity = A\<rparr> s)
             \<lparr>nsim := nsim s + 1\<rparr>)"

definition starttime_r :: "int \<Rightarrow> entity \<Rightarrow> rat \<Rightarrow> 'a net_scheme \<Rightarrow> 'a net_scheme" where
  "starttime_r pkt_seq AorB increment s =
     insertevent \<lparr>evtime = fl24 (time s + increment), evtype = TimerInterrupt pkt_seq, eventity = AorB\<rparr> s"

text \<open>The first timer of the packet, if there is one, is taken off the list.\<close>

fun cancel :: "entity \<Rightarrow> int \<Rightarrow> event list \<Rightarrow> event list" where
  "cancel AorB pkt_del [] = []"
| "cancel AorB pkt_del (q # qs) =
     (if evtype q = TimerInterrupt pkt_del \<and> eventity q = AorB then qs
      else q # cancel AorB pkt_del qs)"

definition stoptime_r :: "entity \<Rightarrow> int \<Rightarrow> 'a net_scheme \<Rightarrow> 'a net_scheme" where
  "stoptime_r AorB pkt_del s = s\<lparr>evlist := cancel AorB pkt_del (evlist s)\<rparr>"

section \<open>The channel\<close>

fun other :: "entity \<Rightarrow> entity" where
  "other A = B"
| "other B = A"

text \<open>The fate of the next packet: \<open>x\<close> loses it, \<open>-\<close> corrupts it, everything else delivers it.\<close>

definition fate :: "'a net_scheme \<Rightarrow> char" where
  "fate s = pattern s ! nat (cp s mod int (length (pattern s)))"

definition tolayer3 :: "entity \<Rightarrow> pkt \<Rightarrow> 'a net_scheme \<Rightarrow> 'a net_scheme" where
  "tolayer3 AorB packet s =
     (let s = s\<lparr>cp := cp s + 1, ntolayer3 := ntolayer3 s + 1\<rparr>
      in if fate s = CHR ''x'' then s\<lparr>nlost := nlost s + 1\<rparr>
         else let arrival = fl24 (fl (fl (time s + RTT / 2) - 1));
                  q = (if fate s = CHR ''-'' then corrupt packet else packet);
                  s = (if fate s = CHR ''-'' then s\<lparr>ncorrupt := ncorrupt s + 1\<rparr> else s)
              in insertevent \<lparr>evtime = arrival, evtype = FromLayer3 q, eventity = other AorB\<rparr> s)"

definition tolayer5 :: "string \<Rightarrow> 'a net_scheme \<Rightarrow> 'a net_scheme" where
  "tolayer5 datasent s = s\<lparr>layer5 := layer5 s @ [datasent]\<rparr>"

text \<open>\<open>init\<close> with the answers of the user.\<close>

definition start_net :: "int \<Rightarrow> rat \<Rightarrow> string \<Rightarrow> net" where
  "start_net messages interval channel =
     generate_next_arrival
       \<lparr>time = 0, evlist = [], pattern = channel, cp = -1, ntolayer3 = 0, nlost = 0, ncorrupt = 0,
        nsim = 0, nsimmax = messages, lambda = interval, layer5 = []\<rparr>"

text \<open>The message of an arrival: twenty times the letter of the current count.\<close>

definition letters :: "int \<Rightarrow> string" where
  "letters n = replicate 20 (char_of (97 + n mod 26))"

text \<open>The next event is taken off the list and its time becomes the current time.\<close>

definition next_event :: "'a net_scheme \<Rightarrow> (event \<times> 'a net_scheme) option" where
  "next_event s =
     (case evlist s of
        [] \<Rightarrow> None
      | e # rest \<Rightarrow> Some (e, s\<lparr>evlist := rest, time := evtime e\<rparr>))"

section \<open>Facts about the event list\<close>

lemma set_insert_event [simp]: "set (insert_event p qs) = insert p (set qs)"
  by (induction qs) auto

lemma set_cancel: "set (cancel e n qs) \<subseteq> set qs"
  by (induction qs) auto

definition in_order :: "event list \<Rightarrow> bool" where
  "in_order qs \<longleftrightarrow> sorted (map evtime qs)"

text \<open>
  Events of one time keep the order in which they were inserted, and cancelling a timer or inserting
  an event leaves the list ordered by time.
\<close>

lemma insert_event_sorted: "in_order qs \<Longrightarrow> in_order (insert_event p qs)"
  unfolding in_order_def by (induction qs) auto

lemma cancel_sorted: "in_order qs \<Longrightarrow> in_order (cancel e n qs)"
  unfolding in_order_def
proof (induction qs)
  case (Cons q qs)
  then show ?case using set_cancel[of e n qs] by auto
qed simp

lemma insert_event_stable:
  "in_order qs \<Longrightarrow>
     filter (\<lambda>q. evtime q = t) (insert_event p qs) =
     filter (\<lambda>q. evtime q = t) qs @ (if evtime p = t then [p] else [])"
  unfolding in_order_def
proof (induction qs)
  case (Cons q qs)
  show ?case
  proof (cases "evtime q \<le> evtime p")
    case True
    with Cons show ?thesis by auto
  next
    case False
    then have "filter (\<lambda>x. evtime x = evtime p) (q # qs) = []"
      using Cons.prems by (auto simp: filter_empty_conv)
    with False show ?thesis by auto
  qed
qed simp

text \<open>What the emulator does to the parts of the state it does not own: nothing.\<close>

lemma emulator_simps [simp]:
  "layer5 (insertevent p s) = layer5 s" "nsim (insertevent p s) = nsim s"
  "nsimmax (insertevent p s) = nsimmax s" "pattern (insertevent p s) = pattern s"
  "evlist (insertevent p s) = insert_event p (evlist s)"
  "layer5 (starttime_r n e d s) = layer5 s" "nsim (starttime_r n e d s) = nsim s"
  "nsimmax (starttime_r n e d s) = nsimmax s" "pattern (starttime_r n e d s) = pattern s"
  "layer5 (stoptime_r e n s) = layer5 s" "nsim (stoptime_r e n s) = nsim s"
  "nsimmax (stoptime_r e n s) = nsimmax s" "pattern (stoptime_r e n s) = pattern s"
  "layer5 (tolayer3 e q s) = layer5 s" "nsim (tolayer3 e q s) = nsim s"
  "nsimmax (tolayer3 e q s) = nsimmax s" "pattern (tolayer3 e q s) = pattern s"
  "layer5 (generate_next_arrival s) = layer5 s" "nsimmax (generate_next_arrival s) = nsimmax s"
  by (simp_all add: insertevent_def starttime_r_def stoptime_r_def tolayer3_def Let_def generate_next_arrival_def)

section \<open>The main loop\<close>

text \<open>
  A protocol is a step function: it handles the next event, or says how the program stops: the list is
  empty, the code calls \<open>exit\<close>, or it leaves the bounds of an array, where C defines nothing. The loop
  that takes the steps is defined for any program that runs in rounds.
\<close>

datatype stop = Terminated | Exit | Undefined

partial_function (option) simulate :: "('s \<Rightarrow> 'r + 's) \<Rightarrow> 's \<Rightarrow> ('r \<times> 's) option" where
  "simulate step s = (case step s of Inl r \<Rightarrow> Some (r, s) | Inr t \<Rightarrow> simulate step t)"

inductive reach :: "('s \<Rightarrow> 'r + 's) \<Rightarrow> 's \<Rightarrow> 's \<Rightarrow> bool" for step :: "'s \<Rightarrow> 'r + 's" where
  reach_here: "reach step s s"
| reach_next: "reach step s t \<Longrightarrow> step t = Inr u \<Longrightarrow> reach step s u"

fun steps :: "('s \<Rightarrow> 'r + 's) \<Rightarrow> nat \<Rightarrow> 's \<Rightarrow> 's option" where
  "steps step 0 s = Some s"
| "steps step (Suc n) s = (case step s of Inl r \<Rightarrow> None | Inr t \<Rightarrow> steps step n t)"

lemma reach_step: "reach step t u \<Longrightarrow> step s = Inr t \<Longrightarrow> reach step s u"
  by (induction rule: reach.induct) (blast intro: reach.intros)+

lemma reach_trans: "reach step t u \<Longrightarrow> reach step s t \<Longrightarrow> reach step s u"
  by (induction rule: reach.induct) (blast intro: reach.intros)+

lemma steps_reach: "steps step n s = Some t \<Longrightarrow> reach step s t"
  by (induction n arbitrary: s) (auto intro: reach_here reach_step split: sum.splits)

text \<open>A simulation that ends does so in a reachable state without a next step.\<close>

lemma simulate_reach:
  fixes step :: "'s \<Rightarrow> 'r + 's"
  assumes "simulate step s = Some (r, t)"
  shows "reach step s t \<and> step t = Inl r"
proof -
  define P :: "('s \<Rightarrow> 'r + 's) \<Rightarrow> 's \<Rightarrow> 'r \<times> 's \<Rightarrow> bool"
    where "P = (\<lambda>step s z. reach step s (snd z) \<and> step (snd z) = Inl (fst z))"
  have "P step s (r, t)"
  proof (rule simulate.raw_induct[of P, OF _ assms])
    fix sim :: "('s \<Rightarrow> 'r + 's) \<Rightarrow> 's \<Rightarrow> ('r \<times> 's) option" and step s z
    assume ih: "\<And>step s z. sim step s = Some z \<Longrightarrow> P step s z"
      and z: "(case step s of Inl r \<Rightarrow> Some (r, s) | Inr t \<Rightarrow> sim step t) = Some z"
    show "P step s z"
    proof (cases "step s")
      case (Inl r)
      with z show ?thesis by (auto simp: P_def intro: reach_here)
    next
      case (Inr t)
      with z ih[of step t z] show ?thesis by (auto simp: P_def intro!: reach_step[of step t "snd z" s])
    qed
  qed
  then show ?thesis by (simp add: P_def)
qed

lemma simulate_reached: "reach step s t \<Longrightarrow> simulate step t = simulate step s"
proof (induction rule: reach.induct)
  case (reach_next s t u)
  then have "simulate step t = simulate step u" by (subst simulate.simps) simp
  with reach_next.IH show ?case by simp
qed simp

text \<open>
  The contract of a transport protocol: a condition that every step keeps, under which what was
  delivered is a beginning of the messages sent; a step never takes a delivery back.
\<close>

locale protocol =
  fixes step :: "'s \<Rightarrow> 'r + 's"
    and ok :: "'s \<Rightarrow> bool"
    and delivered :: "'s \<Rightarrow> 'm list"
    and msg :: "nat \<Rightarrow> 'm"
  assumes step_ok: "ok s \<Longrightarrow> step s = Inr t \<Longrightarrow> ok t"
    and in_sequence: "ok s \<Longrightarrow> delivered s = map msg [0..<length (delivered s)]"
    and step_grows: "ok s \<Longrightarrow> step s = Inr t \<Longrightarrow> length (delivered s) \<le> length (delivered t)"
begin

lemma reach_ok: "reach step s t \<Longrightarrow> ok s \<Longrightarrow> ok t"
  by (induction rule: reach.induct) (auto intro: step_ok)

lemma nth_delivered:
  "ok s \<Longrightarrow> i < length (delivered s) \<Longrightarrow> delivered s ! i = msg i"
  using arg_cong[OF in_sequence, of s "\<lambda>l. l ! i"] by simp

lemma reach_grows: "reach step s t \<Longrightarrow> ok s \<Longrightarrow> length (delivered s) \<le> length (delivered t)"
proof (induction rule: reach.induct)
  case (reach_next s t u)
  then show ?case using step_grows reach_ok by (blast intro: order_trans)
qed simp

lemma deliveries_stay:
  assumes "reach step s t" "ok s"
  shows "delivered s = take (length (delivered s)) (delivered t)"
proof -
  have "take (length (delivered s)) (map msg [0..<length (delivered t)]) = map msg [0..<length (delivered s)]"
    using reach_grows[OF assms] by (simp add: take_map)
  then show ?thesis
    unfolding in_sequence[OF reach_ok[OF assms], symmetric] in_sequence[OF assms(2), symmetric] ..
qed

end

end
