(* ===== verification/Transport.thy ===== *)
theory Transport
  imports Emulator
begin

text \<open>
  What the two protocols of the transport labs share: the sender's globals (\<open>gbn.c\<close> and \<open>stable.c\<close>
  declare the same ones), \<open>A_init\<close>, the final report, and the vocabulary of their correctness: the
  messages of a simulation, the packets that can be under way, and the arrivals still to come.
  \<open>ram\<close> is whatever \<open>malloc\<close> returns for the window buffer. C integers are integers (the lab excludes
  overflow); positions in the ring buffers are naturals.
\<close>

section \<open>State\<close>

definition MAXBUFSIZE :: nat where
  "MAXBUFSIZE = 5000"

record sender = net +
  nextseqnum :: int
  base :: int
  winbuf :: "pkt list"
  winfront :: nat
  winrear :: nat
  pktnum :: int
  buffer :: "string list"
  buffront :: nat
  bufrear :: nat
  msg_num :: nat
  ack_adv_num :: int
  packet_lost :: int
  packet_corrupt :: int
  packet_sent :: int
  packet_correct :: int
  packet_resent :: int
  packet_time_out :: int
  packet_receieve :: int
  WINDOWSIZE :: nat

definition A_init :: "net \<Rightarrow> nat \<Rightarrow> pkt list \<Rightarrow> sender" where
  "A_init n window ram =
     net.extend n (sender.fields 0 0 ram 0 0 0 (replicate MAXBUFSIZE (zeros 20)) 0 0 0 0 0 0 0 0 0 0 0 window)"

text \<open>The final report; there is no throughput when no time has passed.\<close>

definition print_info :: "'a sender_scheme \<Rightarrow> int \<times> int \<times> int \<times> int \<times> int \<times> rat option" where
  "print_info s =
     (let throughput = (if time s = 0 then None
                        else Some (fl24 (fl (fl (fl (of_int (packet_receieve s) * 32) * 8) / time s))));
          s = s\<lparr>packet_correct := packet_receieve s\<rparr>
      in (packet_sent s, packet_correct s, packet_resent s, packet_lost s, packet_corrupt s, throughput))"

text \<open>The emulator leaves the variables of the sender alone.\<close>

lemma emulator_sender [simp]:
  fixes s :: "'a sender_scheme"
  shows
  "nextseqnum (tolayer3 e p s) = nextseqnum s" "nextseqnum (starttime_r n e d s) = nextseqnum s"
  "nextseqnum (stoptime_r e n s) = nextseqnum s" "nextseqnum (generate_next_arrival s) = nextseqnum s"
  "nextseqnum (tolayer5 m s) = nextseqnum s" "base (tolayer3 e p s) = base s"
  "base (starttime_r n e d s) = base s" "base (stoptime_r e n s) = base s"
  "base (generate_next_arrival s) = base s" "base (tolayer5 m s) = base s"
  "winbuf (tolayer3 e p s) = winbuf s" "winbuf (starttime_r n e d s) = winbuf s"
  "winbuf (stoptime_r e n s) = winbuf s" "winbuf (generate_next_arrival s) = winbuf s"
  "winbuf (tolayer5 m s) = winbuf s" "winfront (tolayer3 e p s) = winfront s"
  "winfront (starttime_r n e d s) = winfront s" "winfront (stoptime_r e n s) = winfront s"
  "winfront (generate_next_arrival s) = winfront s" "winfront (tolayer5 m s) = winfront s"
  "winrear (tolayer3 e p s) = winrear s" "winrear (starttime_r n e d s) = winrear s"
  "winrear (stoptime_r e n s) = winrear s" "winrear (generate_next_arrival s) = winrear s"
  "winrear (tolayer5 m s) = winrear s" "pktnum (tolayer3 e p s) = pktnum s"
  "pktnum (starttime_r n e d s) = pktnum s" "pktnum (stoptime_r e n s) = pktnum s"
  "pktnum (generate_next_arrival s) = pktnum s" "pktnum (tolayer5 m s) = pktnum s"
  "buffer (tolayer3 e p s) = buffer s" "buffer (starttime_r n e d s) = buffer s"
  "buffer (stoptime_r e n s) = buffer s" "buffer (generate_next_arrival s) = buffer s"
  "buffer (tolayer5 m s) = buffer s" "buffront (tolayer3 e p s) = buffront s"
  "buffront (starttime_r n e d s) = buffront s" "buffront (stoptime_r e n s) = buffront s"
  "buffront (generate_next_arrival s) = buffront s" "buffront (tolayer5 m s) = buffront s"
  "bufrear (tolayer3 e p s) = bufrear s" "bufrear (starttime_r n e d s) = bufrear s"
  "bufrear (stoptime_r e n s) = bufrear s" "bufrear (generate_next_arrival s) = bufrear s"
  "bufrear (tolayer5 m s) = bufrear s" "msg_num (tolayer3 e p s) = msg_num s"
  "msg_num (starttime_r n e d s) = msg_num s" "msg_num (stoptime_r e n s) = msg_num s"
  "msg_num (generate_next_arrival s) = msg_num s" "msg_num (tolayer5 m s) = msg_num s"
  "WINDOWSIZE (tolayer3 e p s) = WINDOWSIZE s" "WINDOWSIZE (starttime_r n e d s) = WINDOWSIZE s"
  "WINDOWSIZE (stoptime_r e n s) = WINDOWSIZE s" "WINDOWSIZE (generate_next_arrival s) = WINDOWSIZE s"
  "WINDOWSIZE (tolayer5 m s) = WINDOWSIZE s"
  by (simp_all add: tolayer3_def starttime_r_def stoptime_r_def generate_next_arrival_def tolayer5_def
      insertevent_def Let_def)

section \<open>Messages and packets under way\<close>

text \<open>Message \<open>i\<close> of a simulation of \<open>N\<close> messages, and the packets that can be under way.\<close>

definition nth_message :: "int \<Rightarrow> int \<Rightarrow> string" where
  "nth_message N i = letters (min (i + 2) N)"

definition data_pkt :: "int \<Rightarrow> int \<Rightarrow> pkt" where
  "data_pkt N i = ComputeChecksum \<lparr>seqnum = i, acknum = NOTUSED, checksum = 0, payload = nth_message N i\<rparr>"

definition ack_pkt :: "int \<Rightarrow> pkt" where
  "ack_pkt k = ComputeChecksum \<lparr>seqnum = NOTUSED, acknum = k, checksum = 0, payload = zeros 20\<rparr>"

lemma pkt_simps [simp]:
  "\<not> CheckCorrupted (data_pkt N i)" "seqnum (data_pkt N i) = i" "payload (data_pkt N i) = nth_message N i"
  "\<not> CheckCorrupted (ack_pkt k)" "acknum (ack_pkt k) = k"
  "seqnum (corrupt p) = 999999" "acknum (corrupt p) = 999999"
  by (simp_all add: data_pkt_def ack_pkt_def corrupt_def)

text \<open>Up to 30000 messages the checksum notices every corruption.\<close>

lemma corrupted_noticed:
  "0 \<le> j \<Longrightarrow> j \<le> 30000 \<Longrightarrow> CheckCorrupted (corrupt (data_pkt N j))"
  "0 \<le> k \<Longrightarrow> k \<le> 30000 \<Longrightarrow> CheckCorrupted (corrupt (ack_pkt k))"
  by (simp_all add: data_pkt_def ack_pkt_def corrupt_small NOTUSED_def nth_message_def letters_def)

text \<open>The buffer holds the messages from number \<open>n\<close> on.\<close>

definition buffer_ok :: "int \<Rightarrow> int \<Rightarrow> 'a sender_scheme \<Rightarrow> bool" where
  "buffer_ok N n s \<longleftrightarrow>
     length (buffer s) = MAXBUFSIZE \<and> buffront s < MAXBUFSIZE \<and>
     bufrear s = (buffront s + msg_num s) mod MAXBUFSIZE \<and>
     (\<forall>i < msg_num s. buffer s ! ((buffront s + i) mod MAXBUFSIZE) = nth_message N (n + int i))"

lemma buffer_push:
  assumes "buffer_ok N n s" "m = nth_message N (n + int (msg_num s))" "msg_num s < MAXBUFSIZE"
  shows "buffer_ok N n (s\<lparr>buffer := (buffer s)[bufrear s := m], bufrear := (bufrear s + 1) mod MAXBUFSIZE,
    msg_num := msg_num s + 1\<rparr>)"
proof -
  have "(buffront s + i) mod MAXBUFSIZE \<noteq> (buffront s + msg_num s) mod MAXBUFSIZE" if "i < msg_num s" for i
  proof
    assume "(buffront s + i) mod MAXBUFSIZE = (buffront s + msg_num s) mod MAXBUFSIZE"
    then have "MAXBUFSIZE dvd msg_num s - i"
      using that by (metis add_diff_cancel_left less_imp_le_nat mod_eq_dvd_iff_nat nat_add_left_cancel_le)
    then show False using that assms(3) by (auto dest: dvd_imp_le)
  qed
  then have "(buffer s)[(buffront s + msg_num s) mod MAXBUFSIZE := m] ! ((buffront s + i) mod MAXBUFSIZE) =
      buffer s ! ((buffront s + i) mod MAXBUFSIZE)" if "i < msg_num s" for i
    using that by (metis nth_list_update_neq)
  moreover have "(buffront s + msg_num s) mod MAXBUFSIZE < MAXBUFSIZE" by (simp add: MAXBUFSIZE_def)
  ultimately show ?thesis using assms by (auto simp: buffer_ok_def less_Suc_eq mod_Suc_eq)
qed

lemma buffer_pop:
  assumes "buffer_ok N n s" "0 < msg_num s"
  shows "buffer s ! buffront s = nth_message N n \<and>
    buffer_ok N (n + 1) (s\<lparr>buffront := (buffront s + 1) mod MAXBUFSIZE, msg_num := msg_num s - 1\<rparr>)"
proof
  show "buffer s ! buffront s = nth_message N n" using assms by (auto simp: buffer_ok_def)
  have "\<forall>i < msg_num s - 1. buffer s ! (((buffront s + 1) mod MAXBUFSIZE + i) mod MAXBUFSIZE) =
      nth_message N (n + 1 + int i)"
  proof (intro allI impI)
    fix i
    assume "i < msg_num s - 1"
    then have "i + 1 < msg_num s" by simp
    then have "buffer s ! ((buffront s + (i + 1)) mod MAXBUFSIZE) = nth_message N (n + int (i + 1))"
      using assms(1) unfolding buffer_ok_def by blast
    then show "buffer s ! (((buffront s + 1) mod MAXBUFSIZE + i) mod MAXBUFSIZE) = nth_message N (n + 1 + int i)"
      by (simp add: mod_simps ac_simps)
  qed
  moreover have "bufrear s = ((buffront s + 1) mod MAXBUFSIZE + (msg_num s - 1)) mod MAXBUFSIZE"
  proof -
    have "buffront s + 1 + (msg_num s - 1) = buffront s + msg_num s" using assms(2) by simp
    then show ?thesis using assms(1) by (simp only: buffer_ok_def mod_add_left_eq)
  qed
  ultimately show "buffer_ok N (n + 1) (s\<lparr>buffront := (buffront s + 1) mod MAXBUFSIZE, msg_num := msg_num s - 1\<rparr>)"
    using assms(1) by (simp add: buffer_ok_def MAXBUFSIZE_def)
qed

definition event_ok :: "int \<Rightarrow> int \<Rightarrow> int \<Rightarrow> event \<Rightarrow> bool" where
  "event_ok N n x e \<longleftrightarrow>
     (case evtype e of
        TimerInterrupt k \<Rightarrow> True
      | FromLayer5 \<Rightarrow> eventity e = A
      | FromLayer3 p \<Rightarrow>
          if eventity e = B
          then \<exists>j. 0 \<le> j \<and> j < n \<and> (p = data_pkt N j \<or> p = corrupt (data_pkt N j))
          else \<exists>k. -1 \<le> k \<and> k < x \<and> (p = ack_pkt k \<or> p = corrupt (ack_pkt k)))"

definition channel_ok :: "int \<Rightarrow> int \<Rightarrow> int \<Rightarrow> 'a net_scheme \<Rightarrow> bool" where
  "channel_ok N n x s \<longleftrightarrow> (\<forall>e \<in> set (evlist s). event_ok N n x e)"

lemma event_ok_mono: "event_ok N n x e \<Longrightarrow> n \<le> n' \<Longrightarrow> x \<le> x' \<Longrightarrow> event_ok N n' x' e"
  by (fastforce simp: event_ok_def split: evtype.splits if_splits)

lemma channel_ok_mono: "channel_ok N n x s \<Longrightarrow> n \<le> n' \<Longrightarrow> x \<le> x' \<Longrightarrow> channel_ok N n' x' s"
  by (auto simp: channel_ok_def intro: event_ok_mono)

lemma channel_timers [simp]:
  "channel_ok N n x (starttime_r k e d s) \<longleftrightarrow> channel_ok N n x s"
  by (simp add: channel_ok_def starttime_r_def event_ok_def)

lemma channel_stoptime: "channel_ok N n x s \<Longrightarrow> channel_ok N n x (stoptime_r e k s)"
  using set_cancel by (fastforce simp: channel_ok_def stoptime_r_def)

lemma channel_data:
  "channel_ok N n x s \<Longrightarrow> 0 \<le> j \<Longrightarrow> j < n \<Longrightarrow> channel_ok N n x (tolayer3 A (data_pkt N j) s)"
  by (auto simp: channel_ok_def tolayer3_def Let_def event_ok_def insertevent_def)

lemma channel_ack:
  "channel_ok N n x s \<Longrightarrow> -1 \<le> k \<Longrightarrow> k < x \<Longrightarrow> channel_ok N n x (tolayer3 B (ack_pkt k) s)"
  by (auto simp: channel_ok_def tolayer3_def Let_def event_ok_def insertevent_def)

lemma channel_arrival:
  "channel_ok N n x s \<Longrightarrow> channel_ok N n x (generate_next_arrival s)"
  by (simp add: channel_ok_def generate_next_arrival_def event_ok_def)

text \<open>The slot of a number of the window is written only by that number.\<close>

lemma slot_inject:
  assumes "n - int w \<le> j" "j < n" "0 \<le> j" "0 < w" "nat j mod w = nat n mod w"
  shows "j = n - int w"
proof -
  have "j mod int w = n mod int w"
    using assms(2,3,5) by (metis nat_eq_iff2 order_le_less_trans order_less_imp_le zmod_int)
  then have "int w dvd n - j" by (simp add: mod_eq_dvd_iff dvd_diff_commute)
  then obtain c where c: "n - j = int w * c" by (auto simp: dvd_def)
  have w: "0 < int w" using assms(4) by simp
  have "int w * 0 < int w * c" "int w * c \<le> int w * 1" using c assms(1,2) by linarith+
  then have "0 < c" "c \<le> 1" by (simp_all only: mult_less_cancel_left_pos[OF w] mult_le_cancel_left_pos[OF w])
  then have "c = 1" by simp
  with c show ?thesis by simp
qed

section \<open>Arrivals\<close>

definition arrivals :: "'a net_scheme \<Rightarrow> nat" where
  "arrivals s = length (filter (\<lambda>e. evtype e = FromLayer5) (evlist s))"

text \<open>What concerns the arrivals is the same in both states.\<close>

definition steady :: "'a net_scheme \<Rightarrow> 'a net_scheme \<Rightarrow> bool" where
  "steady s t \<longleftrightarrow> arrivals t = arrivals s \<and> nsim t = nsim s \<and> nsimmax t = nsimmax s"

lemma steady_refl [simp]: "steady s s"
  by (simp add: steady_def)

lemma steady_trans: "steady s t \<Longrightarrow> steady t u \<Longrightarrow> steady s u"
  by (simp add: steady_def)

lemma arrivals_insert:
  "length (filter (\<lambda>e. evtype e = FromLayer5) (insert_event p qs)) =
     length (filter (\<lambda>e. evtype e = FromLayer5) (p # qs))"
  by (induction qs) auto

lemma arrivals_cancel:
  "length (filter (\<lambda>e. evtype e = FromLayer5) (cancel e n qs)) = length (filter (\<lambda>e. evtype e = FromLayer5) qs)"
  by (induction qs) auto

lemma steady_net:
  "steady s (starttime_r n e d s)" "steady s (stoptime_r e n s)" "steady s (tolayer3 e q s)"
  by (simp_all add: steady_def arrivals_def starttime_r_def stoptime_r_def tolayer3_def Let_def insertevent_def
      arrivals_insert arrivals_cancel)

lemma steady_fields:
  "steady s t \<Longrightarrow> evlist t = evlist t' \<Longrightarrow> nsim t = nsim t' \<Longrightarrow> nsimmax t = nsimmax t' \<Longrightarrow> steady s t'"
  by (simp add: steady_def arrivals_def)

text \<open>All messages handed over so far, counted against the arrivals still to come.\<close>

definition arrivals_ok :: "'a sender_scheme \<Rightarrow> bool" where
  "arrivals_ok s \<longleftrightarrow>
     (let given = nextseqnum s + int (msg_num s)
      in (nsim s = given \<and> arrivals s = 0 \<or> nsim s = given + 1 \<and> arrivals s = 1) \<and>
         nsim s \<le> max (nsimmax s) 0)"

lemma arrivals_steady:
  "steady s t \<Longrightarrow> arrivals_ok s \<Longrightarrow>
     nextseqnum t + int (msg_num t) = nextseqnum s + int (msg_num s) \<Longrightarrow> arrivals_ok t"
  by (simp add: steady_def arrivals_ok_def)

text \<open>What an arrival hands over, and the count after the handler took it.\<close>

lemma arrival_message:
  assumes "nsim s = n + 1" "0 \<le> n" "nsim s \<le> max N 0" "nsimmax s = N"
  shows "letters (nsim (generate_next_arrival s)) = nth_message N n"
proof -
  have "nsim (generate_next_arrival s) = min (n + 2) N"
    using assms by (cases "N \<le> nsim s") (auto simp: generate_next_arrival_def)
  then show ?thesis by (simp add: nth_message_def)
qed

lemma arrival_counted:
  assumes "nsim s = n + 1" "0 \<le> n" "nsim s \<le> max N 0" "nsimmax s = N" "arrivals s = 0"
    and "steady (generate_next_arrival s) t" "nextseqnum t + int (msg_num t) = n + 1"
  shows "arrivals_ok t"
proof -
  have "arrivals t = (if N \<le> nsim s then 0 else 1)" "nsim t = (if N \<le> nsim s then nsim s else nsim s + 1)"
    "nsimmax t = N"
    using assms(4-6) by (simp_all add: steady_def generate_next_arrival_def arrivals_def arrivals_insert)
  then show ?thesis
    using assms(1-3) unfolding arrivals_ok_def Let_def assms(7) by (cases "N \<le> nsim s") auto
qed

end
