(* ===== verification/Gbn.thy ===== *)
theory Gbn
  imports Transport
begin

text \<open>
  The Go-Back-N protocol of \<open>src/original-labs/gbn.c\<close>: the handlers of the sender A and the receiver B,
  and the main loop over the emulator's events.
\<close>

section \<open>State\<close>

record gbn = sender +
  expected_seqnum :: int

definition start :: "int \<Rightarrow> rat \<Rightarrow> string \<Rightarrow> nat \<Rightarrow> pkt list \<Rightarrow> gbn" where
  "start messages interval channel window ram =
     sender.extend (A_init (start_net messages interval channel) window ram) (gbn.fields 0)"

section \<open>Sender\<close>

definition A_output :: "string \<Rightarrow> gbn \<Rightarrow> gbn" where
  "A_output message s =
     (if nextseqnum s < base s + int (WINDOWSIZE s)
      then let packet = ComputeChecksum
                 \<lparr>seqnum = nextseqnum s, acknum = NOTUSED, checksum = 0, payload = message\<rparr>;
               s = s\<lparr>winbuf := (winbuf s)[winrear s := packet],
                     winrear := (winrear s + 1) mod WINDOWSIZE s, pktnum := pktnum s + 1\<rparr>;
               s = tolayer3 A packet s;
               s = s\<lparr>packet_sent := packet_sent s + 1\<rparr>;
               s = (if base s = nextseqnum s - 1 then starttime_r (base s) A RTT s else s)
           in s\<lparr>nextseqnum := nextseqnum s + 1\<rparr>
      else s\<lparr>buffer := (buffer s)[bufrear s := message],
             bufrear := (bufrear s + 1) mod MAXBUFSIZE, msg_num := msg_num s + 1\<rparr>)"

text \<open>The loop that drops acknowledged packets from the window; the window has \<open>WINDOWSIZE\<close> slots.\<close>

fun release :: "nat \<Rightarrow> gbn \<Rightarrow> gbn" where
  "release 0 s = s"
| "release (Suc k) s =
     (if winfront s \<noteq> winrear s \<and> seqnum (winbuf s ! winfront s) < base s
      then release k (s\<lparr>winfront := (winfront s + 1) mod WINDOWSIZE s, pktnum := pktnum s - 1\<rparr>)
      else s)"

lemma emulator_gbn [simp]:
  "expected_seqnum (tolayer3 e p s) = expected_seqnum s" "expected_seqnum (starttime_r n e d s) = expected_seqnum s"
  "expected_seqnum (stoptime_r e n s) = expected_seqnum s"
  "expected_seqnum (generate_next_arrival s) = expected_seqnum s" "expected_seqnum (tolayer5 m s) = expected_seqnum s"
  by (simp_all add: tolayer3_def starttime_r_def stoptime_r_def generate_next_arrival_def tolayer5_def
      insertevent_def Let_def)

lemma A_output_open:
  "nextseqnum s < base s + int (WINDOWSIZE s) \<Longrightarrow> msg_num (A_output m s) = msg_num s"
  by (simp add: A_output_def Let_def)

text \<open>The loop that sends buffered messages while the window has room.\<close>

function drain :: "gbn \<Rightarrow> gbn" where
  "drain s =
     (if 0 < msg_num s \<and> nextseqnum s < base s + int (WINDOWSIZE s)
      then drain (A_output (buffer s ! buffront s)
             (s\<lparr>buffront := (buffront s + 1) mod MAXBUFSIZE, msg_num := msg_num s - 1\<rparr>))
      else s)"
  by pat_completeness auto

termination
  by (relation "measure msg_num") (auto simp: A_output_open)

declare drain.simps [simp del]

definition A_input :: "pkt \<Rightarrow> gbn \<Rightarrow> gbn" where
  "A_input packet s =
     (if CheckCorrupted packet then s
      else let acknum = acknum packet
        in if acknum = NOTUSED then s
           else if base s \<le> acknum \<and> acknum < nextseqnum s
           then let s = s\<lparr>packet_correct := packet_correct s + (acknum - base s + 1)\<rparr>;
                    s = stoptime_r A (base s) s;
                    s = s\<lparr>base := acknum + 1\<rparr>;
                    s = release (WINDOWSIZE s) s;
                    s = (if base s < nextseqnum s then starttime_r (base s) A RTT s else s)
                in drain s
           else s)"

fun resend :: "nat list \<Rightarrow> gbn \<Rightarrow> gbn" where
  "resend [] s = s"
| "resend (i # is) s =
     (let packet = winbuf s ! ((winfront s + i) mod WINDOWSIZE s);
          s = tolayer3 A packet s
      in resend is (s\<lparr>packet_sent := packet_sent s + 1, packet_resent := packet_resent s + 1\<rparr>))"

definition A_packet_time_rinterrupt :: "int \<Rightarrow> gbn \<Rightarrow> gbn" where
  "A_packet_time_rinterrupt pkt_seq s =
     (if pkt_seq \<noteq> base s then s
      else let s = resend [0..<nat (nextseqnum s - base s)] s;
               s = starttime_r (base s) A RTT s
           in s\<lparr>packet_time_out := packet_time_out s + 1\<rparr>)"

section \<open>Receiver and main loop\<close>

definition B_input :: "pkt \<Rightarrow> gbn \<Rightarrow> gbn" where
  "B_input packet s =
     (if CheckCorrupted packet then s\<lparr>packet_corrupt := packet_corrupt s + 1\<rparr>
      else let s = (if seqnum packet = expected_seqnum s
                    then (tolayer5 (payload packet) s)
                           \<lparr>packet_receieve := packet_receieve s + 1, expected_seqnum := expected_seqnum s + 1\<rparr>
                    else s);
               ack_packet = ComputeChecksum
                 \<lparr>seqnum = NOTUSED, acknum = expected_seqnum s - 1, checksum = 0, payload = zeros 20\<rparr>
           in tolayer3 B ack_packet s)"

definition handle :: "event \<Rightarrow> gbn \<Rightarrow> gbn" where
  "handle e s =
     (case evtype e of
        FromLayer5 \<Rightarrow>
          (let s = generate_next_arrival s
           in if eventity e = A then A_output (letters (nsim s)) s else s)
      | FromLayer3 packet \<Rightarrow> if eventity e = A then A_input packet s else B_input packet s
      | TimerInterrupt pkt_seq \<Rightarrow>
          if eventity e = A then A_packet_time_rinterrupt pkt_seq s else s)"

definition gbn_step :: "gbn \<Rightarrow> stop + gbn" where
  "gbn_step s = (case next_event s of None \<Rightarrow> Inl Terminated | Some (e, s) \<Rightarrow> Inr (handle e s))"

end
