(* ===== verification/Gbn_Safety.thy ===== *)
theory Gbn_Safety
  imports Gbn
begin

text \<open>
  What Go-Back-N guarantees over every channel: the application at B gets the messages of A in order,
  each once and unaltered. The invariant says which packets the window, the buffer and the event list
  hold; each handler is shown to keep its part of it.
\<close>

section \<open>The invariant\<close>

definition window_ok :: "int \<Rightarrow> gbn \<Rightarrow> bool" where
  "window_ok N s \<longleftrightarrow>
     0 < WINDOWSIZE s \<and> length (winbuf s) = WINDOWSIZE s \<and> winfront s < WINDOWSIZE s \<and>
     winrear s = nat (nextseqnum s) mod WINDOWSIZE s \<and>
     0 \<le> base s \<and> base s \<le> nextseqnum s \<and> nextseqnum s \<le> base s + int (WINDOWSIZE s) \<and>
     (\<forall>j. 0 \<le> j \<longrightarrow> nextseqnum s - int (WINDOWSIZE s) \<le> j \<longrightarrow> j < nextseqnum s \<longrightarrow>
        winbuf s ! (nat j mod WINDOWSIZE s) = data_pkt N j) \<and>
     (nextseqnum s < int (WINDOWSIZE s) \<longrightarrow> winfront s = nat (base s))"

definition receiver_ok :: "int \<Rightarrow> gbn \<Rightarrow> bool" where
  "receiver_ok N s \<longleftrightarrow>
     base s \<le> expected_seqnum s \<and> expected_seqnum s \<le> nextseqnum s \<and>
     layer5 s = map (\<lambda>i. nth_message N (int i)) [0..<nat (expected_seqnum s)]"

section \<open>Window and buffer\<close>

lemma A_output_open_ok:
  assumes "window_ok N s" "nextseqnum s < base s + int (WINDOWSIZE s)" "m = nth_message N (nextseqnum s)"
    and "channel_ok N (nextseqnum s) x s"
  shows "window_ok N (A_output m s) \<and> nextseqnum (A_output m s) = nextseqnum s + 1 \<and>
    base (A_output m s) = base s \<and> WINDOWSIZE (A_output m s) = WINDOWSIZE s \<and>
    channel_ok N (nextseqnum s + 1) x (A_output m s) \<and>
    buffer_ok N n (A_output m s) = buffer_ok N n s \<and> msg_num (A_output m s) = msg_num s \<and>
    expected_seqnum (A_output m s) = expected_seqnum s \<and> layer5 (A_output m s) = layer5 s"
proof -
  let ?w = "WINDOWSIZE s" and ?n = "nextseqnum s"
  have n: "0 \<le> ?n" "0 < ?w" using assms(1) by (simp_all add: window_ok_def)
  have p: "ComputeChecksum \<lparr>seqnum = ?n, acknum = NOTUSED, checksum = 0, payload = m\<rparr> = data_pkt N ?n"
    using assms(3) by (simp add: data_pkt_def)
  let ?s = "s\<lparr>winbuf := (winbuf s)[winrear s := data_pkt N ?n],
      winrear := (winrear s + 1) mod ?w, pktnum := pktnum s + 1\<rparr>"
  define t where "t = tolayer3 A (data_pkt N ?n) ?s"
  have "channel_ok N (?n + 1) x ?s"
    using channel_ok_mono[OF assms(4), of "?n + 1" x] by (simp add: channel_ok_def)
  then have t: "channel_ok N (?n + 1) x t" unfolding t_def using n by (intro channel_data) simp_all
  define u where "u = (if base t = nextseqnum t - 1
    then starttime_r (base t) A RTT (t\<lparr>packet_sent := packet_sent t + 1\<rparr>) else t\<lparr>packet_sent := packet_sent t + 1\<rparr>)"
  have a: "A_output m s = u\<lparr>nextseqnum := nextseqnum u + 1\<rparr>"
    using assms(2) by (simp add: A_output_def Let_def p t_def u_def)
  have u: "nextseqnum u = ?n" "base u = base s" "winbuf u = (winbuf s)[winrear s := data_pkt N ?n]"
    "winfront u = winfront s" "winrear u = (winrear s + 1) mod ?w" "buffer u = buffer s" "buffront u = buffront s"
    "bufrear u = bufrear s" "msg_num u = msg_num s" "WINDOWSIZE u = ?w" "expected_seqnum u = expected_seqnum s"
    "layer5 u = layer5 s"
    by (simp_all add: u_def t_def)
  have c: "channel_ok N (?n + 1) x (A_output m s)"
    using t unfolding a u_def by (simp add: channel_ok_def starttime_r_def event_ok_def)
  have slots: "(winbuf s)[winrear s := data_pkt N ?n] ! (nat j mod ?w) = data_pkt N j"
    if j: "0 \<le> j" "?n + 1 - int ?w \<le> j" "j < ?n + 1" for j
  proof (cases "j = ?n")
    case True
    with assms(1) n(2) show ?thesis by (simp add: window_ok_def)
  next
    case False
    then have "nat j mod ?w \<noteq> winrear s"
      using slot_inject[of ?n ?w j] j n(2) assms(1) by (auto simp: window_ok_def)
    with assms(1) j False show ?thesis by (simp add: window_ok_def)
  qed
  have "(winrear s + 1) mod ?w = nat (?n + 1) mod ?w"
    using assms(1) n(1) by (simp add: window_ok_def nat_add_distrib mod_Suc_eq)
  then have "window_ok N (A_output m s)"
    using assms(1,2) slots unfolding a window_ok_def by (simp add: u)
  with c show ?thesis unfolding a by (simp add: u buffer_ok_def)
qed

lemma A_output_closed_ok:
  assumes "buffer_ok N (nextseqnum s) s" "\<not> nextseqnum s < base s + int (WINDOWSIZE s)"
    and "m = nth_message N (nextseqnum s + int (msg_num s))" "msg_num s < MAXBUFSIZE"
  shows "buffer_ok N (nextseqnum s) (A_output m s) \<and> msg_num (A_output m s) = msg_num s + 1 \<and>
    window_ok N (A_output m s) = window_ok N s \<and> channel_ok N n x (A_output m s) = channel_ok N n x s \<and>
    receiver_ok N (A_output m s) = receiver_ok N s \<and> nextseqnum (A_output m s) = nextseqnum s \<and>
    base (A_output m s) = base s \<and> WINDOWSIZE (A_output m s) = WINDOWSIZE s \<and>
    expected_seqnum (A_output m s) = expected_seqnum s"
  using buffer_push[OF assms(1,3,4)] assms(2)
  by (simp add: A_output_def window_ok_def channel_ok_def receiver_ok_def)

section \<open>Acknowledgements\<close>

lemma release_shape:
  "winfront s < WINDOWSIZE s \<Longrightarrow> \<exists>f p. release k s = s\<lparr>winfront := f, pktnum := p\<rparr> \<and> f < WINDOWSIZE s"
proof (induction k arbitrary: s)
  case 0
  then show ?case by (intro exI[of _ "winfront s"] exI[of _ "pktnum s"]) simp
next
  case (Suc k)
  let ?s = "s\<lparr>winfront := (winfront s + 1) mod WINDOWSIZE s, pktnum := pktnum s - 1\<rparr>"
  have "winfront ?s < WINDOWSIZE ?s" using Suc.prems by simp
  from Suc.IH[OF this] obtain f p where ih: "release k ?s = s\<lparr>winfront := f, pktnum := p\<rparr>" "f < WINDOWSIZE s"
    by auto
  show ?case
  proof (cases "winfront s \<noteq> winrear s \<and> seqnum (winbuf s ! winfront s) < base s")
    case True
    show ?thesis unfolding release.simps if_P[OF True] using ih by blast
  next
    case False
    show ?thesis unfolding release.simps if_not_P[OF False]
      using Suc.prems by (intro exI[of _ "winfront s"] exI[of _ "pktnum s"]) simp
  qed
qed

lemma release_exact:
  assumes "winrear s < WINDOWSIZE s" "0 \<le> base s" "nat (base s) \<le> winrear s" "winfront s \<le> nat (base s)"
    and "\<forall>j < winrear s. seqnum (winbuf s ! j) = int j" "nat (base s) - winfront s \<le> k"
  shows "winfront (release k s) = nat (base s)"
  using assms
proof (induction k arbitrary: s)
  case (Suc k)
  show ?case
  proof (cases "winfront s = nat (base s)")
    case True
    then have "\<not> (winfront s \<noteq> winrear s \<and> seqnum (winbuf s ! winfront s) < base s)"
      using Suc.prems(2,3,5) by (auto simp: nat_less_iff)
    then show ?thesis unfolding release.simps by (simp only: if_False True)
  next
    case False
    then have lt: "winfront s < nat (base s)" using Suc.prems(4) by simp
    then have c: "winfront s \<noteq> winrear s \<and> seqnum (winbuf s ! winfront s) < base s"
      using Suc.prems(2,3,5) by auto
    have "(winfront s + 1) mod WINDOWSIZE s = winfront s + 1" using lt Suc.prems(1,3) by simp
    then have "winfront (release k (s\<lparr>winfront := (winfront s + 1) mod WINDOWSIZE s, pktnum := pktnum s - 1\<rparr>)) =
        nat (base s)"
      using lt Suc.prems by (subst Suc.IH) simp_all
    then show ?thesis unfolding release.simps if_P[OF c] .
  qed
qed simp

text \<open>Raising the base and releasing what lies below it.\<close>

lemma release_ok:
  assumes "window_ok N s" "base s \<le> b" "b \<le> nextseqnum s"
  shows "window_ok N (release (WINDOWSIZE s) (s\<lparr>base := b\<rparr>))"
proof -
  let ?s = "s\<lparr>base := b\<rparr>" and ?w = "WINDOWSIZE s"
  obtain f p where f: "release ?w ?s = ?s\<lparr>winfront := f, pktnum := p\<rparr>" "f < ?w"
    using release_shape[of ?s ?w] assms(1) by (auto simp: window_ok_def)
  have "f = nat b" if n: "nextseqnum s < int ?w"
  proof -
    have r: "winrear s = nat (nextseqnum s)" using assms(1) n by (auto simp: window_ok_def nat_less_iff)
    have slots: "\<forall>j. 0 \<le> j \<longrightarrow> nextseqnum s - int ?w \<le> j \<longrightarrow> j < nextseqnum s \<longrightarrow>
        winbuf s ! (nat j mod ?w) = data_pkt N j" using assms(1) unfolding window_ok_def by blast
    have "\<forall>j < winrear s. seqnum (winbuf s ! j) = int j"
    proof (intro allI impI)
      fix j
      assume "j < winrear s"
      then have j: "int j < nextseqnum s" "j < ?w" using n r by simp_all
      then have "winbuf s ! (nat (int j) mod ?w) = data_pkt N (int j)"
        using slots[rule_format, of "int j"] n by simp
      then show "seqnum (winbuf s ! j) = int j" using j by simp
    qed
    then have "winfront (release ?w ?s) = nat (base ?s)"
      using assms n r by (intro release_exact) (auto simp: window_ok_def)
    with f(1) show ?thesis by simp
  qed
  then show ?thesis using assms f by (auto simp: window_ok_def)
qed

lemma drain_ok:
  assumes "window_ok N s" "buffer_ok N (nextseqnum s) s" "channel_ok N (nextseqnum s) (expected_seqnum s) s"
    and "receiver_ok N s"
  shows "let t = drain s in window_ok N t \<and> buffer_ok N (nextseqnum t) t \<and>
    channel_ok N (nextseqnum t) (expected_seqnum t) t \<and> receiver_ok N t \<and>
    nextseqnum t + int (msg_num t) = nextseqnum s + int (msg_num s) \<and>
    (0 < msg_num t \<longrightarrow> base t + int (WINDOWSIZE t) \<le> nextseqnum t)"
  using assms
proof (induction s rule: drain.induct)
  case (1 s)
  show ?case
  proof (cases "0 < msg_num s \<and> nextseqnum s < base s + int (WINDOWSIZE s)")
    case False
    then have "drain s = s" using drain.simps[of s] unfolding if_not_P[OF False] by blast
    with 1 False show ?thesis by auto
  next
    case True
    let ?s = "s\<lparr>buffront := (buffront s + 1) mod MAXBUFSIZE, msg_num := msg_num s - 1\<rparr>"
    let ?m = "buffer s ! buffront s"
    have m: "?m = nth_message N (nextseqnum s)" and b: "buffer_ok N (nextseqnum s + 1) ?s"
      using buffer_pop[OF "1.prems"(2)] True by simp_all
    have w: "window_ok N ?s" using "1.prems"(1) by (simp add: window_ok_def)
    have c: "channel_ok N (nextseqnum ?s) (expected_seqnum s) ?s"
      using "1.prems"(3) by (simp add: channel_ok_def)
    let ?t = "A_output ?m ?s"
    have o: "nextseqnum ?s < base ?s + int (WINDOWSIZE ?s)" using True by simp
    have m': "?m = nth_message N (nextseqnum ?s)" using m by simp
    note t = A_output_open_ok[OF w o m' c, of "nextseqnum s + 1"]
    have r: "receiver_ok N ?t" using t "1.prems"(4) by (simp add: receiver_ok_def)
    have "drain s = drain ?t" using True by (subst drain.simps) simp
    moreover note "1.IH"[OF True]
    ultimately show ?thesis using t b r True by (simp add: Let_def)
  qed
qed

lemma steady_A_output: "steady s (A_output m s)"
  by (simp add: A_output_def Let_def steady_def arrivals_def tolayer3_def starttime_r_def insertevent_def
      arrivals_insert)

lemma steady_release: "steady s (release k s)"
proof (induction k arbitrary: s)
  case (Suc k)
  have "steady s (release k (s\<lparr>winfront := f, pktnum := p\<rparr>))" for f p
    using Suc.IH[of "s\<lparr>winfront := f, pktnum := p\<rparr>"] by (simp add: steady_def arrivals_def)
  then show ?case by simp
qed simp

lemma steady_drain: "steady s (drain s)"
proof (induction s rule: drain.induct)
  case (1 s)
  show ?case
  proof (cases "0 < msg_num s \<and> nextseqnum s < base s + int (WINDOWSIZE s)")
    case False
    show ?thesis using drain.simps[of s] unfolding if_not_P[OF False] by simp
  next
    case True
    let ?s = "s\<lparr>buffront := (buffront s + 1) mod MAXBUFSIZE, msg_num := msg_num s - 1\<rparr>"
    have "steady s ?s" by (simp add: steady_def arrivals_def)
    then have "steady s (A_output (buffer s ! buffront s) ?s)" using steady_A_output by (rule steady_trans)
    then show ?thesis
      using "1.IH"[OF True] drain.simps[of s] unfolding if_P[OF True] by (auto intro: steady_trans)
  qed
qed

lemma resend_gbn [simp]:
  "nextseqnum (resend is s) = nextseqnum s" "base (resend is s) = base s"
  "winbuf (resend is s) = winbuf s" "winfront (resend is s) = winfront s" "winrear (resend is s) = winrear s"
  "buffer (resend is s) = buffer s" "buffront (resend is s) = buffront s" "bufrear (resend is s) = bufrear s"
  "msg_num (resend is s) = msg_num s" "WINDOWSIZE (resend is s) = WINDOWSIZE s"
  "expected_seqnum (resend is s) = expected_seqnum s" "layer5 (resend is s) = layer5 s"
  by (induction "is" arbitrary: s) (simp_all add: Let_def)

lemma steady_resend: "steady s (resend is s)"
proof (induction "is" arbitrary: s)
  case (Cons i "is")
  let ?t = "tolayer3 A (winbuf s ! ((winfront s + i) mod WINDOWSIZE s)) s"
  have "steady s (?t\<lparr>packet_sent := packet_sent ?t + 1, packet_resent := packet_resent ?t + 1\<rparr>)"
    using steady_net(3) by (rule steady_fields) simp_all
  with Cons.IH show ?case unfolding resend.simps Let_def by (rule steady_trans[rotated])
qed simp

section \<open>The handlers keep the invariant\<close>

definition gbn_ok :: "int \<Rightarrow> gbn \<Rightarrow> bool" where
  "gbn_ok N s \<longleftrightarrow>
     nsimmax s = N \<and> window_ok N s \<and> buffer_ok N (nextseqnum s) s \<and>
     channel_ok N (nextseqnum s) (expected_seqnum s) s \<and> receiver_ok N s \<and>
     (0 < msg_num s \<longrightarrow> base s + int (WINDOWSIZE s) \<le> nextseqnum s)"

text \<open>Every slot of the window that a timeout sends again holds a packet that was sent.\<close>

lemma window_slot:
  assumes "window_ok N s" "i < nat (nextseqnum s - base s)"
  shows "\<exists>j. 0 \<le> j \<and> j < nextseqnum s \<and> winbuf s ! ((winfront s + i) mod WINDOWSIZE s) = data_pkt N j"
proof -
  let ?w = "WINDOWSIZE s"
  have slots: "\<forall>j. 0 \<le> j \<longrightarrow> nextseqnum s - int ?w \<le> j \<longrightarrow> j < nextseqnum s \<longrightarrow>
      winbuf s ! (nat j mod ?w) = data_pkt N j" and w: "0 < ?w" "0 \<le> base s"
    using assms(1) unfolding window_ok_def by blast+
  show ?thesis
  proof (cases "nextseqnum s < int ?w")
    case True
    then have "winfront s = nat (base s)" using assms(1) by (simp add: window_ok_def)
    then have "(winfront s + i) mod ?w = nat (base s + int i) mod ?w" using w(2) by (simp add: nat_add_distrib)
    then show ?thesis
      using slots[rule_format, of "base s + int i"] assms(2) w(2) True
      by (intro exI[of _ "base s + int i"]) simp
  next
    case False
    define n where "n = nat (nextseqnum s)"
    define k where "k = (winfront s + i) mod ?w"
    define r where "r = (n - 1 - k) mod ?w"
    have n: "?w \<le> n" "nextseqnum s = int n" using False w(1) by (simp_all add: n_def)
    have k: "k < ?w" using w(1) by (simp add: k_def)
    have r: "r < ?w" "r \<le> n - 1 - k" using w(1) by (simp_all add: r_def)
    obtain q where q: "n - 1 - k = q * ?w + r" unfolding r_def by (metis div_mult_mod_eq)
    have m: "n - 1 - r = k + q * ?w" using q k n(1) by simp
    then have "(n - 1 - r) mod ?w = k" using k by simp
    moreover have "winbuf s ! (nat (int (n - 1 - r)) mod ?w) = data_pkt N (int (n - 1 - r))"
      using slots[rule_format, of "int (n - 1 - r)"] r n w(1) by simp
    moreover have "int (n - 1 - r) < nextseqnum s" using n w(1) by simp
    ultimately show ?thesis unfolding k_def[symmetric] by (intro exI[of _ "int (n - 1 - r)"]) simp
  qed
qed

lemma resend_channel:
  assumes "channel_ok N n x s"
    and "\<And>i. i \<in> set is \<Longrightarrow> \<exists>j. 0 \<le> j \<and> j < n \<and> winbuf s ! ((winfront s + i) mod WINDOWSIZE s) = data_pkt N j"
  shows "channel_ok N n x (resend is s)"
  using assms
proof (induction "is" arbitrary: s)
  case (Cons i "is")
  obtain j where j: "0 \<le> j" "j < n" "winbuf s ! ((winfront s + i) mod WINDOWSIZE s) = data_pkt N j"
    using Cons.prems(2)[of i] by auto
  let ?t = "tolayer3 A (data_pkt N j) s"
  have "channel_ok N n x (?t\<lparr>packet_sent := packet_sent ?t + 1, packet_resent := packet_resent ?t + 1\<rparr>)"
    using channel_data[OF Cons.prems(1) j(1,2)] by (simp add: channel_ok_def)
  then have "channel_ok N n x (resend is (?t\<lparr>packet_sent := packet_sent ?t + 1, packet_resent := packet_resent ?t + 1\<rparr>))"
    using Cons.prems(2) by (intro Cons.IH) simp_all
  then show ?case by (simp add: Let_def j(3))
qed simp

lemma gbn_ok_fields:
  assumes "gbn_ok N s" "evlist t = evlist s" "layer5 t = layer5 s" "nsimmax t = nsimmax s"
    "nextseqnum t = nextseqnum s" "base t = base s" "winbuf t = winbuf s" "winfront t = winfront s"
    "winrear t = winrear s" "buffer t = buffer s" "buffront t = buffront s" "bufrear t = bufrear s"
    "msg_num t = msg_num s" "WINDOWSIZE t = WINDOWSIZE s" "expected_seqnum t = expected_seqnum s"
  shows "gbn_ok N t"
  using assms by (simp add: gbn_ok_def window_ok_def buffer_ok_def channel_ok_def receiver_ok_def)

lemma timer_ok:
  assumes "gbn_ok N s"
  shows "gbn_ok N (A_packet_time_rinterrupt k s) \<and> steady s (A_packet_time_rinterrupt k s) \<and>
    nextseqnum (A_packet_time_rinterrupt k s) = nextseqnum s \<and> msg_num (A_packet_time_rinterrupt k s) = msg_num s"
proof (cases "k = base s")
  case False
  with assms show ?thesis by (simp add: A_packet_time_rinterrupt_def)
next
  case True
  let ?is = "[0..<nat (nextseqnum s - base s)]"
  let ?t = "starttime_r (base s) A RTT (resend ?is s)"
  have w: "window_ok N s" and c: "channel_ok N (nextseqnum s) (expected_seqnum s) s"
    using assms by (simp_all add: gbn_ok_def)
  have "channel_ok N (nextseqnum s) (expected_seqnum s) (resend ?is s)"
    using window_slot[OF w] by (intro resend_channel[OF c]) simp
  then have "channel_ok N (nextseqnum s) (expected_seqnum s) (?t\<lparr>packet_time_out := packet_time_out ?t + 1\<rparr>)"
    using channel_timers[of N "nextseqnum s" "expected_seqnum s" "base s" A RTT "resend ?is s"]
    by (simp add: channel_ok_def)
  moreover have st: "steady s ?t" using steady_resend steady_net(1) by (rule steady_trans)
  moreover have "steady s (?t\<lparr>packet_time_out := packet_time_out ?t + 1\<rparr>)"
    using st by (rule steady_fields) simp_all
  ultimately show ?thesis
    using assms True
    by (simp add: A_packet_time_rinterrupt_def Let_def gbn_ok_def window_ok_def buffer_ok_def receiver_ok_def steady_def)
qed

lemma A_input_cases:
  assumes "k < nextseqnum s" "nextseqnum s < 999999" "p = ack_pkt k \<or> p = corrupt (ack_pkt k)"
  shows "A_input p s = s \<or>
    (base s \<le> k \<and> k \<noteq> 0 \<and>
     (\<exists>c. A_input p s =
       (let s = stoptime_r A (base s) (s\<lparr>packet_correct := c\<rparr>);
            s = release (WINDOWSIZE s) (s\<lparr>base := k + 1\<rparr>)
        in drain (if base s < nextseqnum s then starttime_r (base s) A RTT s else s))))"
  using assms by (auto simp: A_input_def Let_def NOTUSED_def)

lemma A_input_ok:
  assumes "gbn_ok N s" "k < expected_seqnum s" "nextseqnum s < 999999"
    and "p = ack_pkt k \<or> p = corrupt (ack_pkt k)"
  shows "gbn_ok N (A_input p s) \<and> steady s (A_input p s) \<and>
    nextseqnum (A_input p s) + int (msg_num (A_input p s)) = nextseqnum s + int (msg_num s)"
proof -
  have ok: "window_ok N s" "buffer_ok N (nextseqnum s) s" "channel_ok N (nextseqnum s) (expected_seqnum s) s"
    "receiver_ok N s" "nsimmax s = N"
    using assms(1) by (simp_all add: gbn_ok_def)
  have k: "k < nextseqnum s" using assms(2) ok(4) by (simp add: receiver_ok_def)
  consider "A_input p s = s" | (ack) c where "base s \<le> k"
    "A_input p s =
       (let s = stoptime_r A (base s) (s\<lparr>packet_correct := c\<rparr>);
            s = release (WINDOWSIZE s) (s\<lparr>base := k + 1\<rparr>)
        in drain (if base s < nextseqnum s then starttime_r (base s) A RTT s else s))"
    using A_input_cases[OF k assms(3,4)] by blast
  then show ?thesis
  proof cases
    case 1
    with assms(1) show ?thesis by simp
  next
    case ack
    define t where "t = stoptime_r A (base s) (s\<lparr>packet_correct := c\<rparr>)"
    have t: "nextseqnum t = nextseqnum s" "base t = base s" "winbuf t = winbuf s" "winfront t = winfront s"
      "winrear t = winrear s" "buffer t = buffer s" "buffront t = buffront s" "bufrear t = bufrear s"
      "msg_num t = msg_num s" "WINDOWSIZE t = WINDOWSIZE s" "expected_seqnum t = expected_seqnum s"
      "layer5 t = layer5 s" "nsimmax t = N"
      using ok(5) by (simp_all add: t_def)
    have wt: "window_ok N t" using ok(1) by (simp add: window_ok_def t)
    have ct: "channel_ok N (nextseqnum s) (expected_seqnum s) t"
      unfolding t_def using ok(3) by (intro channel_stoptime) (simp add: channel_ok_def)
    have "steady s (s\<lparr>packet_correct := c\<rparr>)" by (simp add: steady_def arrivals_def)
    then have st: "steady s t" unfolding t_def using steady_net(2) by (rule steady_trans)
    define u where "u = release (WINDOWSIZE t) (t\<lparr>base := k + 1\<rparr>)"
    obtain f n where f: "u = t\<lparr>base := k + 1, winfront := f, pktnum := n\<rparr>"
      using release_shape[of "t\<lparr>base := k + 1\<rparr>" "WINDOWSIZE t"] wt by (auto simp: u_def window_ok_def)
    have wu: "window_ok N u" unfolding u_def using wt ack(1) k by (intro release_ok) (simp_all add: t)
    define v where "v = (if base u < nextseqnum u then starttime_r (base u) A RTT u else u)"
    have v: "nextseqnum v = nextseqnum s" "base v = k + 1" "winbuf v = winbuf s" "winfront v = f"
      "winrear v = winrear s" "buffer v = buffer s" "buffront v = buffront s" "bufrear v = bufrear s"
      "msg_num v = msg_num s" "WINDOWSIZE v = WINDOWSIZE s" "expected_seqnum v = expected_seqnum s"
      "layer5 v = layer5 s" "nsimmax v = N"
      by (simp_all add: v_def f t)
    have wv: "window_ok N v" using wu by (simp add: window_ok_def v f t)
    have bv: "buffer_ok N (nextseqnum v) v" using ok(2) by (simp add: buffer_ok_def v)
    have cu: "channel_ok N (nextseqnum s) (expected_seqnum s) u" using ct by (simp add: f channel_ok_def)
    then have cv: "channel_ok N (nextseqnum v) (expected_seqnum v) v"
      unfolding v(1,11) by (simp add: v_def)
    have rv: "receiver_ok N v" using ok(4) assms(2) by (simp add: receiver_ok_def v)
    have a: "A_input p s = drain v" unfolding ack(2) t_def[symmetric] u_def[symmetric] v_def Let_def ..
    have "steady s u" using st by (rule steady_fields) (simp_all add: f)
    then have "steady s v"
      using steady_trans[OF \<open>steady s u\<close> steady_net(1)[of u "base u" A RTT]] by (simp add: v_def)
    then have sd: "steady s (drain v)" using steady_drain by (rule steady_trans)
    then have "nsimmax (drain v) = N" using ok(5) by (simp add: steady_def)
    then show ?thesis using drain_ok[OF wv bv cv rv] sd by (simp add: a gbn_ok_def Let_def v)
  qed
qed

lemma B_input_ok:
  assumes "gbn_ok N s" "0 \<le> j" "j < nextseqnum s" "nextseqnum s < 999999"
    and "p = data_pkt N j \<or> p = corrupt (data_pkt N j)"
  shows "gbn_ok N (B_input p s) \<and> steady s (B_input p s) \<and>
    nextseqnum (B_input p s) = nextseqnum s \<and> msg_num (B_input p s) = msg_num s"
proof -
  have ok: "window_ok N s" "buffer_ok N (nextseqnum s) s" "channel_ok N (nextseqnum s) (expected_seqnum s) s"
    "receiver_ok N s" "nsimmax s = N" "0 \<le> expected_seqnum s"
    using assms(1) by (auto simp: gbn_ok_def receiver_ok_def window_ok_def)
  let ?x = "expected_seqnum s"
  have ack: "ComputeChecksum \<lparr>seqnum = NOTUSED, acknum = k, checksum = 0, payload = zeros 20\<rparr> = ack_pkt k" for k
    by (simp add: ack_pkt_def)
  consider "CheckCorrupted p" | (in_order) "\<not> CheckCorrupted p" "seqnum p = ?x" | (other) "\<not> CheckCorrupted p" "seqnum p \<noteq> ?x"
    by blast
  then show ?thesis
  proof cases
    case 1
    then have "B_input p s = s\<lparr>packet_corrupt := packet_corrupt s + 1\<rparr>" by (simp add: B_input_def)
    then show ?thesis using gbn_ok_fields[OF assms(1)] by (simp add: steady_def arrivals_def)
  next
    case other
    then have b: "B_input p s = tolayer3 B (ack_pkt (?x - 1)) s" by (simp add: B_input_def ack Let_def)
    have "channel_ok N (nextseqnum s) ?x (B_input p s)"
      unfolding b using ok(3,6) by (intro channel_ack) simp_all
    then show ?thesis
      using assms(1) steady_net(3) unfolding b by (simp add: gbn_ok_def window_ok_def buffer_ok_def receiver_ok_def)
  next
    case in_order
    have "?x < 999999" using ok(4) assms(4) by (simp add: receiver_ok_def)
    then have p: "p = data_pkt N j" "j = ?x" using assms(5) in_order(2) by auto
    let ?s = "(tolayer5 (payload p) s)\<lparr>packet_receieve := packet_receieve s + 1, expected_seqnum := ?x + 1\<rparr>"
    have b: "B_input p s = tolayer3 B (ack_pkt ?x) ?s"
      using in_order by (simp add: B_input_def ack Let_def tolayer5_def)
    have "channel_ok N (nextseqnum s) (?x + 1) ?s"
      using channel_ok_mono[OF ok(3), of "nextseqnum s" "?x + 1"] by (simp add: channel_ok_def tolayer5_def)
    then have c: "channel_ok N (nextseqnum s) (?x + 1) (B_input p s)"
      unfolding b using ok(6) by (intro channel_ack) simp_all
    have l: "[0..<nat (?x + 1)] = [0..<nat ?x] @ [nat ?x]" using ok(6) by (simp add: nat_add_distrib)
    have "receiver_ok N (B_input p s)"
      using ok(4,6) assms(3) p unfolding b by (simp add: receiver_ok_def tolayer5_def l)
    moreover have "steady s ?s" by (simp add: steady_def arrivals_def tolayer5_def)
    then have "steady s (B_input p s)" unfolding b using steady_net(3) by (rule steady_trans)
    ultimately show ?thesis
      using assms(1) c unfolding b by (simp add: gbn_ok_def window_ok_def buffer_ok_def tolayer5_def)
  qed
qed


text \<open>An arrival: the next one is scheduled and the message is sent or buffered.\<close>

lemma arrival_ok:
  assumes "gbn_ok N s" "arrivals s = 0" "nsim s = nextseqnum s + int (msg_num s) + 1"
    and "nsim s \<le> max N 0" "N \<le> int MAXBUFSIZE"
  defines "u \<equiv> generate_next_arrival s"
  shows "gbn_ok N (A_output (letters (nsim u)) u) \<and> arrivals_ok (A_output (letters (nsim u)) u)"
proof -
  let ?m = "letters (nsim u)" and ?given = "nextseqnum s + int (msg_num s)"
  have n: "0 \<le> ?given" "nsimmax s = N" using assms(1) by (auto simp: gbn_ok_def window_ok_def)
  have u: "nextseqnum u = nextseqnum s" "base u = base s" "msg_num u = msg_num s" "nsimmax u = N"
    "WINDOWSIZE u = WINDOWSIZE s" "expected_seqnum u = expected_seqnum s" "layer5 u = layer5 s"
    using n by (simp_all add: u_def)
  have m: "?m = nth_message N ?given" unfolding u_def using assms(3,4) n by (intro arrival_message) simp_all
  have c: "channel_ok N (nextseqnum u) (expected_seqnum u) u"
    using assms(1) unfolding u_def by (simp add: gbn_ok_def channel_arrival)
  have w: "window_ok N u" "buffer_ok N (nextseqnum u) u" "receiver_ok N u"
    using assms(1) by (simp_all add: gbn_ok_def window_ok_def buffer_ok_def receiver_ok_def u_def)
  have st: "steady u (A_output ?m u)" by (rule steady_A_output)
  then have a: "nsimmax (A_output ?m u) = N" using u(4) by (simp add: steady_def)
  have given: "arrivals_ok (A_output ?m u)"
    if "nextseqnum (A_output ?m u) + int (msg_num (A_output ?m u)) = ?given + 1"
    using arrival_counted[OF _ n(1) assms(4) n(2) assms(2)] assms(3) st that unfolding u_def by blast
  show ?thesis
  proof (cases "nextseqnum u < base u + int (WINDOWSIZE u)")
    case True
    then have z: "msg_num s = 0" using assms(1) by (auto simp: gbn_ok_def u)
    have m': "?m = nth_message N (nextseqnum u)" using m z by (simp add: u)
    note o = A_output_open_ok[OF w(1) True m' c, of "nextseqnum u + 1"]
    have "buffer_ok N (nextseqnum u + 1) u" using w(2) z by (simp add: buffer_ok_def u)
    then have "gbn_ok N (A_output ?m u)"
      using o w(3) a z by (simp add: gbn_ok_def receiver_ok_def u)
    moreover have "nextseqnum (A_output ?m u) + int (msg_num (A_output ?m u)) = ?given + 1"
      using o by (simp add: u)
    then have "arrivals_ok (A_output ?m u)" by (rule given)
    ultimately show ?thesis ..
  next
    case False
    have m': "?m = nth_message N (nextseqnum u + int (msg_num u))" using m by (simp add: u)
    have "int (msg_num u) < int MAXBUFSIZE" using assms(1,3-5) by (auto simp: u gbn_ok_def window_ok_def)
    then have "msg_num u < MAXBUFSIZE" by simp
    note o = A_output_closed_ok[OF w(2) False m' this, of "nextseqnum u" "expected_seqnum u"]
    have "gbn_ok N (A_output ?m u)" using o w c a False by (simp add: gbn_ok_def)
    moreover have "nextseqnum (A_output ?m u) + int (msg_num (A_output ?m u)) = ?given + 1"
      using o by (simp add: u)
    then have "arrivals_ok (A_output ?m u)" by (rule given)
    ultimately show ?thesis ..
  qed
qed

section \<open>Every reachable state\<close>

lemma gbn_step_ok:
  assumes "gbn_ok N s \<and> arrivals_ok s" "gbn_step s = Inr t" "N \<le> int MAXBUFSIZE"
  shows "gbn_ok N t \<and> arrivals_ok t"
proof -
  obtain e rest where l: "evlist s = e # rest" and t: "t = handle e (s\<lparr>evlist := rest, time := evtime e\<rparr>)"
    using assms(2) by (auto simp: gbn_step_def next_event_def split: list.splits)
  let ?s = "s\<lparr>evlist := rest, time := evtime e\<rparr>"
  have e: "event_ok N (nextseqnum s) (expected_seqnum s) e" using assms(1) l by (simp add: gbn_ok_def channel_ok_def)
  have g: "gbn_ok N ?s"
    using assms(1) l by (simp add: gbn_ok_def window_ok_def buffer_ok_def channel_ok_def receiver_ok_def)
  have n: "nsimmax s = N" "0 \<le> nextseqnum s" using assms(1) by (auto simp: gbn_ok_def window_ok_def)
  then have big: "nextseqnum ?s < 999999" using assms(1,3) by (auto simp: arrivals_ok_def Let_def MAXBUFSIZE_def)
  have a: "arrivals_ok ?s" if "evtype e \<noteq> FromLayer5"
    using assms(1) l that by (simp add: arrivals_ok_def arrivals_def)
  show ?thesis
  proof (cases "evtype e")
    case (TimerInterrupt k)
    then show ?thesis
      using timer_ok[OF g, of k] g a arrivals_steady[of ?s "A_packet_time_rinterrupt k ?s"]
      by (simp add: t handle_def)
  next
    case FromLayer5
    then have "arrivals s = 1" "arrivals ?s = 0" "nsim s = nextseqnum s + int (msg_num s) + 1" "nsim s \<le> max N 0"
      using assms(1) l n by (auto simp: arrivals_ok_def Let_def arrivals_def)
    then show ?thesis
      using arrival_ok[OF g] assms(3) e FromLayer5 by (simp add: t handle_def event_ok_def Let_def)
  next
    case (FromLayer3 p)
    show ?thesis
    proof (cases "eventity e = A")
      case True
      then obtain k where k: "k < expected_seqnum ?s" "p = ack_pkt k \<or> p = corrupt (ack_pkt k)"
        using e FromLayer3 by (auto simp: event_ok_def)
      then show ?thesis
        using A_input_ok[OF g k(1) big k(2)] a FromLayer3 True arrivals_steady[of ?s "A_input p ?s"]
        by (simp add: t handle_def)
    next
      case False
      then have "eventity e = B" by (cases "eventity e") simp_all
      then obtain j where j: "0 \<le> j" "j < nextseqnum ?s" "p = data_pkt N j \<or> p = corrupt (data_pkt N j)"
        using e FromLayer3 by (auto simp: event_ok_def)
      then show ?thesis
        using B_input_ok[OF g j(1,2) big j(3)] a FromLayer3 False arrivals_steady[of ?s "B_input p ?s"]
        by (simp add: t handle_def)
    qed
  qed
qed

lemma drain_window [simp]: "WINDOWSIZE (drain s) = WINDOWSIZE s"
proof (induction s rule: drain.induct)
  case (1 s)
  have w: "WINDOWSIZE (A_output m t) = WINDOWSIZE t" for m t by (simp add: A_output_def Let_def)
  show ?case using 1 by (subst drain.simps) (simp add: w)
qed

lemma release_window [simp]: "WINDOWSIZE (release k s) = WINDOWSIZE s"
  by (induction k s rule: release.induct) simp_all

lemma release_layer5: "layer5 (release k s) = layer5 s"
  by (induction k s rule: release.induct) simp_all

lemma gbn_step_window: "gbn_step s = Inr t \<Longrightarrow> WINDOWSIZE t = WINDOWSIZE s"
  by (auto simp: gbn_step_def next_event_def handle_def A_output_def A_input_def B_input_def tolayer5_def
      A_packet_time_rinterrupt_def Let_def split: list.splits evtype.splits if_splits)

lemma start_simps [simp]:
  "nextseqnum (start N i c w r) = 0" "base (start N i c w r) = 0" "winbuf (start N i c w r) = r"
  "winfront (start N i c w r) = 0" "winrear (start N i c w r) = 0" "buffront (start N i c w r) = 0"
  "bufrear (start N i c w r) = 0" "msg_num (start N i c w r) = 0" "WINDOWSIZE (start N i c w r) = w"
  "expected_seqnum (start N i c w r) = 0" "layer5 (start N i c w r) = []" "nsimmax (start N i c w r) = N"
  "buffer (start N i c w r) = replicate MAXBUFSIZE (zeros 20)"
  "nsim (start N i c w r) = (if N \<le> 0 then 0 else 1)"
  "cp (start N i c w r) = -1" "pattern (start N i c w r) = c" "time (start N i c w r) = 0"
  "lambda (start N i c w r) = i"
  "evlist (start N i c w r) =
     (if N \<le> 0 then [] else [\<lparr>evtime = fl24 (fl i), evtype = FromLayer5, eventity = A\<rparr>])"
  by (simp_all add: start_def A_init_def net.defs sender.defs gbn.defs start_net_def generate_next_arrival_def insertevent_def)

lemma start_ok:
  assumes "0 < w" "length r = w"
  shows "gbn_ok N (start N i c w r) \<and> arrivals_ok (start N i c w r)"
  using assms
  by (simp add: gbn_ok_def window_ok_def buffer_ok_def channel_ok_def receiver_ok_def event_ok_def
      arrivals_ok_def arrivals_def Let_def MAXBUFSIZE_def)

text \<open>Nothing that was delivered is taken back.\<close>

lemma layer5_keeps [simp]:
  "layer5 (A_output m s) = layer5 s" "layer5 (release k s) = layer5 s" "layer5 (A_packet_time_rinterrupt j s) = layer5 s"
  by (simp_all add: A_output_def Let_def release_layer5 A_packet_time_rinterrupt_def)

lemma layer5_drain [simp]: "layer5 (drain s) = layer5 s"
proof (induction s rule: drain.induct)
  case (1 s)
  then show ?case by (subst drain.simps) simp
qed

lemma layer5_A_input [simp]: "layer5 (A_input p s) = layer5 s"
  by (simp add: A_input_def Let_def)

lemma gbn_step_grows: "gbn_step s = Inr t \<Longrightarrow> length (layer5 s) \<le> length (layer5 t)"
  by (auto simp: gbn_step_def next_event_def handle_def B_input_def tolayer5_def Let_def
      split: list.splits evtype.splits if_splits)

text \<open>Go-Back-N fulfils the contract of a transport protocol.\<close>

interpretation gbn_run: protocol gbn_step "\<lambda>s. (gbn_ok N s \<and> arrivals_ok s) \<and> N \<le> int MAXBUFSIZE" layer5
    "\<lambda>i. nth_message N (int i)" for N
proof
  fix s t
  assume s: "(gbn_ok N s \<and> arrivals_ok s) \<and> N \<le> int MAXBUFSIZE"
  show "layer5 s = map (\<lambda>i. nth_message N (int i)) [0..<length (layer5 s)]"
    using s by (simp add: gbn_ok_def receiver_ok_def)
  assume t: "gbn_step s = Inr t"
  then show "(gbn_ok N t \<and> arrivals_ok t) \<and> N \<le> int MAXBUFSIZE" using s gbn_step_ok by blast
  show "length (layer5 s) \<le> length (layer5 t)" using t by (rule gbn_step_grows)
qed

lemma gbn_reach_ok:
  assumes "reach gbn_step (start N i c w r) s" "0 < w" "length r = w" "N \<le> int MAXBUFSIZE"
  shows "gbn_ok N s \<and> arrivals_ok s"
  using gbn_run.reach_ok[OF assms(1), of N] start_ok assms by blast

lemma reach_window: "reach gbn_step (start N i c w r) s \<Longrightarrow> WINDOWSIZE s = w"
proof (induction "start N i c w r" s rule: reach.induct)
  case (reach_next t u)
  then show ?case by (auto dest: gbn_step_window)
qed simp

section \<open>Concrete runs\<close>

text \<open>The times of the runs below: arrivals every second from 1 on, and what is sent at them.\<close>

lemma run_times:
  "fl24 (fl 1) = 1" "fl24 (fl 2) = 2" "fl24 (fl 3) = 3" "fl24 (1 + RTT) = 16" "fl24 (2 + RTT) = 17"
  "fl24 (fl (fl (1 + RTT / 2) - 1)) = 15 / 2" "fl24 (fl (fl (2 + RTT / 2) - 1)) = 17 / 2"
  "fl24 (fl (fl (3 + RTT / 2) - 1)) = 19 / 2" "fl24 (fl (fl (15 / 2 + RTT / 2) - 1)) = 14"
  "fl24 (fl (fl (17 / 2 + RTT / 2) - 1)) = 15"
  by code_simp+

lemmas run_simps = gbn_step_def next_event_def handle_def generate_next_arrival_def A_output_def B_input_def
  tolayer3_def tolayer5_def insertevent_def starttime_r_def fate_def Let_def run_times

text \<open>Three packets fill a window of three; two of them have arrived at B.\<close>

definition shot :: "gbn \<Rightarrow> rat \<times> int \<times> int \<times> int \<times> int \<times> nat \<times> nat \<times> int \<times> event list" where
  "shot s = (time s, cp s, nsim s, nextseqnum s, base s, winfront s, winrear s, expected_seqnum s, evlist s)"

definition fixed :: "gbn \<Rightarrow> bool" where
  "fixed s \<longleftrightarrow> pattern s = ''o'' \<and> lambda s = 1 \<and> nsimmax s = 3 \<and> WINDOWSIZE s = 3"

lemma full_run:
  "\<exists>s. reach gbn_step (start 3 1 ''o'' 3 ram) s \<and> nextseqnum s = 3 \<and> base s = 0 \<and> winfront s = winrear s \<and>
     expected_seqnum s = 2"
proof -
  let ?s = "start 3 1 ''o'' 3 ram"
  let ?m = "\<lambda>n. FromLayer3 (ComputeChecksum \<lparr>seqnum = n, acknum = NOTUSED, checksum = 0, payload = letters (min (n + 2) 3)\<rparr>)"
  have s: "fixed ?s \<and> shot ?s = (0, -1, 1, 0, 0, 0, 0, 0, [\<lparr>evtime = 1, evtype = FromLayer5, eventity = A\<rparr>])"
    by (simp add: fixed_def shot_def run_times)
  obtain t where t: "gbn_step ?s = Inr t" "fixed t \<and> shot t = (1, 0, 2, 1, 0, 0, 1, 0,
      [\<lparr>evtime = 2, evtype = FromLayer5, eventity = A\<rparr>, \<lparr>evtime = 15/2, evtype = ?m 0, eventity = B\<rparr>])"
    using s by (simp add: fixed_def shot_def run_simps)
  obtain u where u: "gbn_step t = Inr u" "fixed u \<and> shot u = (2, 1, 3, 2, 0, 0, 2, 0,
      [\<lparr>evtime = 3, evtype = FromLayer5, eventity = A\<rparr>, \<lparr>evtime = 15/2, evtype = ?m 0, eventity = B\<rparr>,
       \<lparr>evtime = 17/2, evtype = ?m 1, eventity = B\<rparr>, \<lparr>evtime = 17, evtype = TimerInterrupt 0, eventity = A\<rparr>])"
    using t(2) by (simp add: fixed_def shot_def run_simps)
  let ?t = "\<lparr>evtime = 17, evtype = TimerInterrupt 0, eventity = A\<rparr>"
  let ?a = "\<lambda>n. FromLayer3 (ack_pkt n)"
  obtain v where v: "gbn_step u = Inr v" "fixed v \<and> shot v = (3, 2, 3, 3, 0, 0, 0, 0,
      [\<lparr>evtime = 15/2, evtype = ?m 0, eventity = B\<rparr>, \<lparr>evtime = 17/2, evtype = ?m 1, eventity = B\<rparr>,
       \<lparr>evtime = 19/2, evtype = ?m 2, eventity = B\<rparr>, ?t])"
    using u(2) by (simp add: fixed_def shot_def run_simps)
  obtain w where w: "gbn_step v = Inr w" "fixed w \<and> shot w = (15/2, 3, 3, 3, 0, 0, 0, 1,
      [\<lparr>evtime = 17/2, evtype = ?m 1, eventity = B\<rparr>, \<lparr>evtime = 19/2, evtype = ?m 2, eventity = B\<rparr>,
       \<lparr>evtime = 14, evtype = ?a 0, eventity = A\<rparr>, ?t])"
    using v(2) by (simp add: fixed_def shot_def run_simps ack_pkt_def)
  obtain x where x: "gbn_step w = Inr x" "fixed x \<and> shot x = (17/2, 4, 3, 3, 0, 0, 0, 2,
      [\<lparr>evtime = 19/2, evtype = ?m 2, eventity = B\<rparr>, \<lparr>evtime = 14, evtype = ?a 0, eventity = A\<rparr>,
       \<lparr>evtime = 15, evtype = ?a 1, eventity = A\<rparr>, ?t])"
    using w(2) by (simp add: fixed_def shot_def run_simps ack_pkt_def)
  have "reach gbn_step ?s x"
    using t(1) u(1) v(1) w(1) x(1) by (intro steps_reach[of gbn_step 5]) (simp add: eval_nat_numeral)
  with x(2) show ?thesis by (auto simp: shot_def)
qed

section \<open>Delivery\<close>

text \<open>
  C18: a simulation of at most 5000 messages (\<open>MAXBUFSIZE\<close>), over every channel, however it loses and
  corrupts packets: in every state the application at B has got the first messages of A, in order, each
  once and unaltered, and at most all of them; the sequence number B expects lies between A's base and
  A's next sequence number, the window is never exceeded, and what was delivered stays delivered in every
  later state. The bound is needed: A's ring buffer has 5000 places and is never checked to be full, so
  that further waiting messages overwrite others.
\<close>

theorem gbn_in_order:
  assumes "reach gbn_step (start N interval channel window ram) s"
    and "0 < window" "length ram = window" "N \<le> int MAXBUFSIZE" "reach gbn_step s t"
  shows "layer5 s = map (\<lambda>i. nth_message N (int i)) [0..<nat (expected_seqnum s)] \<and>
    base s \<le> expected_seqnum s \<and> expected_seqnum s \<le> nextseqnum s \<and>
    nextseqnum s \<le> base s + int window \<and> length (layer5 s) \<le> nat N \<and>
    layer5 s = take (length (layer5 s)) (layer5 t)"
proof -
  have ok: "gbn_ok N s" "arrivals_ok s" using gbn_reach_ok[OF assms(1-4)] by simp_all
  have "WINDOWSIZE s = window" using assms(1) by (rule reach_window)
  moreover have "nextseqnum s \<le> max N 0" using ok by (auto simp: arrivals_ok_def gbn_ok_def Let_def)
  moreover have "0 \<le> base s" using ok by (simp add: gbn_ok_def window_ok_def)
  moreover have "layer5 s = take (length (layer5 s)) (layer5 t)"
    using assms(4,5) ok by (intro gbn_run.deliveries_stay[of s t N]) simp_all
  moreover have "layer5 s = map (\<lambda>i. nth_message N (int i)) [0..<nat (expected_seqnum s)]"
    "base s \<le> expected_seqnum s" "expected_seqnum s \<le> nextseqnum s" "nextseqnum s \<le> base s + int (WINDOWSIZE s)"
    using ok(1) by (simp_all add: gbn_ok_def receiver_ok_def window_ok_def)
  moreover from this have "length (layer5 s) = nat (expected_seqnum s)" by simp
  ultimately show ?thesis by linarith
qed

theorem gbn_in_order_witness:
  "\<exists>s. reach gbn_step (start 3 1 ''o'' 3 (replicate 3 (data_pkt 0 0))) s \<and> base s = 0 \<and> nextseqnum s = 3 \<and>
     layer5 s = [letters 2, letters 3]"
proof -
  obtain s where s: "reach gbn_step (start 3 1 ''o'' 3 (replicate 3 (data_pkt 0 0))) s" "nextseqnum s = 3" "base s = 0"
    "expected_seqnum s = 2"
    using full_run by blast
  have "layer5 s = map (\<lambda>i. nth_message 3 (int i)) [0..<nat (expected_seqnum s)]"
    using gbn_in_order[OF s(1) _ _ _ reach_here] by (simp add: MAXBUFSIZE_def)
  with s show ?thesis by (auto simp: nth_message_def eval_nat_numeral)
qed

end
