(* ===== verification/Gbn_Limits.thy ===== *)
theory Gbn_Limits
  imports Gbn_Safety
begin

text \<open>
  Where this Go-Back-N loses messages for ever: a lone packet has no timer, the acknowledgement of
  packet 0 looks like no acknowledgement, and a full window is taken for an empty one when slots are
  released.
\<close>

section \<open>The first timer\<close>

text \<open>
  C24: no timer runs before the second packet is sent. A simulation of one message whose only packet the
  channel loses ends, and nothing was delivered.
\<close>

theorem gbn_lone_packet_lost:
  assumes "0 < window"
  shows "\<exists>s. simulate gbn_step (start 1 interval (CHR ''x'' # channel) window ram) = Some (Terminated, s) \<and>
    layer5 s = [] \<and> nextseqnum s = 1 \<and> evlist s = []"
proof -
  let ?s = "start 1 interval (CHR ''x'' # channel) window ram"
  obtain t where t: "gbn_step ?s = Inr t" "layer5 t = []" "nextseqnum t = 1" "evlist t = []"
    using assms
    by (simp add: gbn_step_def next_event_def handle_def generate_next_arrival_def A_output_def Let_def
        tolayer3_def fate_def)
  then have "gbn_step t = Inl Terminated" by (simp add: gbn_step_def next_event_def)
  with t show ?thesis by (simp add: simulate.simps[of gbn_step ?s] simulate.simps[of gbn_step t])
qed


theorem gbn_lone_packet_lost_witness:
  "\<exists>s. simulate gbn_step (start 1 1 ''xo'' 8 (replicate 8 (data_pkt 1 0))) = Some (Terminated, s) \<and> layer5 s = [] \<and> nextseqnum s = 1 \<and>
     evlist s = []"
  by (rule gbn_lone_packet_lost) simp

section \<open>The acknowledgement of packet 0\<close>

text \<open>An ACK that says 0 is ignored, as is one below the base.\<close>

lemma A_input_ignored:
  "p = ack_pkt k \<or> p = corrupt (ack_pkt k) \<Longrightarrow> k \<le> 0 \<Longrightarrow> base s = 0 \<Longrightarrow> nextseqnum s < 999999 \<Longrightarrow> A_input p s = s"
  by (auto simp: A_input_def NOTUSED_def)

lemma base_simps [simp]:
  "base (A_output m s) = base s" "base (B_input p s) = base s"
  "base (A_packet_time_rinterrupt k s) = base s"
  by (simp_all add: A_output_def B_input_def A_packet_time_rinterrupt_def tolayer5_def Let_def)

text \<open>
  With a window of one packet nothing is ever acknowledged, since the number of packet 0 is also
  the value for ``no acknowledgement'': the base stays at 0 and at most one message is delivered.
\<close>

theorem gbn_window_one:
  assumes "reach gbn_step (start N interval channel 1 ram) s" "length ram = 1" "N \<le> int MAXBUFSIZE"
  shows "base s = 0 \<and> length (layer5 s) \<le> 1"
proof -
  have "base s = 0"
    using assms(1)
  proof (induction "start N interval channel 1 ram" s rule: reach.induct)
    case (reach_next t u)
    then have "reach gbn_step (start N interval channel 1 ram) t" by simp
    then have ok: "gbn_ok N t" "arrivals_ok t" and w: "WINDOWSIZE t = 1"
      using gbn_reach_ok[of N interval channel 1 ram t] reach_window[of N interval channel 1 ram t] assms(2,3) by simp_all
    obtain e rest where l: "evlist t = e # rest" and u: "u = handle e (t\<lparr>evlist := rest, time := evtime e\<rparr>)"
      using reach_next.hyps(3) by (auto simp: gbn_step_def next_event_def split: list.splits)
    have e: "event_ok N (nextseqnum t) (expected_seqnum t) e" using ok(1) l by (simp add: gbn_ok_def channel_ok_def)
    have "nextseqnum t \<le> 1" "expected_seqnum t \<le> nextseqnum t" 
      using ok(1) reach_next.hyps(2) w by (simp_all add: gbn_ok_def window_ok_def receiver_ok_def)
    then have "A_input p (t\<lparr>evlist := rest, time := evtime e\<rparr>) = t\<lparr>evlist := rest, time := evtime e\<rparr>"
      if "evtype e = FromLayer3 p" "eventity e = A" for p
      using e that reach_next.hyps(2) by (auto simp: event_ok_def intro!: A_input_ignored)
    then show ?case
      using reach_next.hyps(2) by (simp add: u handle_def Let_def split: evtype.splits)
  qed simp
  moreover have "length (layer5 s) \<le> 1"
    using gbn_reach_ok[OF assms(1)] reach_window[OF assms(1)] assms(2,3) calculation
    by (auto simp: gbn_ok_def receiver_ok_def window_ok_def)
  ultimately show ?thesis by simp
qed


theorem gbn_window_one_witness:
  "\<exists>s. reach gbn_step (start 1 1 ''o'' 1 [data_pkt 0 0]) s \<and> expected_seqnum s = 1 \<and>
     base s = 0 \<and> length (layer5 s) \<le> 1"
proof -
  let ?s = "start 1 1 ''o'' 1 [data_pkt 0 0]"
  have "pattern ?s = ''o''" "nsimmax ?s = 1" "nsim ?s = 1" "cp ?s = -1" "nextseqnum ?s = 0" "base ?s = 0" "WINDOWSIZE ?s = 1"
    "expected_seqnum ?s = 0" "evlist ?s = [\<lparr>evtime = 1, evtype = FromLayer5, eventity = A\<rparr>]"
    by (simp_all add: run_times)
  then obtain t where t: "gbn_step ?s = Inr t" "expected_seqnum t = 0"
    "evlist t = [\<lparr>evtime = 15/2, evtype = FromLayer3 (ComputeChecksum
       \<lparr>seqnum = 0, acknum = NOTUSED, checksum = 0, payload = letters 1\<rparr>), eventity = B\<rparr>]"
    by (simp add: run_simps del: start_simps)
  then obtain s where u: "gbn_step t = Inr s" "expected_seqnum s = 1"
    by (simp add: gbn_step_def next_event_def handle_def B_input_def Let_def)
  have "reach gbn_step ?s t" using reach_here t(1) by (rule reach_next)
  then have s: "reach gbn_step ?s s" using u(1) by (rule reach_next)
  show ?thesis using gbn_window_one[OF s] s u(2) by (intro exI[of _ s]) (simp add: MAXBUFSIZE_def)
qed

section \<open>Releasing a full window\<close>

lemma A_output_winfront [simp]: "winfront (A_output m s) = winfront s"
  by (simp add: A_output_def Let_def)

lemma drain_keeps [simp]: "winfront (drain s) = winfront s" "base (drain s) = base s"
proof (induction s rule: drain.induct)
  case (1 s)
  {
    case 1
    show ?case using "1.IH"(1) by (subst drain.simps) simp
  next
    case 2
    show ?case using "1.IH"(2) by (subst drain.simps) simp
  }
qed

lemma release_full: "winfront s = winrear s \<Longrightarrow> release k s = s"
  by (cases k) simp_all

lemma drain_mono: "nextseqnum s \<le> nextseqnum (drain s)"
proof (induction s rule: drain.induct)
  case (1 s)
  show ?case
  proof (cases "0 < msg_num s \<and> nextseqnum s < base s + int (WINDOWSIZE s)")
    case True
    let ?s = "s\<lparr>buffront := (buffront s + 1) mod MAXBUFSIZE, msg_num := msg_num s - 1\<rparr>"
    have "nextseqnum ?s \<le> nextseqnum (A_output (buffer s ! buffront s) ?s)" by (simp add: A_output_def Let_def)
    then show ?thesis using "1.IH"[OF True] True by (subst drain.simps) simp
  qed (subst drain.simps, auto)
qed

text \<open>The slot of a packet beyond the base is not the slot at the rear of a window once full.\<close>

lemma other_slot:
  assumes "window_ok N t" "WINDOWSIZE t = w" "nextseqnum t = n \<or> n < nextseqnum t \<and> nextseqnum t < n + int w"
    and "n - int w < k" "k < n" "int w \<le> n"
  shows "winbuf t ! (nat n mod w) \<noteq> data_pkt N k"
proof -
  have w: "0 < w" and slot: "\<And>j. 0 \<le> j \<Longrightarrow> nextseqnum t - int w \<le> j \<Longrightarrow> j < nextseqnum t \<Longrightarrow>
      winbuf t ! (nat j mod w) = data_pkt N j"
    using assms(1,2) by (auto simp: window_ok_def)
  have "nat (n - int w) mod w = nat n mod w" using assms(6) w by (simp add: nat_diff_distrib' le_mod_geq)
  then have "\<exists>j. winbuf t ! (nat n mod w) = data_pkt N j \<and> j \<noteq> k"
    using slot[of "n - int w"] slot[of n] assms(3-6) w by (cases "nextseqnum t = n") auto
  then show ?thesis by (metis pkt_simps(2))
qed

text \<open>
  When the window is full, front and rear of the ring coincide, and the loop that releases
  acknowledged packets takes the window for empty: an ACK moves the base but not the front, so the slot
  from which a timeout resends no longer holds the packet of the base.
\<close>

theorem gbn_full_window_not_released:
  assumes "reach gbn_step (start N interval channel window ram) s"
    and "0 < window" "length ram = window" "N \<le> int MAXBUFSIZE"
    and "nextseqnum s = base s + int window" "winfront s = winrear s"
    and "base s \<le> k" "k + 1 < nextseqnum s" "k < expected_seqnum s" "k \<noteq> 0"
  defines "t \<equiv> A_input (ack_pkt k) s"
  shows "base t = k + 1 \<and> winfront t = winfront s \<and> winbuf t ! winfront t \<noteq> data_pkt N (base t)"
proof -
  have ok: "gbn_ok N s" "arrivals_ok s" and W: "WINDOWSIZE s = window"
    using gbn_reach_ok[OF assms(1-4)] reach_window[OF assms(1)] by simp_all
  have "nextseqnum s < 999999"
    using ok assms(4) by (auto simp: arrivals_ok_def gbn_ok_def Let_def MAXBUFSIZE_def)
  from A_input_ok[OF ok(1) assms(9) this, of "ack_pkt k"] have t: "window_ok N t"
    by (simp add: t_def gbn_ok_def)
  define u where "u = stoptime_r A (base s) (s\<lparr>packet_correct := packet_correct s + (k - base s + 1)\<rparr>)\<lparr>base := k + 1\<rparr>"
  define v where "v = (if base u < nextseqnum u then starttime_r (base u) A RTT u else u)"
  have u: "nextseqnum u = nextseqnum s" "base u = k + 1" "winfront u = winfront s" "winrear u = winrear s"
    "WINDOWSIZE u = window" using W by (simp_all add: u_def)
  have v: "nextseqnum v = nextseqnum s" "base v = k + 1" "winfront v = winfront s" "WINDOWSIZE v = window"
    by (simp_all add: v_def u)
  have "release window u = u" using assms(6) by (intro release_full) (simp add: u)
  moreover have "k < nextseqnum s" using assms(8) by simp
  ultimately have "t = drain v"
    using assms(7,10) W by (simp add: t_def A_input_def NOTUSED_def Let_def u_def v_def)
  then have f: "base t = k + 1" "winfront t = winfront s" "WINDOWSIZE t = window" "nextseqnum s \<le> nextseqnum t"
    using drain_mono[of v] by (simp_all add: v)
  have "window_ok N s" using ok(1) by (simp add: gbn_ok_def)
  then have s: "winfront s = nat (nextseqnum s) mod window" "0 \<le> base s"
    using assms(6) W by (simp_all add: window_ok_def)
  have "nextseqnum t \<le> k + 1 + int window" using t f by (simp add: window_ok_def)
  then have "winbuf t ! (nat (nextseqnum s) mod window) \<noteq> data_pkt N (k + 1)"
    using t f(3,4) s(2) assms(2,5,7,8) by (intro other_slot) auto
  with f s show ?thesis by simp
qed

theorem gbn_full_window_not_released_witness:
  "\<exists>s. reach gbn_step (start 3 1 ''o'' 3 (replicate 3 (data_pkt 0 0))) s \<and>
     (let t = A_input (ack_pkt 1) s
      in base t = 2 \<and> winfront t = winfront s \<and> winbuf t ! winfront t \<noteq> data_pkt 3 (base t))"
proof -
  obtain s where s: "reach gbn_step (start 3 1 ''o'' 3 (replicate 3 (data_pkt 0 0))) s" "nextseqnum s = 3" "base s = 0"
    "winfront s = winrear s" "expected_seqnum s = 2"
    using full_run by blast
  from gbn_full_window_not_released[OF s(1), of 1] s show ?thesis
    by (auto simp: MAXBUFSIZE_def Let_def)
qed

end
