(* ===== verification/Selective_Repeat.thy ===== *)
theory Selective_Repeat
  imports Transport
begin

text \<open>
  The selective repeat protocol of \<open>src/original-labs/stable.c\<close>. It shares the emulator, the packets and
  the sender's globals with \<open>gbn.c\<close>; a packet of the window uses its field \<open>acknum\<close> to remember that it
  was acknowledged. The receiver's arrays have eight slots whatever the window size: a slot outside them
  is undefined behaviour, and a full buffer of messages ends the program.
\<close>

section \<open>State\<close>

record sr = sender +
  expected_seq :: int
  recv_window :: "pkt list"
  recv_marked :: "bool list"

definition start :: "int \<Rightarrow> rat \<Rightarrow> string \<Rightarrow> nat \<Rightarrow> pkt list \<Rightarrow> sr" where
  "start messages interval channel window ram =
     sender.extend (A_init (start_net messages interval channel) window ram)
       (sr.fields 0 (replicate 8 \<lparr>seqnum = 0, acknum = 0, checksum = 0, payload = zeros 20\<rparr>) (replicate 8 False))"

text \<open>This emulator also counts what the channel does in the report's counters.\<close>

definition tolayer3_counted :: "entity \<Rightarrow> pkt \<Rightarrow> 'a sender_scheme \<Rightarrow> 'a sender_scheme" where
  "tolayer3_counted AorB packet s =
     (let s = tolayer3 AorB packet s
      in if fate s = CHR ''x'' then s\<lparr>packet_lost := packet_lost s + 1\<rparr>
         else if fate s = CHR ''-'' then s\<lparr>packet_corrupt := packet_corrupt s + 1\<rparr> else s)"

section \<open>Sender\<close>

definition transmit :: "string \<Rightarrow> sr \<Rightarrow> sr" where
  "transmit message s =
     (let packet = ComputeChecksum
            \<lparr>seqnum = nextseqnum s, acknum = NOTUSED, checksum = 0, payload = message\<rparr>;
          s = tolayer3_counted A packet s;
          s = s\<lparr>packet_sent := packet_sent s + 1,
                winbuf := (winbuf s)[winrear s := packet\<lparr>acknum := 0\<rparr>],
                winrear := (winrear s + 1) mod WINDOWSIZE s, pktnum := pktnum s + 1\<rparr>;
          s = starttime_r (nextseqnum s) A RTT s
      in s\<lparr>nextseqnum := nextseqnum s + 1\<rparr>)"

definition A_output :: "string \<Rightarrow> sr \<Rightarrow> stop + sr" where
  "A_output message s =
     (if nextseqnum s < base s + int (WINDOWSIZE s) then Inr (transmit message s)
      else if msg_num s < MAXBUFSIZE - 1
      then Inr (s\<lparr>buffer := (buffer s)[bufrear s := message],
                  bufrear := (bufrear s + 1) mod MAXBUFSIZE, msg_num := msg_num s + 1\<rparr>)
      else Inl Exit)"

text \<open>The first slot of the window with an unacknowledged packet of this number.\<close>

fun search :: "nat list \<Rightarrow> int \<Rightarrow> 'a sender_scheme \<Rightarrow> nat option" where
  "search [] n s = None"
| "search (i # is) n s =
     (let idx = (winfront s + i) mod WINDOWSIZE s
      in if seqnum (winbuf s ! idx) = n \<and> acknum (winbuf s ! idx) = 0 then Some idx else search is n s)"

text \<open>The loop that moves the base over acknowledged packets.\<close>

function slide :: "sr \<Rightarrow> sr" where
  "slide s =
     (if 0 < pktnum s \<and> acknum (winbuf s ! winfront s) = 1 \<and> seqnum (winbuf s ! winfront s) = base s
      then slide (s\<lparr>base := base s + 1, winfront := (winfront s + 1) mod WINDOWSIZE s,
                    pktnum := pktnum s - 1, ack_adv_num := ack_adv_num s + 1\<rparr>)
      else s)"
  by pat_completeness auto

termination
  by (relation "measure (\<lambda>s. nat (pktnum s))") auto

declare slide.simps [simp del]

lemma emulator_counted [simp]:
  "msg_num (tolayer3_counted e p s) = msg_num s"
  by (simp add: tolayer3_counted_def Let_def)

lemma transmit_msg_num [simp]: "msg_num (transmit m s) = msg_num s"
  by (simp add: transmit_def Let_def)

text \<open>The loop that sends buffered messages while the window has room.\<close>

function drain :: "sr \<Rightarrow> sr" where
  "drain s =
     (if 0 < msg_num s \<and> nextseqnum s < base s + int (WINDOWSIZE s)
      then drain (transmit (buffer s ! buffront s)
             (s\<lparr>buffront := (buffront s + 1) mod MAXBUFSIZE, msg_num := msg_num s - 1\<rparr>))
      else s)"
  by pat_completeness auto

termination
  by (relation "measure msg_num") auto

declare drain.simps [simp del]

definition A_input :: "pkt \<Rightarrow> sr \<Rightarrow> sr" where
  "A_input packet s =
     (if CheckCorrupted packet then s
      else let acknum = acknum packet
        in if acknum < base s \<or> nextseqnum s \<le> acknum then s
           else (case search [0..<nat (pktnum s)] acknum s of
              None \<Rightarrow> s
            | Some foundIndex \<Rightarrow>
                let s = stoptime_r A acknum s;
                    s = s\<lparr>winbuf := (winbuf s)[foundIndex := (winbuf s ! foundIndex)\<lparr>acknum := 1\<rparr>]\<rparr>
                in drain (slide s)))"

definition A_packet_time_rinterrupt :: "int \<Rightarrow> sr \<Rightarrow> sr" where
  "A_packet_time_rinterrupt pkt_seq s =
     (let s = s\<lparr>packet_time_out := packet_time_out s + 1\<rparr>
      in case search [0..<nat (pktnum s)] pkt_seq s of
           None \<Rightarrow> s
         | Some idx \<Rightarrow>
             let s = tolayer3_counted A (winbuf s ! idx) s;
                 s = s\<lparr>packet_sent := packet_sent s + 1, packet_resent := packet_resent s + 1\<rparr>
             in starttime_r pkt_seq A RTT s)"

section \<open>Receiver and main loop\<close>

text \<open>The index of a number in the receiver's arrays, if it lies within them; C's \<open>%\<close> truncates.\<close>

definition slot_of :: "int \<Rightarrow> sr \<Rightarrow> nat option" where
  "slot_of n s =
     (let w = int (WINDOWSIZE s); slot = (if n < 0 then - (- n mod w) else n mod w)
      in if 0 \<le> slot \<and> slot < int (length (recv_marked s)) then Some (nat slot) else None)"

lemma slot_of_less: "slot_of n s = Some i \<Longrightarrow> i < length (recv_marked s)"
  by (auto simp: slot_of_def Let_def split: if_splits)

text \<open>The loop that delivers what has arrived in order.\<close>

lemma unmark_less:
  "i < length xs \<Longrightarrow> xs ! i \<Longrightarrow> length (filter (\<lambda>x. x) (xs[i := False])) < length (filter (\<lambda>x. x) xs)"
proof (induction xs arbitrary: i)
  case (Cons x xs)
  then show ?case by (cases i) auto
qed simp

function deliver :: "sr \<Rightarrow> stop + sr" where
  "deliver s =
     (case slot_of (expected_seq s) s of
        None \<Rightarrow> Inl Undefined
      | Some i \<Rightarrow>
          if recv_marked s ! i \<and> seqnum (recv_window s ! i) = expected_seq s
          then deliver ((tolayer5 (payload (recv_window s ! i)) s)
                 \<lparr>recv_marked := (recv_marked s)[i := False], packet_receieve := packet_receieve s + 1,
                  expected_seq := expected_seq s + 1\<rparr>)
          else Inr s)"
  by pat_completeness auto

termination
  by (relation "measure (\<lambda>s. length (filter (\<lambda>x. x) (recv_marked s)))") (auto dest: slot_of_less intro: unmark_less)

declare deliver.simps [simp del]

definition send_ack :: "int \<Rightarrow> sr \<Rightarrow> sr" where
  "send_ack n s =
     tolayer3_counted B (ComputeChecksum \<lparr>seqnum = NOTUSED, acknum = n, checksum = 0, payload = zeros 20\<rparr>) s"

definition B_input :: "pkt \<Rightarrow> sr \<Rightarrow> stop + sr" where
  "B_input packet s =
     (if CheckCorrupted packet then Inr s
      else let n = seqnum packet; w = int (WINDOWSIZE s)
        in if expected_seq s \<le> n \<and> n < expected_seq s + w \<or> n < expected_seq s \<and> expected_seq s - w \<le> n
           then (case slot_of n s of
              None \<Rightarrow> Inl Undefined
            | Some slot \<Rightarrow>
                deliver
                  (if \<not> recv_marked s ! slot \<or> seqnum (recv_window s ! slot) \<noteq> n
                   then send_ack n (s\<lparr>recv_window := (recv_window s)[slot := packet],
                                      recv_marked := (recv_marked s)[slot := True]\<rparr>)
                   else s))
           else Inr (send_ack n s))"

definition handle :: "event \<Rightarrow> sr \<Rightarrow> stop + sr" where
  "handle e s =
     (case evtype e of
        FromLayer5 \<Rightarrow>
          (let s = generate_next_arrival s
           in if eventity e = A then A_output (letters (nsim s)) s else Inr s)
      | FromLayer3 packet \<Rightarrow> if eventity e = A then Inr (A_input packet s) else B_input packet s
      | TimerInterrupt pkt_seq \<Rightarrow>
          Inr (if eventity e = A then A_packet_time_rinterrupt pkt_seq s else s))"

definition sr_step :: "sr \<Rightarrow> stop + sr" where
  "sr_step s = (case next_event s of None \<Rightarrow> Inl Terminated | Some (e, s) \<Rightarrow> handle e s)"

end
