(* ===== verification/Rounding.thy ===== *)
theory Rounding
  imports Transport
begin

text \<open>
  Rounding to \<open>double\<close> and to \<open>float\<close> as one function of the precision, and what it does to the
  emulator's clock: the arrival time of a packet is never before the time it is sent, and never before
  the arrival time of a packet sent earlier, whatever the rounding errors.
\<close>

section \<open>Rounding to a precision\<close>

definition rnd :: "int \<Rightarrow> rat \<Rightarrow> rat" where
  "rnd p x =
     (if x = 0 then 0
      else let e = ulp_exp \<bar>x\<bar> + (52 - p) in of_int (round_even (x / pow2 e)) * pow2 e)"

lemma fl_rnd: "fl x = rnd 52 x"
  by (simp add: fl_def rnd_def)

lemma fl24_rnd: "fl24 x = rnd 23 x"
  by (simp add: fl24_def rnd_def)

lemma rnd_0 [simp]: "rnd p 0 = 0"
  by (simp add: rnd_def)

lemma round_even_ge: "of_int m - 1 / 2 < x \<Longrightarrow> m \<le> round_even x"
  using round_even_error[of x] by linarith

text \<open>A number of the given precision: a multiple of the unit of its binade.\<close>

definition grid :: "int \<Rightarrow> rat \<Rightarrow> bool" where
  "grid p x \<longleftrightarrow> x = 0 \<or> 0 < x \<and> (\<exists>m. x = of_int m * pow2 (ulp_exp x + (52 - p)))"

lemma grid_0 [simp]: "grid p 0"
  by (simp add: grid_def)

lemma rnd_grid: "grid p x \<Longrightarrow> rnd p x = x"
proof -
  assume "grid p x"
  then consider "x = 0" | m where "0 < x" "x = of_int m * pow2 (ulp_exp x + (52 - p))"
    unfolding grid_def by blast
  then show ?thesis
  proof cases
    case 2
    define u where "u = pow2 (ulp_exp x + (52 - p))"
    have u: "0 < u" "x = of_int m * u" using 2 by (simp_all add: u_def)
    then have "x / u = of_int m" by simp
    then have "of_int (round_even (x / u)) * u = x" using u(2) by (simp only: round_even_of_int)
    then show ?thesis using 2(1) by (simp add: rnd_def u_def)
  qed simp
qed

lemma pow2_shift: "0 \<le> k \<Longrightarrow> pow2 (k + a) = of_int (2 ^ nat k) * pow2 a"
  by (simp only: pow2_add pow2_nonneg)

lemma binade_units:
  assumes "0 \<le> p"
  shows "pow2 (e + 52) = of_int (2 ^ nat p) * pow2 (e + (52 - p))"
    "pow2 (e + 53) = of_int (2 ^ nat (p + 1)) * pow2 (e + (52 - p))"
  using pow2_shift[of p "e + (52 - p)"] pow2_shift[of "p + 1" "e + (52 - p)"] assms by (simp_all add: algebra_simps)

lemma rnd_quotient:
  assumes "0 < x" "0 \<le> p"
  defines "r \<equiv> round_even (x / pow2 (ulp_exp x + (52 - p)))"
  shows "rnd p x = of_int r * pow2 (ulp_exp x + (52 - p)) \<and> 2 ^ nat p \<le> r \<and> r \<le> 2 ^ nat (p + 1)"
proof -
  let ?u = "pow2 (ulp_exp x + (52 - p))"
  have "of_int (2 ^ nat p) \<le> x / ?u" "x / ?u \<le> of_int (2 ^ nat (p + 1))"
    using ulp_exp_bounds[OF assms(1)] unfolding binade_units[OF assms(2)]
    by (simp_all only: pos_le_divide_eq[OF pow2_pos] pos_divide_le_eq[OF pow2_pos] less_imp_le)
  then have "2 ^ nat p \<le> r" "r \<le> 2 ^ nat (p + 1)"
    unfolding r_def using round_even_mono round_even_of_int by metis+
  then show ?thesis using assms(1) by (simp add: rnd_def r_def Let_def)
qed

lemma rnd_bounds:
  assumes "0 < x" "0 \<le> p"
  shows "pow2 (ulp_exp x + 52) \<le> rnd p x \<and> rnd p x \<le> pow2 (ulp_exp x + 53)"
proof -
  let ?u = "pow2 (ulp_exp x + (52 - p))"
  obtain r where r: "rnd p x = of_int r * ?u" "2 ^ nat p \<le> r" "r \<le> 2 ^ nat (p + 1)"
    using rnd_quotient[OF assms] by blast
  have "of_int (2 ^ nat p) * ?u \<le> of_int r * ?u" "of_int r * ?u \<le> of_int (2 ^ nat (p + 1)) * ?u"
    using r(2,3) by (intro mult_right_mono; simp only: of_int_le_iff pow2_simps)+
  then show ?thesis unfolding binade_units[OF assms(2)] r(1) by simp
qed

lemma grid_rnd:
  assumes "0 < x" "0 \<le> p"
  shows "grid p (rnd p x)"
proof -
  let ?e = "ulp_exp x" and ?y = "rnd p x"
  obtain r where r: "?y = of_int r * pow2 (?e + (52 - p))" using rnd_quotient[OF assms] by blast
  have b: "pow2 (?e + 52) \<le> ?y" "?y \<le> pow2 (?e + 53)" using rnd_bounds[OF assms] by simp_all
  then have pos: "0 < ?y" using pow2_pos[of "?e + 52"] by linarith
  show ?thesis
  proof (cases "?y = pow2 (?e + 53)")
    case False
    then have "ulp_exp ?y = ?e" using b pos by (intro ulp_exp_unique) simp_all
    then show ?thesis using r pos unfolding grid_def by auto
  next
    case True
    have "pow2 (?e + 53) < pow2 (?e + 1 + 53)" using pow2_add[of "?e + 53" 1] by (simp add: pow2_def)
    then have u: "ulp_exp ?y = ?e + 1" using True pos by (intro ulp_exp_unique) (simp_all add: algebra_simps)
    have "?y = of_int (2 ^ nat p) * pow2 (?e + 1 + (52 - p))"
      unfolding True pow2_nonneg[OF assms(2), symmetric] pow2_add[symmetric] by (simp add: algebra_simps)
    then show ?thesis using pos unfolding grid_def u by blast
  qed
qed

lemma grid_le:
  assumes "grid p x" "p \<le> q"
  shows "grid q x"
proof -
  have "pow2 (ulp_exp x + (52 - p)) = of_int (2 ^ nat (q - p)) * pow2 (ulp_exp x + (52 - q))"
    using pow2_shift[of "q - p" "ulp_exp x + (52 - q)"] assms(2) by (simp add: algebra_simps)
  then have "of_int m * pow2 (ulp_exp x + (52 - p)) = of_int (m * 2 ^ nat (q - p)) * pow2 (ulp_exp x + (52 - q))" for m
    by simp
  then show ?thesis using assms(1) unfolding grid_def by metis
qed

lemma rnd_mono:
  assumes "0 \<le> x" "x \<le> y" "0 \<le> p"
  shows "rnd p x \<le> rnd p y"
proof (cases "x = 0")
  case True
  show ?thesis
  proof (cases "y = 0")
    case False
    then have "pow2 (ulp_exp y + 52) \<le> rnd p y" using assms True rnd_bounds[of y p] by simp
    then have "0 \<le> rnd p y" using pow2_simps(3) by (rule order_trans[rotated])
    then show ?thesis using True by simp
  qed (simp add: True)
next
  case False
  let ?e = "ulp_exp x" and ?f = "ulp_exp y"
  have x: "0 < x" and y: "0 < y" using False assms by linarith+
  note bx = ulp_exp_bounds[OF x] and yb = ulp_exp_bounds[OF y]
  have "pow2 (?e + 52) < pow2 (?f + 53)" using bx yb assms(2) by linarith
  then have "?e \<le> ?f" using pow2_less_cancel by fastforce
  then consider "?e = ?f" | "?e + 53 \<le> ?f + 52" by linarith
  then show ?thesis
  proof cases
    case 1
    define u where "u = pow2 (?f + (52 - p))"
    have "x / u \<le> y / u" using assms(2) by (simp add: divide_right_mono u_def)
    then have "round_even (x / u) \<le> round_even (y / u)" by (rule round_even_mono)
    with 1 x y show ?thesis by (simp add: rnd_def u_def mult_right_mono Let_def)
  next
    case 2
    then have "pow2 (?e + 53) \<le> pow2 (?f + 52)"
      unfolding pow2_def by (intro power_int_increasing) simp_all
    then show ?thesis using rnd_bounds[OF x assms(3)] rnd_bounds[OF y assms(3)] by linarith
  qed
qed

section \<open>The clock\<close>

text \<open>A point of time is a nonnegative \<open>float\<close>.\<close>

definition clock :: "rat \<Rightarrow> bool" where
  "clock t \<longleftrightarrow> grid 23 t"

lemma clock_nonneg: "clock t \<Longrightarrow> 0 \<le> t"
  by (auto simp: clock_def grid_def)

lemma clock_0 [simp]: "clock 0"
  by (simp add: clock_def)

lemma clock_fl24: "0 \<le> x \<Longrightarrow> clock (fl24 x)"
  by (cases "x = 0") (simp_all add: clock_def fl24_rnd grid_rnd)

lemma clock_exact: "clock t \<Longrightarrow> fl24 t = t \<and> fl t = t"
  unfolding clock_def fl24_rnd fl_rnd using grid_le[of 23 t 52] by (simp add: rnd_grid)

lemma fl24_mono: "0 \<le> x \<Longrightarrow> x \<le> y \<Longrightarrow> fl24 x \<le> fl24 y"
  unfolding fl24_rnd by (rule rnd_mono) simp_all

lemma fl_mono: "0 \<le> x \<Longrightarrow> x \<le> y \<Longrightarrow> fl x \<le> fl y"
  unfolding fl_rnd by (rule rnd_mono) simp_all

definition arrival :: "rat \<Rightarrow> rat" where
  "arrival t = fl24 (fl (fl (t + RTT / 2) - 1))"

lemma delay_pos: "0 \<le> t \<Longrightarrow> 1 \<le> fl (t + RTT / 2)"
proof -
  assume "0 \<le> t"
  then have "fl 1 \<le> fl (t + RTT / 2)" by (intro fl_mono) (simp_all add: RTT_def)
  then show ?thesis using fl_of_nat[of 1] by simp
qed

lemma arrival_mono: "0 \<le> t \<Longrightarrow> t \<le> u \<Longrightarrow> arrival t \<le> arrival u"
proof -
  assume t: "0 \<le> t" "t \<le> u"
  then have "fl (t + RTT / 2) \<le> fl (u + RTT / 2)" by (intro fl_mono) (simp_all add: RTT_def)
  then have "fl (fl (t + RTT / 2) - 1) \<le> fl (fl (u + RTT / 2) - 1)" using delay_pos t by (intro fl_mono) simp_all
  then show ?thesis unfolding arrival_def using delay_pos t by (intro fl24_mono) (simp_all add: fl_nonneg)
qed

lemma arrival_clock: "0 \<le> t \<Longrightarrow> clock (arrival t)"
  unfolding arrival_def using delay_pos by (intro clock_fl24 fl_nonneg) simp

text \<open>
  A large time has units so coarse that the loss of one cannot move it: what lies a little below a
  \<open>float\<close> is rounded to it.
\<close>

lemma fl24_near:
  assumes "clock t" "0 < t" "t - t / 2 ^ 26 \<le> x" "x \<le> t"
  shows "fl24 x = t"
proof -
  let ?e = "ulp_exp t" and ?f = "ulp_exp x"
  have x: "0 < x" using assms(2,3) by (simp add: field_simps)
  note bt = ulp_exp_bounds[OF assms(2)] and bx = ulp_exp_bounds[OF x]
  have "pow2 (?e + 52) < pow2 (?f + 54)"
  proof -
    have "t < 2 * x" using assms(2,3) by (simp add: field_simps)
    also have "\<dots> < pow2 (?f + 54)" using bx pow2_shift[of 1 "?f + 53"] by (simp add: algebra_simps)
    finally show ?thesis using bt by linarith
  qed
  then have f: "?e \<le> ?f + 1" using pow2_less_cancel by fastforce
  have "pow2 (?f + 52) < pow2 (?e + 53)" using bt bx assms(4) by linarith
  then have f2: "?f \<le> ?e" using pow2_less_cancel by fastforce
  obtain m where m: "t = of_int m * pow2 (?e + (52 - 23))" using assms(1,2) by (auto simp: clock_def grid_def)
  let ?u = "pow2 (?f + (52 - 23))"
  have "pow2 (?e + (52 - 23)) = of_int (2 ^ nat (?e - ?f)) * ?u"
    using pow2_shift[of "?e - ?f" "?f + (52 - 23)"] f2 by (simp add: algebra_simps)
  then have "of_int m * pow2 (?e + (52 - 23)) = of_int (m * 2 ^ nat (?e - ?f)) * ?u"
    by (simp only: of_int_mult mult.assoc)
  with m have "t = of_int (m * 2 ^ nat (?e - ?f)) * ?u" by (rule trans)
  then obtain k where k: "t = of_int k * ?u" ..
  have "t < pow2 (?e + 53)" using bt by simp
  also have "\<dots> \<le> pow2 (?f + 54)" using f unfolding pow2_def by (intro power_int_increasing) simp_all
  also have "\<dots> = 2 ^ 25 * ?u" using pow2_shift[of 25 "?f + (52 - 23)"] by (simp add: algebra_simps)
  finally have "t / 2 ^ 26 < 1 / 2 * ?u" by (simp add: field_simps)
  then have "of_int k * ?u - 1 / 2 * ?u < x" using assms(3) k by linarith
  then have "(of_int k - 1 / 2) * ?u < x" by (simp only: left_diff_distrib)
  then have "of_int k - 1 / 2 < x / ?u" by (simp only: pos_less_divide_eq[OF pow2_pos])
  then have "k \<le> round_even (x / ?u)" by (rule round_even_ge)
  then have "t \<le> fl24 x" using x k unfolding fl24_rnd by (simp add: rnd_def Let_def)
  moreover have "fl24 x \<le> t" using fl24_mono[of x t] x assms(1,4) clock_exact[of t] by simp
  ultimately show ?thesis by simp
qed

lemma arrival_later:
  assumes "clock t"
  shows "t \<le> arrival t"
proof (cases "t \<le> 2 ^ 52")
  case True
  have t: "0 \<le> t" using assms by (rule clock_nonneg)
  have "\<bar>fl (t + RTT / 2) - (t + RTT / 2)\<bar> \<le> \<bar>t + RTT / 2\<bar> / 2 ^ 53" by (rule fl_error)
  also have "\<dots> \<le> 1" using True t by (simp add: RTT_def)
  finally have "t \<le> fl (t + RTT / 2) - 1" by (simp add: RTT_def abs_le_iff)
  then have "fl t \<le> fl (fl (t + RTT / 2) - 1)" using t by (intro fl_mono)
  then have "fl24 t \<le> arrival t" unfolding arrival_def using t clock_exact[OF assms] by (intro fl24_mono) simp_all
  then show ?thesis using clock_exact[OF assms] by simp
next
  case False
  have t: "0 < t" using False by simp
  have "fl t \<le> fl (t + RTT / 2)" using t by (intro fl_mono) (simp_all add: RTT_def)
  then have "t - 1 \<le> fl (t + RTT / 2) - 1" using clock_exact[OF assms] by simp
  then have a: "fl (t - 1) \<le> fl (fl (t + RTT / 2) - 1)" using False by (intro fl_mono) simp_all
  have "\<bar>fl (t - 1) - (t - 1)\<bar> \<le> \<bar>t - 1\<bar> / 2 ^ 53" by (rule fl_error)
  moreover have "\<bar>t - 1\<bar> = t - 1" using False by simp
  ultimately have "t - 1 - (t - 1) / 2 ^ 53 \<le> fl (t - 1)" by linarith
  moreover have "1 + (t - 1) / 2 ^ 53 \<le> t / 2 ^ 26" using False by (simp add: field_simps)
  ultimately have "t - t / 2 ^ 26 \<le> fl (t - 1)" by linarith
  moreover have "fl (t - 1) \<le> fl t" using False by (intro fl_mono) simp_all
  then have "fl (t - 1) \<le> t" using clock_exact[OF assms] by simp
  ultimately have "fl24 (fl (t - 1)) = t" by (intro fl24_near[OF assms t])
  moreover have "0 \<le> fl (t - 1)" using False by (intro fl_nonneg) simp
  ultimately show ?thesis using fl24_mono[OF _ a] by (simp add: arrival_def)
qed

text \<open>The same holds of timers and of the next message.\<close>

lemma timer_later: "clock t \<Longrightarrow> t \<le> fl24 (t + RTT) \<and> clock (fl24 (t + RTT))"
  using fl24_mono[of t "t + RTT"] clock_exact[of t] clock_nonneg[of t] by (auto simp: RTT_def intro: clock_fl24)

lemma message_later:
  assumes "clock t" "0 \<le> interval"
  shows "t \<le> fl24 (fl (t + interval)) \<and> clock (fl24 (fl (t + interval)))"
proof -
  have t: "0 \<le> t" using assms(1) by (rule clock_nonneg)
  then have "fl t \<le> fl (t + interval)" using assms(2) by (intro fl_mono) simp_all
  then have "fl24 t \<le> fl24 (fl (t + interval))" using clock_exact[OF assms(1)] t by (intro fl24_mono) simp_all
  moreover have "clock (fl24 (fl (t + interval)))" using t assms(2) by (intro clock_fl24 fl_nonneg) simp
  ultimately show ?thesis using clock_exact[OF assms(1)] by simp
qed

section \<open>Delays\<close>

text \<open>
  How far rounding can move a point of time below \<open>2 ^ 22\<close>: little enough that an acknowledgement sent
  at once is back before the timer of its packet goes off. Beyond that it need not be.
\<close>

lemma fl24_error: "\<bar>fl24 x - x\<bar> \<le> \<bar>x\<bar> / 2 ^ 24"
proof (cases "x = 0")
  case False
  define u where "u = pow2 (ulp_exp \<bar>x\<bar> + 29)"
  have u: "0 < u" "\<bar>u\<bar> = u" by (simp_all add: u_def)
  have "fl24 x - x = (of_int (round_even (x / u)) - x / u) * u"
    using False u(1) by (simp add: fl24_def Let_def u_def left_diff_distrib)
  then have "\<bar>fl24 x - x\<bar> = \<bar>of_int (round_even (x / u)) - x / u\<bar> * u" by (simp only: abs_mult u(2))
  also have "\<dots> \<le> 1 / 2 * u" using round_even_error by (rule mult_right_mono) (use u in simp)
  also have "\<dots> \<le> \<bar>x\<bar> / 2 ^ 24"
  proof -
    have "u * pow2 23 \<le> \<bar>x\<bar>" using ulp_exp_bounds[of "\<bar>x\<bar>"] False by (simp add: pow2_add[symmetric] u_def add.commute)
    then show ?thesis by (simp add: pow2_def field_simps)
  qed
  finally show ?thesis .
qed (simp add: fl24_def)

lemma double_near:
  assumes "0 \<le> x" "x \<le> 2 ^ 23"
  shows "fl x \<le> x + 1 / 1000 \<and> x \<le> fl x + 1 / 1000"
proof -
  have "\<bar>fl x - x\<bar> \<le> 1 / 1000" using fl_error[of x] assms by (simp add: field_simps)
  then show ?thesis by linarith
qed

lemma float_near:
  assumes "0 \<le> x" "x \<le> 2 ^ 22 + 16"
  shows "fl24 x \<le> x + 26 / 100 \<and> x \<le> fl24 x + 26 / 100"
proof -
  have "\<bar>fl24 x - x\<bar> \<le> 26 / 100" using fl24_error[of x] assms by (simp add: field_simps)
  then show ?thesis by linarith
qed

lemma arrival_soon:
  assumes "0 \<le> x" "x \<le> 2 ^ 22 + 8"
  shows "arrival x \<le> x + 34 / 5"
proof -
  define a where "a = fl (x + RTT / 2)"
  have "a \<le> x + 15 / 2 + 1 / 1000 \<and> x + 15 / 2 \<le> a + 1 / 1000"
    using double_near[of "x + RTT / 2"] assms by (simp add: a_def RTT_def)
  moreover from this have "fl (a - 1) \<le> a - 1 + 1 / 1000 \<and> a - 1 \<le> fl (a - 1) + 1 / 1000"
    using assms by (intro double_near) simp_all
  moreover from calculation have "fl24 (fl (a - 1)) \<le> fl (a - 1) + 26 / 100"
    using assms by (intro conjunct1[OF float_near]) simp_all
  ultimately show ?thesis unfolding arrival_def a_def[symmetric] by linarith
qed

lemma timer_late:
  assumes "0 \<le> x" "x \<le> 2 ^ 22"
  shows "x + 147 / 10 \<le> fl24 (x + RTT)"
  using float_near[of "x + RTT"] assms by (simp add: RTT_def)

lemma round_trip:
  assumes "clock x" "x \<le> 2 ^ 22"
  shows "arrival (arrival x) < fl24 (x + RTT)"
proof -
  have x: "0 \<le> x" using assms(1) by (rule clock_nonneg)
  then have a: "arrival x \<le> x + 34 / 5" "0 \<le> arrival x"
    using arrival_soon[of x] clock_nonneg[OF arrival_clock] assms(2) by simp_all
  then have "arrival (arrival x) \<le> arrival x + 34 / 5" using assms(2) by (intro arrival_soon) simp_all
  then show ?thesis using a(1) timer_late[OF x assms(2)] by linarith
qed

lemma message_soon:
  assumes "0 \<le> x" "x \<le> 2 ^ 22"
  shows "fl24 (fl x) \<le> x + 1"
proof -
  have d: "fl x \<le> x + 1 / 1000" using double_near[of x] assms by simp
  moreover have "fl24 (fl x) \<le> fl x + 26 / 100"
    using assms d fl_nonneg by (intro conjunct1[OF float_near]) simp_all
  ultimately show ?thesis by linarith
qed

end
