(* ===== verification/Channel.thy ===== *)
theory Channel
  imports Rounding
begin

text \<open>
  The emulator as a channel: events are handled in the order of their times, time never runs backwards,
  and packets arrive in the order in which they were sent, since all of them take the same time and
  rounding is monotone.
\<close>

section \<open>Packets under way\<close>

definition packet_to :: "entity \<Rightarrow> event \<Rightarrow> pkt option" where
  "packet_to x e =
     (case evtype e of FromLayer3 p \<Rightarrow> if eventity e = x then Some p else None | _ \<Rightarrow> None)"

definition under_way :: "entity \<Rightarrow> 'a net_scheme \<Rightarrow> pkt list" where
  "under_way x s = List.map_filter (packet_to x) (evlist s)"

definition is_packet :: "event \<Rightarrow> bool" where
  "is_packet e \<longleftrightarrow> (\<exists>p. evtype e = FromLayer3 p)"

lemma packet_to_simps [simp]:
  "packet_to x \<lparr>evtime = t, evtype = TimerInterrupt k, eventity = y\<rparr> = None"
  "packet_to x \<lparr>evtime = t, evtype = FromLayer5, eventity = y\<rparr> = None"
  "packet_to x \<lparr>evtime = t, evtype = FromLayer3 p, eventity = y\<rparr> = (if y = x then Some p else None)"
  by (simp_all add: packet_to_def)

lemma is_packet_simps [simp]:
  "\<not> is_packet \<lparr>evtime = t, evtype = TimerInterrupt k, eventity = y\<rparr>"
  "\<not> is_packet \<lparr>evtime = t, evtype = FromLayer5, eventity = y\<rparr>"
  "is_packet \<lparr>evtime = t, evtype = FromLayer3 p, eventity = y\<rparr>"
  by (simp_all add: is_packet_def)

lemma packet_to_is_packet: "packet_to x e = Some p \<Longrightarrow> is_packet e"
  by (auto simp: packet_to_def is_packet_def split: evtype.splits)

lemma map_filter_insert_none:
  "f p = None \<Longrightarrow> List.map_filter f (insert_event p qs) = List.map_filter f qs"
  by (induction qs) (auto simp: map_filter_simps split: option.splits)

lemma map_filter_insert_last:
  "in_order qs \<Longrightarrow> (\<And>q y. q \<in> set qs \<Longrightarrow> f q = Some y \<Longrightarrow> evtime q \<le> evtime p) \<Longrightarrow>
     List.map_filter f (insert_event p qs) = List.map_filter f qs @ List.map_filter f [p]"
proof (induction qs)
  case (Cons q qs)
  show ?case
  proof (cases "evtime q \<le> evtime p")
    case True
    have "List.map_filter f (insert_event p qs) = List.map_filter f qs @ List.map_filter f [p]"
      using Cons.prems by (intro Cons.IH) (auto simp: in_order_def)
    with True show ?thesis by (simp add: map_filter_simps split: option.splits)
  next
    case False
    then have "\<forall>r \<in> set (q # qs). evtime p < evtime r" using Cons.prems(1) by (force simp: in_order_def)
    then have "\<forall>r \<in> set (q # qs). f r = None" using Cons.prems(2) by (metis not_le not_None_eq)
    then have "List.map_filter f (q # qs) = []" by (induction qs) (auto simp: map_filter_simps)
    with False show ?thesis by (simp add: map_filter_simps split: option.splits)
  qed
qed (simp add: map_filter_simps)

lemma map_filter_cancel:
  "(\<And>t. f \<lparr>evtime = t, evtype = TimerInterrupt n, eventity = e\<rparr> = None) \<Longrightarrow>
     List.map_filter f (cancel e n qs) = List.map_filter f qs"
proof (induction qs)
  case (Cons q qs)
  have "f q = None" if "evtype q = TimerInterrupt n" "eventity q = e"
    using Cons.prems[of "evtime q"] that by (cases q) simp
  with Cons show ?case by (auto simp: map_filter_simps split: option.splits)
qed simp

text \<open>What becomes of a packet handed to the channel, and when it arrives.\<close>

definition sent_as :: "pkt \<Rightarrow> 'a net_scheme \<Rightarrow> pkt option" where
  "sent_as p s =
     (let s = s\<lparr>cp := cp s + 1\<rparr>
      in if fate s = CHR ''x'' then None else if fate s = CHR ''-'' then Some (corrupt p) else Some p)"

lemma tolayer3_evlist:
  "evlist (tolayer3 e p s) =
     (case sent_as p s of
        None \<Rightarrow> evlist s
      | Some q \<Rightarrow> insert_event \<lparr>evtime = arrival (time s), evtype = FromLayer3 q, eventity = other e\<rparr> (evlist s))"
  "time (tolayer3 e p s) = time s" "lambda (tolayer3 e p s) = lambda s"
proof -
  have "fate (s\<lparr>cp := c, ntolayer3 := n\<rparr>) = fate (s\<lparr>cp := c\<rparr>)" for c n by (simp add: fate_def)
  then show "evlist (tolayer3 e p s) =
     (case sent_as p s of
        None \<Rightarrow> evlist s
      | Some q \<Rightarrow> insert_event \<lparr>evtime = arrival (time s), evtype = FromLayer3 q, eventity = other e\<rparr> (evlist s))"
    by (simp add: tolayer3_def sent_as_def Let_def insertevent_def arrival_def)
qed (simp_all add: tolayer3_def Let_def insertevent_def)

section \<open>Time\<close>

definition timely :: "'a net_scheme \<Rightarrow> bool" where
  "timely s \<longleftrightarrow>
     clock (time s) \<and> 0 \<le> lambda s \<and> in_order (evlist s) \<and>
     (\<forall>q \<in> set (evlist s). time s \<le> evtime q \<and> clock (evtime q)) \<and>
     (\<forall>q \<in> set (evlist s). is_packet q \<longrightarrow> evtime q \<le> arrival (time s))"

lemma timely_fields:
  "timely s \<Longrightarrow> time t = time s \<Longrightarrow> lambda t = lambda s \<Longrightarrow> evlist t = evlist s \<Longrightarrow> timely t"
  by (simp add: timely_def)

lemma timely_insert:
  "timely s \<Longrightarrow> time s \<le> evtime p \<Longrightarrow> clock (evtime p) \<Longrightarrow> (is_packet p \<Longrightarrow> evtime p \<le> arrival (time s)) \<Longrightarrow>
     timely (insertevent p s)"
  by (auto simp: timely_def insertevent_def insert_event_sorted)

lemma timely_starttime_r [intro]: "timely s \<Longrightarrow> timely (starttime_r n e RTT s)"
  unfolding starttime_r_def using timer_later by (intro timely_insert) (auto simp: timely_def)

lemma timely_stoptime_r [intro]: "timely s \<Longrightarrow> timely (stoptime_r e n s)"
  using set_cancel[of e n "evlist s"] by (auto simp: timely_def stoptime_r_def cancel_sorted)

lemma timely_arrival [intro]: "timely s \<Longrightarrow> timely (generate_next_arrival s)"
proof -
  assume s: "timely s"
  then have "timely (insertevent \<lparr>evtime = fl24 (fl (time s + lambda s)), evtype = FromLayer5, eventity = A\<rparr> s)"
    using message_later[of "time s" "lambda s"] by (intro timely_insert) (auto simp: timely_def)
  with s show ?thesis by (auto simp: generate_next_arrival_def intro: timely_fields)
qed

lemma timely_tolayer3 [intro]:
  assumes "timely s"
  shows "timely (tolayer3 e p s)"
proof -
  have t: "time s \<le> arrival (time s)" "clock (arrival (time s))"
    using assms arrival_later arrival_clock[OF clock_nonneg] by (auto simp: timely_def)
  have "timely (insertevent \<lparr>evtime = arrival (time s), evtype = FromLayer3 q, eventity = y\<rparr> s)" for q y
    using assms t by (intro timely_insert) simp_all
  with assms have "timely (s\<lparr>evlist := evlist (tolayer3 e p s)\<rparr>)"
    by (simp add: tolayer3_evlist insertevent_def timely_fields split: option.split)
  then show ?thesis by (rule timely_fields) (simp_all add: tolayer3_evlist(2,3))
qed

text \<open>The next event: its time becomes the current one.\<close>

lemma timely_next:
  assumes "timely s" "evlist s = e # rest"
  shows "timely (s\<lparr>evlist := rest, time := evtime e\<rparr>) \<and> time s \<le> evtime e"
proof -
  have e: "time s \<le> evtime e" "clock (evtime e)" "0 \<le> time s"
    using assms clock_nonneg by (auto simp: timely_def)
  then have "arrival (time s) \<le> arrival (evtime e)" by (intro arrival_mono)
  then show ?thesis using assms e by (fastforce simp: timely_def in_order_def)
qed

section \<open>First in, first out\<close>

lemma under_way_fields: "evlist t = evlist s \<Longrightarrow> under_way x t = under_way x s"
  by (simp add: under_way_def)

lemma under_way_timers [simp]:
  "under_way x (starttime_r n e d s) = under_way x s"
  "under_way x (stoptime_r e n s) = under_way x s"
  "under_way x (generate_next_arrival s) = under_way x s"
  by (simp_all add: under_way_def starttime_r_def stoptime_r_def generate_next_arrival_def map_filter_insert_none
      map_filter_cancel)

text \<open>A packet that is not lost is the last to arrive of those under way to the same side.\<close>

lemma under_way_tolayer3:
  assumes "timely s"
  shows "under_way x (tolayer3 e p s) =
    under_way x s @ (case sent_as p s of None \<Rightarrow> [] | Some q \<Rightarrow> if x = other e then [q] else [])"
proof (cases "sent_as p s")
  case (Some q)
  let ?q = "\<lparr>evtime = arrival (time s), evtype = FromLayer3 q, eventity = other e\<rparr>"
  have "List.map_filter (packet_to x) (insert_event ?q (evlist s)) =
      List.map_filter (packet_to x) (evlist s) @ List.map_filter (packet_to x) [?q]"
    using assms packet_to_is_packet by (intro map_filter_insert_last) (auto simp: timely_def)
  with Some show ?thesis by (simp add: under_way_def tolayer3_evlist map_filter_simps)
qed (simp add: under_way_def tolayer3_evlist)

lemma under_way_next:
  "evlist s = e # rest \<Longrightarrow>
     under_way x s = (case packet_to x e of None \<Rightarrow> [] | Some p \<Rightarrow> [p]) @ under_way x (s\<lparr>evlist := rest, time := t\<rparr>)"
  by (simp add: under_way_def map_filter_simps split: option.splits)

end
