(* ===== verification/Repeat_Safety.thy ===== *)
theory Repeat_Safety
  imports Selective_Repeat Channel
begin

text \<open>
  What selective repeat guarantees over every channel: the application at B gets the messages of A in
  order, each once and unaltered, and A never takes a packet for received that B does not hold: the base
  of the window stays at or below the number B expects. The second part needs that packets do not
  overtake each other, since the receiver writes an old packet over a buffered one of the same slot.
\<close>

section \<open>The invariant\<close>

definition slot :: "sr \<Rightarrow> int \<Rightarrow> pkt" where
  "slot s j = winbuf s ! (nat j mod WINDOWSIZE s)"

definition sender_ok :: "int \<Rightarrow> sr \<Rightarrow> bool" where
  "sender_ok N s \<longleftrightarrow>
     0 < WINDOWSIZE s \<and> length (winbuf s) = WINDOWSIZE s \<and>
     0 \<le> base s \<and> base s \<le> nextseqnum s \<and> nextseqnum s \<le> base s + int (WINDOWSIZE s) \<and>
     pktnum s = nextseqnum s - base s \<and>
     winfront s = nat (base s) mod WINDOWSIZE s \<and> winrear s = nat (nextseqnum s) mod WINDOWSIZE s \<and>
     (\<forall>j. base s \<le> j \<longrightarrow> j < nextseqnum s \<longrightarrow>
        slot s j = data_pkt N j \<or> slot s j = (data_pkt N j)\<lparr>acknum := 1\<rparr>)"

text \<open>B holds number \<open>j\<close>: it has delivered it or keeps it in its window.\<close>

definition kept :: "sr \<Rightarrow> int \<Rightarrow> bool" where
  "kept s j \<longleftrightarrow>
     (case slot_of j s of None \<Rightarrow> False | Some i \<Rightarrow> recv_marked s ! i \<and> seqnum (recv_window s ! i) = j)"

definition has :: "sr \<Rightarrow> int \<Rightarrow> bool" where
  "has s j \<longleftrightarrow> j < expected_seq s \<or> kept s j"

definition marks_ok :: "int \<Rightarrow> sr \<Rightarrow> bool" where
  "marks_ok N s \<longleftrightarrow>
     length (recv_marked s) = 8 \<and> length (recv_window s) = 8 \<and>
     (\<forall>i < 8. recv_marked s ! i \<longrightarrow>
        (\<exists>j. 0 \<le> j \<and> j < nextseqnum s \<and> slot_of j s = Some i \<and> recv_window s ! i = data_pkt N j))"

definition delivered_ok :: "int \<Rightarrow> sr \<Rightarrow> bool" where
  "delivered_ok N s \<longleftrightarrow>
     0 \<le> expected_seq s \<and> expected_seq s \<le> nextseqnum s \<and>
     layer5 s = map (\<lambda>i. nth_message N (int i)) [0..<nat (expected_seq s)]"

text \<open>The numbers of the data packets that will arrive intact, in the order in which they arrive.\<close>

definition numbers :: "'a net_scheme \<Rightarrow> int list" where
  "numbers s = map seqnum (filter (\<lambda>p. \<not> CheckCorrupted p) (under_way B s))"

text \<open>No packet under way is a window behind one that comes before it.\<close>

definition order_ok :: "sr \<Rightarrow> bool" where
  "order_ok s \<longleftrightarrow>
     sorted_wrt (\<lambda>a b. a < b + int (WINDOWSIZE s)) (numbers s) \<and>
     (\<forall>n \<in> set (numbers s). \<forall>i < 8. recv_marked s ! i \<longrightarrow> seqnum (recv_window s ! i) < n + int (WINDOWSIZE s))"

text \<open>What is acknowledged, or will be, is held.\<close>

definition acks_ok :: "sr \<Rightarrow> bool" where
  "acks_ok s \<longleftrightarrow>
     (\<forall>p \<in> set (under_way A s). \<not> CheckCorrupted p \<longrightarrow> has s (acknum p)) \<and>
     (\<forall>j. 0 \<le> j \<longrightarrow> j < base s \<longrightarrow> has s j) \<and>
     (\<forall>j. base s \<le> j \<longrightarrow> j < nextseqnum s \<longrightarrow> acknum (slot s j) = 1 \<longrightarrow> has s j)"

definition core :: "int \<Rightarrow> sr \<Rightarrow> bool" where
  "core N s \<longleftrightarrow>
     nsimmax s = N \<and> timely s \<and> sender_ok N s \<and> channel_ok N (nextseqnum s) (nextseqnum s) s \<and>
     marks_ok N s \<and> delivered_ok N s \<and> \<not> kept s (expected_seq s) \<and> order_ok s \<and> acks_ok s"

definition sr_ok :: "int \<Rightarrow> sr \<Rightarrow> bool" where
  "sr_ok N s \<longleftrightarrow>
     core N s \<and> buffer_ok N (nextseqnum s) s \<and> msg_num s < MAXBUFSIZE \<and>
     (0 < msg_num s \<longrightarrow> base s + int (WINDOWSIZE s) \<le> nextseqnum s)"

section \<open>Frames\<close>

lemma counted_net:
  "evlist (tolayer3_counted e p s) = evlist (tolayer3 e p s)" "time (tolayer3_counted e p s) = time s"
  "lambda (tolayer3_counted e p s) = lambda s" "nsim (tolayer3_counted e p s) = nsim s"
  "nsimmax (tolayer3_counted e p s) = nsimmax s" "layer5 (tolayer3_counted e p s) = layer5 s"
  by (simp_all add: tolayer3_counted_def Let_def tolayer3_evlist)

lemma counted_sender [simp]:
  "nextseqnum (tolayer3_counted e p s) = nextseqnum s" "base (tolayer3_counted e p s) = base s"
  "winbuf (tolayer3_counted e p s) = winbuf s" "winfront (tolayer3_counted e p s) = winfront s"
  "winrear (tolayer3_counted e p s) = winrear s" "pktnum (tolayer3_counted e p s) = pktnum s"
  "buffer (tolayer3_counted e p s) = buffer s" "buffront (tolayer3_counted e p s) = buffront s"
  "bufrear (tolayer3_counted e p s) = bufrear s" "WINDOWSIZE (tolayer3_counted e p s) = WINDOWSIZE s"
  by (simp_all add: tolayer3_counted_def Let_def)

lemma sr_frame [simp]:
  "expected_seq (tolayer3 e p s) = expected_seq s" "recv_window (tolayer3 e p s) = recv_window s"
  "recv_marked (tolayer3 e p s) = recv_marked s"
  "expected_seq (starttime_r n e d s) = expected_seq s" "recv_window (starttime_r n e d s) = recv_window s"
  "recv_marked (starttime_r n e d s) = recv_marked s"
  "expected_seq (stoptime_r e n s) = expected_seq s" "recv_window (stoptime_r e n s) = recv_window s"
  "recv_marked (stoptime_r e n s) = recv_marked s"
  "expected_seq (generate_next_arrival s) = expected_seq s" "recv_window (generate_next_arrival s) = recv_window s"
  "recv_marked (generate_next_arrival s) = recv_marked s"
  "expected_seq (tolayer5 m s) = expected_seq s" "recv_window (tolayer5 m s) = recv_window s"
  "recv_marked (tolayer5 m s) = recv_marked s"
  by (simp_all add: tolayer3_def starttime_r_def stoptime_r_def generate_next_arrival_def tolayer5_def
      insertevent_def Let_def)

lemma counted_sr [simp]:
  "expected_seq (tolayer3_counted e p s) = expected_seq s" "recv_window (tolayer3_counted e p s) = recv_window s"
  "recv_marked (tolayer3_counted e p s) = recv_marked s"
  by (simp_all add: tolayer3_counted_def Let_def)

lemma counted_facts:
  "channel_ok N n x (tolayer3_counted e p s) = channel_ok N n x (tolayer3 e p s)"
  "under_way y (tolayer3_counted e p s) = under_way y (tolayer3 e p s)"
  "timely (tolayer3_counted e p s) = timely (tolayer3 e p s)"
  "steady s (tolayer3_counted e p s)"
proof -
  show "timely (tolayer3_counted e p s) = timely (tolayer3 e p s)"
    by (simp add: timely_def counted_net tolayer3_evlist)
  show "steady s (tolayer3_counted e p s)"
    using steady_net(3) by (rule steady_fields) (simp_all add: counted_net)
qed (simp_all add: channel_ok_def under_way_def counted_net)

text \<open>The parts of the invariant look at these variables only.\<close>

lemma receiver_fields:
  assumes "WINDOWSIZE t = WINDOWSIZE s" "recv_marked t = recv_marked s" "recv_window t = recv_window s"
    "expected_seq t = expected_seq s"
  shows "slot_of j t = slot_of j s" "kept t j = kept s j" "has t j = has s j"
proof -
  show "slot_of j t = slot_of j s" using assms by (simp add: slot_of_def)
  then show "kept t j = kept s j" using assms by (simp add: kept_def split: option.split)
  then show "has t j = has s j" using assms by (simp add: has_def)
qed

lemma core_fields:
  assumes "core N s" "evlist t = evlist s" "time t = time s" "lambda t = lambda s" "layer5 t = layer5 s"
    "nsimmax t = nsimmax s" "nextseqnum t = nextseqnum s" "base t = base s" "winbuf t = winbuf s"
    "winfront t = winfront s" "winrear t = winrear s" "pktnum t = pktnum s" "WINDOWSIZE t = WINDOWSIZE s"
    "expected_seq t = expected_seq s" "recv_window t = recv_window s" "recv_marked t = recv_marked s"
  shows "core N t"
proof -
  have "slot t j = slot s j" "numbers t = numbers s" "under_way x t = under_way x s" for j x
    using assms by (simp_all add: slot_def numbers_def under_way_def)
  moreover have "timely t = timely s" using assms by (simp add: timely_def)
  moreover note receiver_fields[of t s]
  ultimately show ?thesis
    using assms
    by (simp add: core_def sender_ok_def channel_ok_def marks_ok_def delivered_ok_def order_ok_def acks_ok_def)
qed

section \<open>Sending\<close>

lemma numbers_range:
  assumes "channel_ok N n x s" "a \<in> set (numbers s)" "n \<le> 30000"
  shows "0 \<le> a \<and> a < n"
proof -
  obtain p where p: "p \<in> set (under_way B s)" "\<not> CheckCorrupted p" "a = seqnum p"
    using assms(2) by (auto simp: numbers_def)
  then obtain e where "e \<in> set (evlist s)" "packet_to B e = Some p"
    by (auto simp: under_way_def map_filter_def)
  then have "evtype e = FromLayer3 p" "eventity e = B" "event_ok N n x e"
    using assms(1) by (auto simp: packet_to_def channel_ok_def split: evtype.splits if_splits)
  then obtain j where "0 \<le> j" "j < n" "p = data_pkt N j \<or> p = corrupt (data_pkt N j)"
    by (auto simp: event_ok_def)
  then show ?thesis using p assms(3) corrupted_noticed(1)[of j N] by auto
qed

text \<open>A data packet within a window of everything before it.\<close>

lemma send_data:
  assumes "timely s" "channel_ok N n x s" "0 \<le> j" "j < n" "n \<le> 30000" "order_ok s"
    and "\<And>a. a \<in> set (numbers s) \<Longrightarrow> a < j + int (WINDOWSIZE s)"
    and "\<And>i. i < 8 \<Longrightarrow> recv_marked s ! i \<Longrightarrow> seqnum (recv_window s ! i) < j + int (WINDOWSIZE s)"
  defines "t \<equiv> tolayer3_counted A (data_pkt N j) s"
  shows "timely t \<and> channel_ok N n x t \<and> order_ok t \<and> under_way A t = under_way A s \<and> steady s t"
proof -
  have "CheckCorrupted (corrupt (data_pkt N j))" using assms(3-5) by (intro corrupted_noticed) simp_all
  then have "numbers t = numbers s \<or> numbers t = numbers s @ [j]"
    using under_way_tolayer3[OF assms(1), of B A "data_pkt N j"]
    by (auto simp: t_def numbers_def counted_facts sent_as_def Let_def split: if_splits)
  then have "order_ok t" using assms(6-8) by (auto simp: order_ok_def t_def sorted_wrt_append)
  moreover have "under_way A t = under_way A s"
    using under_way_tolayer3[OF assms(1), of A A] by (simp add: t_def counted_facts split: option.splits)
  moreover have "channel_ok N n x t" using channel_data[OF assms(2-4)] by (simp add: t_def counted_facts)
  ultimately show ?thesis using assms(1) by (auto simp: t_def counted_facts)
qed

lemma send_ack_net:
  assumes "timely s" "channel_ok N n x s" "0 \<le> k" "k < x" "x \<le> 30000"
    and "\<And>p. p \<in> set (under_way A s) \<Longrightarrow> \<not> CheckCorrupted p \<Longrightarrow> P (acknum p)" "P k"
  shows "timely (send_ack k s) \<and> channel_ok N n x (send_ack k s) \<and> under_way B (send_ack k s) = under_way B s \<and>
    steady s (send_ack k s) \<and> (\<forall>p \<in> set (under_way A (send_ack k s)). \<not> CheckCorrupted p \<longrightarrow> P (acknum p))"
proof -
  have t: "send_ack k s = tolayer3_counted B (ack_pkt k) s" by (simp add: send_ack_def ack_pkt_def)
  have "CheckCorrupted (corrupt (ack_pkt k))" using assms(3-5) by (intro corrupted_noticed) simp_all
  then have "\<forall>p \<in> set (under_way A (send_ack k s)). \<not> CheckCorrupted p \<longrightarrow> P (acknum p)"
    using under_way_tolayer3[OF assms(1), of A B "ack_pkt k"] assms(6,7)
    by (auto simp: t counted_facts sent_as_def Let_def split: if_splits)
  moreover have "under_way B (send_ack k s) = under_way B s"
    using under_way_tolayer3[OF assms(1), of B B] by (simp add: t counted_facts split: option.splits)
  moreover have "channel_ok N n x (send_ack k s)"
    using channel_ack[OF assms(2), of k] assms(3,4) by (simp add: t counted_facts)
  ultimately show ?thesis using assms(1) by (auto simp: t counted_facts)
qed

text \<open>Slots of different numbers of the window differ.\<close>

lemma mod_inject:
  fixes a b w :: int
  assumes "a mod w = b mod w" "a < b + w" "b < a + w"
  shows "a = b"
proof -
  have "w dvd a - b" using assms(1) by (simp add: mod_eq_dvd_iff)
  moreover have "\<bar>a - b\<bar> < w" using assms(2,3) by linarith
  ultimately show ?thesis using zdvd_not_zless[of "\<bar>a - b\<bar>" w] by force
qed

lemma nat_mod_inject:
  assumes "nat a mod w = nat b mod w" "0 \<le> a" "0 \<le> b" "a < b + int w" "b < a + int w"
  shows "a = b"
proof -
  have "a mod int w = int (nat a mod w)" "b mod int w = int (nat b mod w)" using assms(2,3) by (simp_all add: zmod_int)
  with assms show ?thesis by (intro mod_inject[of a "int w" b]) simp_all
qed

lemma marks_mono:
  assumes "marks_ok N s" "nextseqnum s \<le> nextseqnum t" "WINDOWSIZE t = WINDOWSIZE s" "recv_marked t = recv_marked s"
    "recv_window t = recv_window s" "expected_seq t = expected_seq s"
  shows "marks_ok N t"
proof -
  have "\<exists>j. 0 \<le> j \<and> j < nextseqnum t \<and> slot_of j t = Some i \<and> recv_window t ! i = data_pkt N j"
    if i: "i < 8" "recv_marked t ! i" for i
  proof -
    have "recv_marked s ! i" using i assms(4) by simp
    then obtain j where "0 \<le> j" "j < nextseqnum s" "slot_of j s = Some i" "recv_window s ! i = data_pkt N j"
      using assms(1) i(1) by (auto simp: marks_ok_def)
    then show ?thesis
      using assms(2,5) receiver_fields(1)[OF assms(3-6), of j] by (intro exI[of _ j]) simp
  qed
  then show ?thesis using assms(1,4,5) by (simp add: marks_ok_def)
qed

lemma marked_range:
  "marks_ok N s \<Longrightarrow> i < 8 \<Longrightarrow> recv_marked s ! i \<Longrightarrow> 0 \<le> seqnum (recv_window s ! i) \<and> seqnum (recv_window s ! i) < nextseqnum s"
  by (auto simp: marks_ok_def)

lemma transmit_ok:
  assumes "core N s" "nextseqnum s < base s + int (WINDOWSIZE s)" "m = nth_message N (nextseqnum s)"
    and "nextseqnum s < 30000"
  defines "t \<equiv> transmit m s"
  shows "core N t \<and> nextseqnum t = nextseqnum s + 1 \<and> base t = base s \<and> WINDOWSIZE t = WINDOWSIZE s \<and>
    buffer_ok N n t = buffer_ok N n s \<and> msg_num t = msg_num s \<and> steady s t"
proof -
  let ?n = "nextseqnum s" and ?w = "WINDOWSIZE s"
  let ?p = "data_pkt N ?n"
  have ok: "timely s" "sender_ok N s" "channel_ok N ?n ?n s" "marks_ok N s" "delivered_ok N s"
    "\<not> kept s (expected_seq s)" "order_ok s" "acks_ok s" "nsimmax s = N" using assms(1) by (simp_all add: core_def)
  have n: "0 \<le> ?n" "0 < ?w" using ok(2) by (simp_all add: sender_ok_def)
  have p: "ComputeChecksum \<lparr>seqnum = ?n, acknum = NOTUSED, checksum = 0, payload = m\<rparr> = ?p"
    using assms(3) by (simp add: data_pkt_def)
  define u where "u = tolayer3_counted A ?p s"
  have c: "channel_ok N (?n + 1) (?n + 1) s" using channel_ok_mono[OF ok(3)] by simp
  have "timely u \<and> channel_ok N (?n + 1) (?n + 1) u \<and> order_ok u \<and> under_way A u = under_way A s \<and> steady s u"
    unfolding u_def
  proof (rule send_data[OF ok(1) c n(1) _ _ ok(7)])
    show "a < ?n + int ?w" if "a \<in> set (numbers s)" for a
      using numbers_range[OF ok(3) that] assms(4) n(2) by simp
    show "seqnum (recv_window s ! i) < ?n + int ?w" if "i < 8" "recv_marked s ! i" for i
      using marked_range[OF ok(4) that] n(2) by simp
  qed (use assms(4) in simp_all)
  then have u: "timely u" "channel_ok N (?n + 1) (?n + 1) u" "order_ok u" "under_way A u = under_way A s" "steady s u"
    by simp_all
  define v where "v = u\<lparr>packet_sent := packet_sent u + 1, winbuf := (winbuf u)[winrear u := ?p\<lparr>acknum := 0\<rparr>],
    winrear := (winrear u + 1) mod WINDOWSIZE u, pktnum := pktnum u + 1\<rparr>"
  have t: "t = (starttime_r ?n A RTT v)\<lparr>nextseqnum := ?n + 1\<rparr>"
    by (simp add: t_def transmit_def p u_def v_def Let_def)
  have p0: "?p\<lparr>acknum := 0\<rparr> = ?p" by (simp add: data_pkt_def NOTUSED_def ComputeChecksum_def)
  have f: "nextseqnum t = ?n + 1" "base t = base s" "WINDOWSIZE t = ?w" "winfront t = winfront s"
    "winbuf t = (winbuf s)[winrear s := ?p]" "winrear t = (winrear s + 1) mod ?w" "pktnum t = pktnum s + 1"
    "expected_seq t = expected_seq s" "recv_window t = recv_window s" "recv_marked t = recv_marked s"
    "layer5 t = layer5 s" "msg_num t = msg_num s" "buffer t = buffer s" "buffront t = buffront s" "bufrear t = bufrear s"
    by (simp_all add: t v_def u_def p0 counted_net)
  have "timely v" using u(1) by (rule timely_fields) (simp_all add: v_def)
  then have "timely (starttime_r ?n A RTT v)" by (rule timely_starttime_r)
  then have "timely t" unfolding t by (rule timely_fields) simp_all
  moreover have "channel_ok N (?n + 1) (?n + 1) t"
  proof -
    have "channel_ok N (?n + 1) (?n + 1) v" using u(2) by (simp add: v_def channel_ok_def)
    then have "channel_ok N (?n + 1) (?n + 1) (starttime_r ?n A RTT v)" by simp
    then show ?thesis by (simp add: t channel_ok_def)
  qed
  moreover have w: "under_way x t = under_way x u" for x
  proof -
    have "under_way x t = under_way x (starttime_r ?n A RTT v)" unfolding t by (rule under_way_fields) simp
    also have "\<dots> = under_way x v" by simp
    also have "\<dots> = under_way x u" by (rule under_way_fields) (simp add: v_def)
    finally show ?thesis .
  qed
  moreover have "order_ok t" using u(3) w[of B] by (simp add: order_ok_def numbers_def f(3,9,10) u_def)
  moreover have h: "has t j = has s j" "kept t j = kept s j" "slot_of j t = slot_of j s" for j
    using receiver_fields[of t s] f by simp_all
  moreover have sl: "slot t j = (if j = ?n then ?p else slot s j)" if "base s \<le> j" "j < ?n + 1" for j
  proof (cases "j = ?n")
    case True
    then show ?thesis using ok(2) n(2) by (simp add: slot_def f sender_ok_def)
  next
    case False
    then have "nat j mod ?w \<noteq> nat ?n mod ?w"
      using nat_mod_inject[of j ?w ?n] that n assms(2) ok(2) by (auto simp: sender_ok_def)
    then show ?thesis using ok(2) False by (simp add: slot_def f sender_ok_def)
  qed
  then have "sender_ok N t"
    using ok(2) assms(2) n by (simp add: sender_ok_def f nat_add_distrib mod_Suc_eq)
  moreover have "acknum ?p = 0" by (simp add: data_pkt_def NOTUSED_def)
  then have "has s j" if "base s \<le> j" "j < ?n + 1" "acknum (slot t j) = 1" for j
    using that sl[OF that(1,2)] ok(8) by (auto simp: acks_ok_def split: if_splits)
  then have "acks_ok t" using ok(8) unfolding acks_ok_def h w u(4) f by blast
  moreover have "marks_ok N t" using ok(4) by (rule marks_mono) (simp_all add: f)
  moreover have "delivered_ok N t" using ok(5) by (simp add: delivered_ok_def f)
  moreover have st: "steady s t"
  proof -
    have "steady s v" using u(5) by (rule steady_fields) (simp_all add: v_def)
    then have "steady s (starttime_r ?n A RTT v)" using steady_net(1) by (rule steady_trans)
    then show ?thesis by (rule steady_fields) (simp_all add: t)
  qed
  moreover have "nsimmax t = N" using st ok(9) by (simp add: steady_def)
  ultimately show ?thesis using ok(6) f h by (simp add: core_def buffer_ok_def)
qed

section \<open>Timers\<close>

lemma search_Some:
  "search is n s = Some idx \<Longrightarrow>
     \<exists>i \<in> set is. idx = (winfront s + i) mod WINDOWSIZE s \<and> seqnum (winbuf s ! idx) = n \<and> acknum (winbuf s ! idx) = 0"
  by (induction "is") (auto simp: Let_def split: if_splits)

text \<open>What is found is the slot of the number, which is in the window and not acknowledged.\<close>

lemma search_window:
  assumes "sender_ok N s" "search [0..<nat (pktnum s)] n s = Some idx"
  shows "base s \<le> n \<and> n < nextseqnum s \<and> idx = nat n mod WINDOWSIZE s \<and> winbuf s ! idx = data_pkt N n"
proof -
  obtain i where i: "i < nat (pktnum s)" "idx = (winfront s + i) mod WINDOWSIZE s" "seqnum (winbuf s ! idx) = n"
    "acknum (winbuf s ! idx) = 0"
    using search_Some[OF assms(2)] by auto
  define j where "j = base s + int i"
  have b: "0 \<le> base s" "winfront s = nat (base s) mod WINDOWSIZE s" "pktnum s = nextseqnum s - base s"
    using assms(1) by (simp_all add: sender_ok_def)
  have j: "base s \<le> j" "j < nextseqnum s" using i(1) b by (simp_all add: j_def)
  have "idx = nat j mod WINDOWSIZE s" unfolding i(2) b(2) j_def using b(1) by (simp add: nat_add_distrib mod_add_left_eq)
  moreover have "slot s j = data_pkt N j \<or> slot s j = (data_pkt N j)\<lparr>acknum := 1\<rparr>"
    using assms(1) j by (simp add: sender_ok_def)
  ultimately show ?thesis using i(3,4) j by (auto simp: slot_def)
qed

lemma timer_core:
  fixes k :: int
  assumes "core N s" "nextseqnum s \<le> 30000"
  defines "t \<equiv> A_packet_time_rinterrupt k s"
  shows "core N t \<and> nextseqnum t = nextseqnum s \<and> base t = base s \<and> WINDOWSIZE t = WINDOWSIZE s \<and>
    buffer_ok N n t = buffer_ok N n s \<and> msg_num t = msg_num s \<and> steady s t"
proof -
  let ?s = "s\<lparr>packet_time_out := packet_time_out s + 1\<rparr>"
  have s: "core N ?s" using assms(1) by (rule core_fields) simp_all
  have st: "steady s ?s" using steady_refl by (rule steady_fields) simp_all
  show ?thesis
  proof (cases "search [0..<nat (pktnum ?s)] k ?s")
    case None
    then have "t = ?s" by (simp add: t_def A_packet_time_rinterrupt_def Let_def)
    with s st show ?thesis by (simp add: buffer_ok_def)
  next
    case (Some idx)
    have ok: "timely ?s" "sender_ok N ?s" "channel_ok N (nextseqnum s) (nextseqnum s) ?s" "marks_ok N ?s"
      "order_ok ?s" "nsimmax ?s = N"
      using s by (simp_all add: core_def)
    have k: "base s \<le> k" "k < nextseqnum s" "winbuf s ! idx = data_pkt N k"
      using search_window[OF ok(2) Some] by auto
    have w: "0 \<le> base s" "nextseqnum s \<le> base s + int (WINDOWSIZE s)" using ok(2) by (simp_all add: sender_ok_def)
    define u where "u = tolayer3_counted A (data_pkt N k) ?s"
    have "timely u \<and> channel_ok N (nextseqnum s) (nextseqnum s) u \<and> order_ok u \<and> under_way A u = under_way A ?s \<and>
        steady ?s u"
      unfolding u_def
    proof (rule send_data[OF ok(1,3) _ k(2) assms(2) ok(5)])
      show "0 \<le> k" using k(1) w(1) by simp
      show "a < k + int (WINDOWSIZE ?s)" if "a \<in> set (numbers ?s)" for a
        using numbers_range[OF ok(3) that assms(2)] k(1) w(2) by simp
      show "seqnum (recv_window ?s ! i) < k + int (WINDOWSIZE ?s)" if "i < 8" "recv_marked ?s ! i" for i
        using marked_range[OF ok(4) that] k(1) w(2) by simp
    qed
    then have u: "timely u" "channel_ok N (nextseqnum s) (nextseqnum s) u" "order_ok u" "under_way A u = under_way A ?s"
      "steady ?s u" by simp_all
    define v where "v = u\<lparr>packet_sent := packet_sent u + 1, packet_resent := packet_resent u + 1\<rparr>"
    have t: "t = starttime_r k A RTT v"
      using Some k(3) by (simp add: t_def A_packet_time_rinterrupt_def Let_def u_def v_def)
    have f: "nextseqnum t = nextseqnum s" "base t = base s" "WINDOWSIZE t = WINDOWSIZE s" "winfront t = winfront s"
      "winbuf t = winbuf s" "winrear t = winrear s" "pktnum t = pktnum s"
      "expected_seq t = expected_seq s" "recv_window t = recv_window s" "recv_marked t = recv_marked s"
      "layer5 t = layer5 s" "msg_num t = msg_num s" "buffer t = buffer s" "buffront t = buffront s" "bufrear t = bufrear s"
      by (simp_all add: t v_def u_def counted_net)
    have "timely v" using u(1) by (rule timely_fields) (simp_all add: v_def)
    then have tt: "timely t" unfolding t by (rule timely_starttime_r)
    have "channel_ok N (nextseqnum s) (nextseqnum s) v" using u(2) by (simp add: v_def channel_ok_def)
    then have ct: "channel_ok N (nextseqnum s) (nextseqnum s) t" by (simp add: t)
    have w: "under_way x t = under_way x u" for x
      unfolding t under_way_timers by (rule under_way_fields) (simp add: v_def)
    have ot: "order_ok t" using u(3) w[of B] by (simp add: order_ok_def numbers_def f u_def)
    have h: "has t j = has s j" "kept t j = kept s j" "slot_of j t = slot_of j s" "slot t j = slot s j" for j
      using receiver_fields[of t s] f by (simp_all add: slot_def)
    have wa: "under_way A t = under_way A s" using w u(4) by (simp add: under_way_def)
    have "steady ?s v" using u(5) by (rule steady_fields) (simp_all add: v_def)
    then have "steady ?s t" unfolding t using steady_net(1) by (rule steady_trans)
    with st have sst: "steady s t" by (rule steady_trans)
    show ?thesis
      using assms(1) tt ct ot sst
      by (simp add: core_def sender_ok_def marks_ok_def delivered_ok_def acks_ok_def buffer_ok_def f h wa steady_def)
  qed
qed

section \<open>Acknowledgements\<close>

lemma mark_core:
  fixes k :: int
  assumes "core N s" "base s \<le> k" "k < nextseqnum s" "has s k"
  defines "i \<equiv> nat k mod WINDOWSIZE s" and "u \<equiv> stoptime_r A k s"
  defines "t \<equiv> u\<lparr>winbuf := (winbuf u)[i := (winbuf u ! i)\<lparr>acknum := 1\<rparr>]\<rparr>"
  shows "core N t \<and> steady s t"
proof -
  have ok: "timely s" "sender_ok N s" "channel_ok N (nextseqnum s) (nextseqnum s) s" using assms(1) by (simp_all add: core_def)
  have f: "nextseqnum t = nextseqnum s" "base t = base s" "WINDOWSIZE t = WINDOWSIZE s" "winfront t = winfront s"
    "winrear t = winrear s" "pktnum t = pktnum s" "winbuf t = (winbuf s)[i := (winbuf s ! i)\<lparr>acknum := 1\<rparr>]"
    "expected_seq t = expected_seq s" "recv_window t = recv_window s" "recv_marked t = recv_marked s" "layer5 t = layer5 s"
    by (simp_all add: t_def u_def)
  have "timely u" unfolding u_def using ok(1) by (rule timely_stoptime_r)
  then have tt: "timely t" by (rule timely_fields) (simp_all add: t_def)
  have "channel_ok N (nextseqnum s) (nextseqnum s) u" unfolding u_def using ok(3) by (rule channel_stoptime)
  then have ct: "channel_ok N (nextseqnum s) (nextseqnum s) t" by (simp add: t_def channel_ok_def)
  have w: "under_way x t = under_way x s" for x
  proof -
    have "under_way x t = under_way x u" by (rule under_way_fields) (simp add: t_def)
    then show ?thesis by (simp add: u_def)
  qed
  have h: "has t j = has s j" "kept t j = kept s j" "slot_of j t = slot_of j s" for j
    using receiver_fields[of t s] f by simp_all
  have r: "0 < WINDOWSIZE s" "length (winbuf s) = WINDOWSIZE s" "0 \<le> base s" "nextseqnum s \<le> base s + int (WINDOWSIZE s)"
    using ok(2) by (simp_all add: sender_ok_def)
  have sl: "slot t j = (if j = k then (slot s k)\<lparr>acknum := 1\<rparr> else slot s j)" if "base s \<le> j" "j < nextseqnum s" for j
  proof (cases "j = k")
    case False
    then have "nat j mod WINDOWSIZE s \<noteq> i"
      using nat_mod_inject[of j "WINDOWSIZE s" k] that r assms(2,3) by (auto simp: i_def)
    with False show ?thesis by (simp add: slot_def f)
  next
    case True
    with r show ?thesis by (simp add: slot_def f i_def)
  qed
  have "slot s j = data_pkt N j \<or> slot s j = (data_pkt N j)\<lparr>acknum := 1\<rparr>" if "base s \<le> j" "j < nextseqnum s" for j
    using ok(2) that by (simp add: sender_ok_def)
  then have so: "slot t j = data_pkt N j \<or> slot t j = (data_pkt N j)\<lparr>acknum := 1\<rparr>" if "base s \<le> j" "j < nextseqnum s" for j
    unfolding sl[OF that] using that assms(2,3) by (metis pkt.update_convs(2) pkt.surjective)
  have "sender_ok N t" using ok(2) so by (simp add: sender_ok_def f)
  moreover have "has s j" if "base s \<le> j" "j < nextseqnum s" "acknum (slot t j) = 1" for j
    using that sl[OF that(1,2)] assms(1,4) by (auto simp: core_def acks_ok_def split: if_splits)
  then have "acks_ok t" using assms(1) unfolding core_def acks_ok_def h w f by blast
  moreover have "steady s t"
    using steady_net(2) by (rule steady_fields) (simp_all add: t_def u_def)
  moreover have "order_ok t" using assms(1) by (simp add: core_def order_ok_def numbers_def w f)
  ultimately show ?thesis
    using assms(1) tt ct by (simp add: core_def marks_ok_def delivered_ok_def f h steady_def)
qed

lemma slide_core:
  "core N s \<Longrightarrow> core N (slide s) \<and> nextseqnum (slide s) = nextseqnum s \<and> WINDOWSIZE (slide s) = WINDOWSIZE s \<and>
     buffer_ok N n (slide s) = buffer_ok N n s \<and> msg_num (slide s) = msg_num s \<and> steady s (slide s)"
proof (induction s rule: slide.induct)
  case (1 s)
  show ?case
  proof (cases "0 < pktnum s \<and> acknum (winbuf s ! winfront s) = 1 \<and> seqnum (winbuf s ! winfront s) = base s")
    case False
    then have "slide s = s" using slide.simps[of s] unfolding if_not_P[OF False] by blast
    with 1 show ?thesis by simp
  next
    case True
    define t where "t = s\<lparr>base := base s + 1, winfront := (winfront s + 1) mod WINDOWSIZE s, pktnum := pktnum s - 1,
      ack_adv_num := ack_adv_num s + 1\<rparr>"
    have so: "sender_ok N s" and ao: "acks_ok s" using "1.prems" by (simp_all add: core_def)
    have b: "0 \<le> base s" "base s < nextseqnum s" "winfront s = nat (base s) mod WINDOWSIZE s"
      using so True by (simp_all add: sender_ok_def)
    have v: "nextseqnum t = nextseqnum s" "base t = base s + 1" "WINDOWSIZE t = WINDOWSIZE s" "winrear t = winrear s"
      "winfront t = (winfront s + 1) mod WINDOWSIZE s" "winbuf t = winbuf s" "pktnum t = pktnum s - 1"
      "expected_seq t = expected_seq s" "recv_window t = recv_window s" "recv_marked t = recv_marked s"
      "layer5 t = layer5 s" "nsimmax t = nsimmax s" "evlist t = evlist s" "msg_num t = msg_num s"
      by (simp_all add: t_def)
    have f: "slot t j = slot s j" "numbers t = numbers s" "under_way x t = under_way x s" "timely t = timely s" for j x
      by (simp_all add: t_def slot_def numbers_def under_way_def timely_def)
    have h: "has t j = has s j" "kept t j = kept s j" "slot_of j t = slot_of j s" for j
      using receiver_fields[of t s] v by simp_all
    have "acknum (slot s (base s)) = 1" using True b by (simp add: slot_def)
    then have "has s (base s)" using ao b by (simp add: acks_ok_def)
    then have "acks_ok t" using ao by (auto simp: acks_ok_def f h v zless_add1_eq)
    moreover have "(winfront s + 1) mod WINDOWSIZE s = nat (base s + 1) mod WINDOWSIZE s"
      using b by (simp add: nat_add_distrib mod_Suc_eq)
    then have "sender_ok N t" using so b(2) by (simp add: sender_ok_def f v)
    ultimately have "core N t"
      using "1.prems" by (simp add: core_def f h v channel_ok_def marks_ok_def delivered_ok_def order_ok_def)
    moreover have "slide s = slide t" unfolding t_def using True by (subst slide.simps) simp
    moreover have "steady s t" by (simp add: steady_def arrivals_def t_def)
    moreover have "buffer_ok N n t = buffer_ok N n s" by (simp add: buffer_ok_def t_def)
    ultimately show ?thesis using "1.IH"[OF True] v unfolding t_def[symmetric] by (auto intro: steady_trans)
  qed
qed

lemma drain_sr_ok:
  assumes "core N s" "buffer_ok N (nextseqnum s) s" "msg_num s < MAXBUFSIZE" "nextseqnum s + int (msg_num s) \<le> 30000"
  shows "sr_ok N (drain s) \<and> nextseqnum (drain s) + int (msg_num (drain s)) = nextseqnum s + int (msg_num s) \<and>
    WINDOWSIZE (drain s) = WINDOWSIZE s \<and> steady s (drain s)"
  using assms
proof (induction s rule: drain.induct)
  case (1 s)
  show ?case
  proof (cases "0 < msg_num s \<and> nextseqnum s < base s + int (WINDOWSIZE s)")
    case False
    then have "drain s = s" using drain.simps[of s] unfolding if_not_P[OF False] by blast
    with 1 False show ?thesis by (auto simp: sr_ok_def)
  next
    case True
    let ?s = "s\<lparr>buffront := (buffront s + 1) mod MAXBUFSIZE, msg_num := msg_num s - 1\<rparr>"
    let ?m = "buffer s ! buffront s"
    have m: "?m = nth_message N (nextseqnum s)" and b: "buffer_ok N (nextseqnum s + 1) ?s"
      using buffer_pop[OF "1.prems"(2)] True by simp_all
    have c: "core N ?s" using "1.prems"(1) by (rule core_fields) simp_all
    have o: "nextseqnum ?s < base ?s + int (WINDOWSIZE ?s)" "?m = nth_message N (nextseqnum ?s)" "nextseqnum ?s < 30000"
      using True m "1.prems"(4) by simp_all
    note t = transmit_ok[OF c o, of "nextseqnum s + 1"]
    have "steady s ?s" by (simp add: steady_def arrivals_def)
    then have "steady s (transmit ?m ?s)" using t by (blast intro: steady_trans)
    moreover have "drain s = drain (transmit ?m ?s)" using True by (subst drain.simps) simp
    moreover note "1.IH"[OF True]
    ultimately show ?thesis using t b True "1.prems"(3,4) by (auto intro: steady_trans)
  qed
qed

lemma A_input_sr_ok:
  assumes "sr_ok N s" "nextseqnum s + int (msg_num s) \<le> 30000" "\<not> CheckCorrupted p \<Longrightarrow> has s (acknum p)"
  shows "sr_ok N (A_input p s) \<and>
    nextseqnum (A_input p s) + int (msg_num (A_input p s)) = nextseqnum s + int (msg_num s) \<and>
    WINDOWSIZE (A_input p s) = WINDOWSIZE s \<and> steady s (A_input p s)"
proof -
  let ?k = "acknum p"
  have ok: "core N s" "buffer_ok N (nextseqnum s) s" "msg_num s < MAXBUFSIZE" "sender_ok N s"
    using assms(1) by (simp_all add: sr_ok_def core_def)
  consider "CheckCorrupted p \<or> acknum p < base s \<or> nextseqnum s \<le> acknum p \<or> search [0..<nat (pktnum s)] ?k s = None"
    | (found) idx where "\<not> CheckCorrupted p" "search [0..<nat (pktnum s)] ?k s = Some idx"
      "\<not> (acknum p < base s \<or> nextseqnum s \<le> acknum p)"
    by fastforce
  then show ?thesis
  proof cases
    case 1
    then have "A_input p s = s" by (auto simp: A_input_def Let_def)
    with assms(1) show ?thesis by simp
  next
    case found
    have k: "base s \<le> ?k" "?k < nextseqnum s" and idx: "idx = nat ?k mod WINDOWSIZE s"
      using search_window[OF ok(4) found(2)] by auto
    define u where "u = (stoptime_r A ?k s)\<lparr>winbuf := (winbuf (stoptime_r A ?k s))[idx :=
      (winbuf (stoptime_r A ?k s) ! idx)\<lparr>acknum := 1\<rparr>]\<rparr>"
    have a: "A_input p s = drain (slide u)"
      unfolding A_input_def if_not_P[OF found(1)] Let_def if_not_P[OF found(3)] found(2) option.case u_def ..
    have u: "core N u" "steady s u"
      using mark_core[OF ok(1) k assms(3)[OF found(1)]] unfolding u_def idx by simp_all
    have f: "nextseqnum u = nextseqnum s" "msg_num u = msg_num s" "WINDOWSIZE u = WINDOWSIZE s"
      "buffer_ok N n u = buffer_ok N n s" for n
      by (simp_all add: u_def buffer_ok_def)
    note v = slide_core[OF u(1), of "nextseqnum s"]
    have "sr_ok N (drain (slide u)) \<and>
        nextseqnum (drain (slide u)) + int (msg_num (drain (slide u))) = nextseqnum (slide u) + int (msg_num (slide u)) \<and>
        WINDOWSIZE (drain (slide u)) = WINDOWSIZE (slide u) \<and> steady (slide u) (drain (slide u))"
      using v ok(2,3) assms(2) by (intro drain_sr_ok) (simp_all add: f)
    then show ?thesis
      unfolding a using v f u(2) by (auto intro: steady_trans)
  qed
qed

section \<open>The receiver\<close>

lemma slot_of_nonneg: "0 \<le> n \<Longrightarrow> slot_of n s = Some i \<Longrightarrow> int i = n mod int (WINDOWSIZE s)"
  by (auto simp: slot_of_def Let_def split: if_splits)

lemma slot_inject_mod:
  "0 \<le> a \<Longrightarrow> 0 \<le> b \<Longrightarrow> slot_of a s = Some i \<Longrightarrow> slot_of b s = Some i \<Longrightarrow>
     a mod int (WINDOWSIZE s) = b mod int (WINDOWSIZE s)"
  using slot_of_nonneg[of a s i] slot_of_nonneg[of b s i] by simp

text \<open>Delivering in order: what was held is still held.\<close>

definition same_sender :: "sr \<Rightarrow> sr \<Rightarrow> bool" where
  "same_sender s t \<longleftrightarrow>
     evlist t = evlist s \<and> time t = time s \<and> lambda t = lambda s \<and> nsim t = nsim s \<and> nsimmax t = nsimmax s \<and>
     nextseqnum t = nextseqnum s \<and> base t = base s \<and> winbuf t = winbuf s \<and> winfront t = winfront s \<and>
     winrear t = winrear s \<and> pktnum t = pktnum s \<and> WINDOWSIZE t = WINDOWSIZE s \<and> buffer t = buffer s \<and>
     buffront t = buffront s \<and> bufrear t = bufrear s \<and> msg_num t = msg_num s \<and> recv_window t = recv_window s"

lemma deliver_ok:
  assumes "marks_ok N s" "delivered_ok N s" "deliver s = Inr t"
  shows "same_sender s t \<and> marks_ok N t \<and> delivered_ok N t \<and> \<not> kept t (expected_seq t) \<and>
    expected_seq s \<le> expected_seq t \<and> (\<forall>j. has s j \<longrightarrow> has t j) \<and>
    (\<forall>i < 8. recv_marked t ! i \<longrightarrow> recv_marked s ! i)"
  using assms
proof (induction s rule: deliver.induct)
  case (1 s)
  obtain i where i: "slot_of (expected_seq s) s = Some i"
    using "1.prems"(3) by (subst (asm) deliver.simps) (auto split: option.splits)
  show ?case
  proof (cases "recv_marked s ! i \<and> seqnum (recv_window s ! i) = expected_seq s")
    case False
    then have "\<not> kept s (expected_seq s)" using i by (simp add: kept_def)
    moreover have "t = s" using "1.prems"(3) i False by (subst (asm) deliver.simps) auto
    ultimately have "t = s" "\<not> kept s (expected_seq s)" by simp_all
    with "1.prems" show ?thesis by (simp add: same_sender_def)
  next
    case True
    define u where "u = (tolayer5 (payload (recv_window s ! i)) s)\<lparr>recv_marked := (recv_marked s)[i := False],
      packet_receieve := packet_receieve s + 1, expected_seq := expected_seq s + 1\<rparr>"
    have u: "same_sender s u" "recv_marked u = (recv_marked s)[i := False]" "expected_seq u = expected_seq s + 1"
      "layer5 u = layer5 s @ [payload (recv_window s ! i)]" "recv_window u = recv_window s"
      by (simp_all add: u_def same_sender_def tolayer5_def)
    have len: "i < length (recv_marked s)" "length (recv_marked s) = 8" "length (recv_window s) = 8"
      using slot_of_less[OF i] "1.prems"(1) by (simp_all add: marks_ok_def)
    have so: "slot_of j u = slot_of j s" for j using u(1,2) by (simp add: slot_of_def same_sender_def)
    obtain j where "recv_window s ! i = data_pkt N j" "j < nextseqnum s"
      using "1.prems"(1) True len unfolding marks_ok_def by metis
    then have e: "payload (recv_window s ! i) = nth_message N (expected_seq s)" "expected_seq s < nextseqnum s"
      using True by simp_all
    have x: "0 \<le> expected_seq s" using "1.prems"(2) by (simp add: delivered_ok_def)
    then have "[0..<nat (expected_seq s + 1)] = [0..<nat (expected_seq s)] @ [nat (expected_seq s)]"
      by (simp add: nat_add_distrib)
    then have du: "delivered_ok N u"
      using "1.prems"(2) e u x by (simp add: delivered_ok_def same_sender_def)
    have mu: "marks_ok N u"
      using "1.prems"(1) u(1,2,5) len by (auto simp: marks_ok_def same_sender_def so nth_list_update split: if_splits)
    have hu: "has u j" if j: "has s j" for j
    proof (cases "j < expected_seq s + 1")
      case False
      then obtain k where k: "slot_of j s = Some k" "recv_marked s ! k" "seqnum (recv_window s ! k) = j"
        using j by (auto simp: has_def kept_def split: option.splits)
      then have "k \<noteq> i" using True False by auto
      with k show ?thesis using u(2,5) by (simp add: has_def kept_def so)
    qed (simp add: has_def u(3))
    have "deliver s = deliver u" unfolding u_def using i True by (subst deliver.simps) simp
    then have "deliver u = Inr t" using "1.prems"(3) by simp
    note ih = "1.IH"[OF i True, folded u_def, OF mu du this]
    have "recv_marked s ! k" if "k < 8" "recv_marked u ! k" for k
      using that u(2) len by (auto simp: nth_list_update split: if_splits)
    then show ?thesis using ih u(1,3) hu by (auto simp: same_sender_def)
  qed
qed

text \<open>The base of the window is not beyond what B expects.\<close>

lemma base_le_expected: "core N s \<Longrightarrow> base s \<le> expected_seq s"
proof (rule ccontr)
  assume c: "core N s" "\<not> base s \<le> expected_seq s"
  then have "has s (expected_seq s)" by (auto simp: core_def acks_ok_def delivered_ok_def)
  with c(1) show False by (simp add: has_def core_def)
qed

text \<open>A packet written into a slot takes the place of no packet that is still needed.\<close>

lemma store_has:
  assumes "marks_ok N s" "slot_of j s = Some i" "0 \<le> j" "j < expected_seq s + int (WINDOWSIZE s)" "0 \<le> expected_seq s"
    and "\<And>i. i < 8 \<Longrightarrow> recv_marked s ! i \<Longrightarrow> seqnum (recv_window s ! i) < j + int (WINDOWSIZE s)"
    and "has s k" and "seqnum p = j"
  defines "t \<equiv> s\<lparr>recv_window := (recv_window s)[i := p], recv_marked := (recv_marked s)[i := True]\<rparr>"
  shows "has t k"
proof (cases "k < expected_seq s")
  case True
  then show ?thesis by (simp add: has_def t_def)
next
  case False
  have so: "slot_of k t = slot_of k s" for k by (simp add: slot_of_def t_def)
  have len: "i < 8" "length (recv_marked s) = 8" "length (recv_window s) = 8"
    using slot_of_less[OF assms(2)] assms(1) by (simp_all add: marks_ok_def)
  obtain i' where i': "slot_of k s = Some i'" "recv_marked s ! i'" "seqnum (recv_window s ! i') = k"
    using assms(7) False by (auto simp: has_def kept_def split: option.splits)
  show ?thesis
  proof (cases "i' = i")
    case True
    have "k mod int (WINDOWSIZE s) = j mod int (WINDOWSIZE s)"
      using assms(2,3,5) i'(1) False True by (intro slot_inject_mod) simp_all
    moreover have "k < j + int (WINDOWSIZE s)" using assms(6)[of i'] i' len True by simp
    moreover have "j < k + int (WINDOWSIZE s)" using assms(4) False by simp
    ultimately have "k = j" by (rule mod_inject)
    then show ?thesis using assms(2,8) len by (simp add: has_def kept_def so) (simp add: t_def)
  next
    case False
    then show ?thesis using i' len by (simp add: has_def kept_def so) (simp add: t_def)
  qed
qed

lemma store_core:
  assumes "core N s" "slot_of j s = Some i" "0 \<le> j" "j < nextseqnum s" "nextseqnum s \<le> 30000"
    and "\<And>i. i < 8 \<Longrightarrow> recv_marked s ! i \<Longrightarrow> seqnum (recv_window s ! i) < j + int (WINDOWSIZE s)"
    and "\<And>n. n \<in> set (numbers s) \<Longrightarrow> j < n + int (WINDOWSIZE s)"
  defines "t \<equiv> send_ack j (s\<lparr>recv_window := (recv_window s)[i := data_pkt N j], recv_marked := (recv_marked s)[i := True]\<rparr>)"
  shows "timely t \<and> sender_ok N t \<and> channel_ok N (nextseqnum s) (nextseqnum s) t \<and> marks_ok N t \<and> delivered_ok N t \<and>
    order_ok t \<and> acks_ok t \<and> steady s t"
proof -
  let ?w = "int (WINDOWSIZE s)"
  have ok: "timely s" "sender_ok N s" "channel_ok N (nextseqnum s) (nextseqnum s) s" "marks_ok N s" "delivered_ok N s"
    "order_ok s" "acks_ok s" using assms(1) by (simp_all add: core_def)
  define u where "u = s\<lparr>recv_window := (recv_window s)[i := data_pkt N j], recv_marked := (recv_marked s)[i := True]\<rparr>"
  have len: "i < 8" "length (recv_marked s) = 8" "length (recv_window s) = 8"
    using slot_of_less[OF assms(2)] ok(4) by (simp_all add: marks_ok_def)
  have so: "slot_of k u = slot_of k s" for k by (simp add: slot_of_def u_def)
  have e: "0 \<le> expected_seq s" using ok(5) by (simp add: delivered_ok_def)
  have "j < expected_seq s + ?w"
    using assms(4) ok(2) base_le_expected[OF assms(1)] by (simp add: sender_ok_def)
  then have hu: "has u k" if "has s k" for k
    unfolding u_def using assms(3,6) that e by (intro store_has[OF ok(4) assms(2)]) simp_all
  have hj: "has u j" using assms(2) len by (simp add: has_def kept_def so) (simp add: u_def)
  have ut: "timely u" using ok(1) by (rule timely_fields) (simp_all add: u_def)
  have uc: "channel_ok N (nextseqnum s) (nextseqnum s) u" using ok(3) by (simp add: channel_ok_def u_def)
  have uw: "under_way x u = under_way x s" for x by (simp add: under_way_def u_def)
  have ua: "has u (acknum p)" if "p \<in> set (under_way A u)" "\<not> CheckCorrupted p" for p
    using that ok(7) hu by (simp add: acks_ok_def uw)
  have t: "t = send_ack j u" by (simp add: t_def u_def)
  have a: "timely t" "channel_ok N (nextseqnum s) (nextseqnum s) t" "under_way B t = under_way B s" "steady u t"
    "\<forall>p \<in> set (under_way A t). \<not> CheckCorrupted p \<longrightarrow> has u (acknum p)"
    using send_ack_net[where P = "has u", OF ut uc assms(3,4,5) ua hj] by (simp_all add: t uw)
  have f: "nextseqnum t = nextseqnum s" "base t = base s" "WINDOWSIZE t = WINDOWSIZE s" "winfront t = winfront s"
    "winrear t = winrear s" "pktnum t = pktnum s" "winbuf t = winbuf s" "layer5 t = layer5 s"
    "expected_seq t = expected_seq s" "recv_window t = (recv_window s)[i := data_pkt N j]"
    "recv_marked t = (recv_marked s)[i := True]"
    by (simp_all add: t u_def send_ack_def counted_net)
  have fu: "WINDOWSIZE t = WINDOWSIZE u" "recv_marked t = recv_marked u" "recv_window t = recv_window u"
    "expected_seq t = expected_seq u" by (simp_all add: f) (simp_all add: u_def)
  have h: "has t k = has u k" "slot_of k t = slot_of k s" for k
    by (simp_all only: receiver_fields[OF fu] so)
  have sl: "slot t k = slot s k" for k by (simp add: slot_def f)
  have "marks_ok N t"
    using ok(4) assms(2-4) len by (auto simp: marks_ok_def h f nth_list_update)
  moreover have "order_ok t"
    using ok(6) assms(7) len by (auto simp: order_ok_def numbers_def a(3) f nth_list_update)
  moreover have "acks_ok t" using ok(7) a(5) hu by (simp add: acks_ok_def h f sl)
  moreover have "sender_ok N t" using ok(2) by (simp add: sender_ok_def f sl)
  moreover have "delivered_ok N t" using ok(5) by (simp add: delivered_ok_def f)
  moreover have "steady s u" by (simp add: steady_def arrivals_def u_def)
  ultimately show ?thesis using a(1,2,4) by (blast intro: steady_trans)
qed

end
