(* ===== verification/Repeat_Delivery.thy ===== *)
theory Repeat_Delivery
  imports Repeat_Safety
begin

text \<open>
  The steps of selective repeat keep the invariant of \<open>Repeat_Safety\<close>; what follows for every reachable
  state, and where the protocol fails: a window of more than eight packets leaves the receiver's arrays,
  and an acknowledgement lost twice is never repeated.
\<close>

section \<open>Steps\<close>

lemma same_sender_core:
  assumes "same_sender s t" "timely s" "sender_ok N s" "channel_ok N (nextseqnum s) (nextseqnum s) s"
    "order_ok s" "acks_ok s" "\<And>j. has s j \<Longrightarrow> has t j" "\<And>i. i < 8 \<Longrightarrow> recv_marked t ! i \<Longrightarrow> recv_marked s ! i"
    "marks_ok N t" "delivered_ok N t" "\<not> kept t (expected_seq t)" "nsimmax s = N"
  shows "core N t \<and> buffer_ok N n t = buffer_ok N n s \<and> steady s t"
proof -
  note f = assms(1)[unfolded same_sender_def]
  have e: "slot t j = slot s j" "numbers t = numbers s" "under_way x t = under_way x s" "timely t = timely s" for j x
    using f by (simp_all add: slot_def numbers_def under_way_def timely_def)
  have "acks_ok t" using assms(6,7) f by (simp add: acks_ok_def e)
  moreover have "order_ok t" using assms(5,8) f by (simp add: order_ok_def e)
  ultimately show ?thesis
    using assms(2-4,9-12) f
    by (simp add: core_def sender_ok_def channel_ok_def buffer_ok_def steady_def arrivals_def e)
qed

lemma B_input_sr_ok:
  assumes "sr_ok N s" "0 \<le> j" "j < nextseqnum s" "nextseqnum s \<le> 30000" "p = data_pkt N j \<or> p = corrupt (data_pkt N j)"
    and "\<And>n. \<not> CheckCorrupted p \<Longrightarrow> n \<in> set (numbers s) \<Longrightarrow> j < n + int (WINDOWSIZE s)"
    and "\<And>i. \<not> CheckCorrupted p \<Longrightarrow> i < 8 \<Longrightarrow> recv_marked s ! i \<Longrightarrow> seqnum (recv_window s ! i) < j + int (WINDOWSIZE s)"
    and "B_input p s = Inr t"
  shows "sr_ok N t \<and> nextseqnum t = nextseqnum s \<and> msg_num t = msg_num s \<and> WINDOWSIZE t = WINDOWSIZE s \<and> steady s t"
proof (cases "CheckCorrupted p")
  case True
  then have "t = s" using assms(8) by (simp add: B_input_def)
  with assms(1) show ?thesis by simp
next
  case False
  then have p: "p = data_pkt N j" using assms(2-5) corrupted_noticed(1)[of j N] by auto
  let ?w = "int (WINDOWSIZE s)"
  have c: "core N s" using assms(1) by (simp add: sr_ok_def)
  then have ok: "timely s" "sender_ok N s" "channel_ok N (nextseqnum s) (nextseqnum s) s" "marks_ok N s" "delivered_ok N s"
    "order_ok s" "acks_ok s" "nsimmax s = N" "\<not> kept s (expected_seq s)" by (simp_all add: core_def)
  have j: "j < expected_seq s + ?w" using assms(3) ok(2) base_le_expected[OF c] by (simp add: sender_ok_def)
  show ?thesis
  proof (cases "expected_seq s - ?w \<le> j")
    case outside: False
    then have t: "t = send_ack j s" using assms(8) False j by (simp add: B_input_def p Let_def)
    have "0 < ?w" using ok(2) by (simp add: sender_ok_def)
    then have "has s j" using outside by (simp add: has_def)
    then have a: "timely t" "channel_ok N (nextseqnum s) (nextseqnum s) t" "under_way B t = under_way B s" "steady s t"
      "\<forall>p \<in> set (under_way A t). \<not> CheckCorrupted p \<longrightarrow> has s (acknum p)"
      using send_ack_net[where P = "has s", OF ok(1,3) assms(2,3,4)] ok(7) by (simp_all add: t acks_ok_def)
    have f: "nextseqnum t = nextseqnum s" "base t = base s" "WINDOWSIZE t = WINDOWSIZE s" "winfront t = winfront s"
      "winrear t = winrear s" "pktnum t = pktnum s" "winbuf t = winbuf s" "layer5 t = layer5 s"
      "expected_seq t = expected_seq s" "recv_window t = recv_window s" "recv_marked t = recv_marked s"
      "msg_num t = msg_num s" "buffer t = buffer s" "buffront t = buffront s" "bufrear t = bufrear s"
      by (simp_all add: t send_ack_def counted_net)
    have h: "has t k = has s k" "kept t k = kept s k" "slot_of k t = slot_of k s" "slot t k = slot s k" for k
      using receiver_fields[OF f(3,11,10,9)] by (simp_all add: slot_def f)
    show ?thesis
      using assms(1) a
      by (simp add: sr_ok_def core_def sender_ok_def marks_ok_def delivered_ok_def order_ok_def acks_ok_def
          numbers_def buffer_ok_def f h steady_def)
  next
    case inside: True
    define u where "u = (\<lambda>i. if \<not> recv_marked s ! i \<or> seqnum (recv_window s ! i) \<noteq> j
      then send_ack j (s\<lparr>recv_window := (recv_window s)[i := data_pkt N j], recv_marked := (recv_marked s)[i := True]\<rparr>)
      else s)"
    obtain i where i: "slot_of j s = Some i" "deliver (u i) = Inr t"
      using assms(8) False inside j unfolding u_def
      by (cases "j < expected_seq s"; cases "slot_of j s") (simp_all add: B_input_def p Let_def)
    have "timely (u i) \<and> sender_ok N (u i) \<and> channel_ok N (nextseqnum s) (nextseqnum s) (u i) \<and> marks_ok N (u i) \<and>
        delivered_ok N (u i) \<and> order_ok (u i) \<and> acks_ok (u i) \<and> steady s (u i)"
      using store_core[OF c i(1) assms(2-4)] assms(6,7)[OF False] ok by (simp add: u_def)
    then have b: "timely (u i)" "sender_ok N (u i)" "channel_ok N (nextseqnum s) (nextseqnum s) (u i)" "marks_ok N (u i)"
      "delivered_ok N (u i)" "order_ok (u i)" "acks_ok (u i)" "steady s (u i)" by simp_all
    have f: "nextseqnum (u i) = nextseqnum s" "msg_num (u i) = msg_num s" "WINDOWSIZE (u i) = WINDOWSIZE s"
      "base (u i) = base s" "buffer_ok N n (u i) = buffer_ok N n s" "nsimmax (u i) = N" for n
      using ok(8) by (simp_all add: u_def send_ack_def buffer_ok_def counted_net)
    note d = deliver_ok[OF b(4,5) i(2)]
    have "core N t \<and> buffer_ok N (nextseqnum s) t = buffer_ok N (nextseqnum s) (u i) \<and> steady (u i) t"
      using b d f by (intro same_sender_core) simp_all
    then show ?thesis
      using assms(1) d b(8) f by (auto simp: sr_ok_def same_sender_def intro: steady_trans)
  qed
qed

text \<open>An arrival.\<close>

lemma arrival_core:
  assumes "core N s"
  shows "core N (generate_next_arrival s)"
proof -
  let ?t = "generate_next_arrival s"
  have c: "timely s" "channel_ok N (nextseqnum s) (nextseqnum s) s" using assms by (simp_all add: core_def)
  have "timely ?t" using c(1) by (rule timely_arrival)
  moreover have "channel_ok N (nextseqnum s) (nextseqnum s) ?t" using c(2) by (rule channel_arrival)
  moreover have "has ?t j = has s j" "kept ?t j = kept s j" "slot_of j ?t = slot_of j s" "slot ?t j = slot s j" for j
    using receiver_fields[of ?t s] by (simp_all add: slot_def)
  moreover have "numbers ?t = numbers s" by (simp add: numbers_def)
  ultimately show ?thesis
    using assms
    by (simp add: core_def sender_ok_def marks_ok_def delivered_ok_def order_ok_def acks_ok_def)
qed

lemma arrival_sr_ok:
  assumes "sr_ok N s" "arrivals s = 0" "nsim s = nextseqnum s + int (msg_num s) + 1" "nsim s \<le> max N 0" "N \<le> 30000"
    and "A_output (letters (nsim (generate_next_arrival s))) (generate_next_arrival s) = Inr t"
  shows "sr_ok N t \<and> arrivals_ok t \<and> WINDOWSIZE t = WINDOWSIZE s"
proof -
  let ?given = "nextseqnum s + int (msg_num s)"
  define u where "u = generate_next_arrival s"
  define m where "m = letters (nsim u)"
  have n: "0 \<le> ?given" "nsimmax s = N" using assms(1) by (auto simp: sr_ok_def core_def sender_ok_def)
  have u: "nextseqnum u = nextseqnum s" "base u = base s" "msg_num u = msg_num s" "WINDOWSIZE u = WINDOWSIZE s"
    "buffer_ok N n u = buffer_ok N n s" for n
    by (simp_all add: u_def buffer_ok_def)
  have c: "core N u" using assms(1) unfolding u_def by (simp add: sr_ok_def arrival_core)
  have m: "m = nth_message N ?given" unfolding m_def u_def using assms(3,4) n by (intro arrival_message) simp_all
  have o: "A_output m u = Inr t" using assms(6) by (simp add: m_def u_def)
  have given: "arrivals_ok t" if "steady u t" "nextseqnum t + int (msg_num t) = ?given + 1"
    using arrival_counted[OF _ n(1) assms(4) n(2) assms(2)] assms(3) that unfolding u_def by blast
  show ?thesis
  proof (cases "nextseqnum u < base u + int (WINDOWSIZE u)")
    case True
    then have z: "msg_num s = 0" using assms(1) by (auto simp: sr_ok_def u)
    have t: "t = transmit m u" using o True by (simp add: A_output_def)
    have m': "m = nth_message N (nextseqnum u)" using m z by (simp add: u)
    have "nextseqnum u < 30000" using assms(3-5) n z by (auto simp: u)
    note r = transmit_ok[OF c True m' this, folded t]
    have "buffer_ok N (nextseqnum s + 1) s" using assms(1) z by (simp add: sr_ok_def buffer_ok_def)
    then have "buffer_ok N (nextseqnum s + 1) t" using r[of "nextseqnum s + 1"] by (simp add: u)
    then have "sr_ok N t" using r[of 0] assms(1) z by (simp add: sr_ok_def u)
    moreover have "arrivals_ok t" using r[of 0] z by (intro given) (simp_all add: u)
    ultimately show ?thesis using r[of 0] by (simp add: u)
  next
    case False
    then have l: "msg_num u < MAXBUFSIZE - 1" and t: "t = u\<lparr>buffer := (buffer u)[bufrear u := m],
        bufrear := (bufrear u + 1) mod MAXBUFSIZE, msg_num := msg_num u + 1\<rparr>"
      using o by (auto simp: A_output_def split: if_splits)
    have b: "buffer_ok N (nextseqnum u) t"
      unfolding t using assms(1) m l by (intro buffer_push) (simp_all add: u sr_ok_def)
    have "core N t" using c by (rule core_fields) (simp_all add: t)
    then have "sr_ok N t" using b l False by (simp add: sr_ok_def) (simp add: t)
    moreover have "steady u t" by (simp add: t steady_def arrivals_def)
    then have "arrivals_ok t" by (rule given) (simp add: t u)
    ultimately show ?thesis by (simp add: t u)
  qed
qed

text \<open>The next event is taken off the list.\<close>

lemma popped:
  fixes s :: sr
  assumes "evlist s = e # rest"
  defines "u \<equiv> s\<lparr>evlist := rest, time := evtime e\<rparr>"
  shows "nextseqnum u = nextseqnum s" "base u = base s" "WINDOWSIZE u = WINDOWSIZE s" "msg_num u = msg_num s"
    "recv_window u = recv_window s" "recv_marked u = recv_marked s" "expected_seq u = expected_seq s" "nsim u = nsim s"
    "nsimmax u = nsimmax s" "slot u j = slot s j" "buffer_ok N n u = buffer_ok N n s"
    "has u j = has s j" "kept u j = kept s j" "slot_of j u = slot_of j s"
    "under_way x s = (case packet_to x e of None \<Rightarrow> [] | Some p \<Rightarrow> [p]) @ under_way x u"
    "numbers s = (case packet_to B e of None \<Rightarrow> [] | Some p \<Rightarrow> if CheckCorrupted p then [] else [seqnum p]) @ numbers u"
proof -
  have w: "under_way x s = (case packet_to x e of None \<Rightarrow> [] | Some p \<Rightarrow> [p]) @ under_way x u" for x
    unfolding u_def using assms(1) by (rule under_way_next)
  then show "under_way x s = (case packet_to x e of None \<Rightarrow> [] | Some p \<Rightarrow> [p]) @ under_way x u" .
  show "numbers s = (case packet_to B e of None \<Rightarrow> [] | Some p \<Rightarrow> if CheckCorrupted p then [] else [seqnum p]) @ numbers u"
    by (simp add: numbers_def w[of B] split: option.split)
qed (simp_all add: u_def slot_def buffer_ok_def receiver_fields[of "s\<lparr>evlist := rest, time := evtime e\<rparr>" s])

lemma popped_core:
  assumes "core N s" "evlist s = e # rest"
  shows "core N (s\<lparr>evlist := rest, time := evtime e\<rparr>)"
proof -
  define u where "u = s\<lparr>evlist := rest, time := evtime e\<rparr>"
  note f = popped[OF assms(2), folded u_def]
  have ok: "timely s" "channel_ok N (nextseqnum s) (nextseqnum s) s" "order_ok s" "acks_ok s"
    using assms(1) by (simp_all add: core_def)
  have "timely u" unfolding u_def using timely_next[OF ok(1) assms(2)] by simp
  moreover have "channel_ok N (nextseqnum s) (nextseqnum s) u" using ok(2) assms(2) by (simp add: channel_ok_def u_def)
  moreover have "order_ok u" using ok(3) unfolding order_ok_def f(16) f(1-14) by (simp add: sorted_wrt_append)
  moreover have "acks_ok u" using ok(4) unfolding acks_ok_def f(15)[of A] f(1-14) by simp
  ultimately show ?thesis
    using assms(1) unfolding u_def[symmetric]
    by (simp add: core_def sender_ok_def marks_ok_def delivered_ok_def f(1-14)) (simp add: u_def)
qed

lemma sr_step_ok:
  assumes "sr_ok N s \<and> arrivals_ok s" "sr_step s = Inr t" "N \<le> 30000"
  shows "(sr_ok N t \<and> arrivals_ok t) \<and> WINDOWSIZE t = WINDOWSIZE s"
proof -
  obtain e rest where l: "evlist s = e # rest" and t: "handle e (s\<lparr>evlist := rest, time := evtime e\<rparr>) = Inr t"
    using assms(2) by (auto simp: sr_step_def next_event_def split: list.splits)
  define u where "u = s\<lparr>evlist := rest, time := evtime e\<rparr>"
  have c: "core N s" using assms(1) by (simp add: sr_ok_def)
  then have ok: "channel_ok N (nextseqnum s) (nextseqnum s) s" "order_ok s" "acks_ok s" "nsimmax s = N"
    by (simp_all add: core_def)
  have e: "event_ok N (nextseqnum s) (nextseqnum s) e" using ok(1) l by (simp add: channel_ok_def)
  note f = popped(1-11)[OF l, folded u_def] and h = popped(12-14)[OF l, folded u_def]
    and w = popped(15)[OF l, folded u_def] and nu = popped(16)[OF l, folded u_def]
  have "core N u" unfolding u_def using c l by (rule popped_core)
  then have g: "sr_ok N u" using assms(1) by (simp add: sr_ok_def f)
  have given: "nextseqnum u + int (msg_num u) \<le> 30000" "nextseqnum u \<le> 30000"
    using assms(1,3) ok(4) by (auto simp: arrivals_ok_def Let_def f)
  have a: "arrivals_ok u" if "evtype e \<noteq> FromLayer5"
    using assms(1) l that by (simp add: arrivals_ok_def arrivals_def u_def)
  show ?thesis
  proof (cases "evtype e")
    case (TimerInterrupt k)
    have c: "core N u" using g by (simp add: sr_ok_def)
    show ?thesis
    proof (cases "eventity e = A")
      case True
      then have t: "t = A_packet_time_rinterrupt k u" using t TimerInterrupt by (simp add: handle_def u_def)
      note r = timer_core[OF c given(2), of k, folded t]
      have "sr_ok N t" using r[of "nextseqnum u"] g by (simp add: sr_ok_def)
      then show ?thesis using r[of 0] a TimerInterrupt arrivals_steady[of u t] by (simp add: f)
    next
      case False
      then have "t = u" using t TimerInterrupt by (simp add: handle_def u_def)
      then show ?thesis using g a TimerInterrupt by (simp add: f)
    qed
  next
    case FromLayer5
    then have "eventity e = A" using e by (simp add: event_ok_def)
    moreover have "arrivals s = 1" "arrivals u = 0" "nsim u = nextseqnum u + int (msg_num u) + 1" "nsim u \<le> max N 0"
      using assms(1) l ok(4) FromLayer5 by (auto simp: arrivals_ok_def Let_def arrivals_def f) (auto simp: u_def)
    ultimately show ?thesis
      using arrival_sr_ok[OF g _ _ _ assms(3)] t FromLayer5 f(3) by (simp add: handle_def Let_def u_def[symmetric])
  next
    case (FromLayer3 p)
    show ?thesis
    proof (cases "eventity e = A")
      case True
      then have t: "t = A_input p u" using t FromLayer3 by (simp add: handle_def u_def)
      have "has u (acknum p)" if "\<not> CheckCorrupted p"
        using ok(3) that FromLayer3 True w[of A] by (auto simp: acks_ok_def packet_to_def h)
      then show ?thesis
        using A_input_sr_ok[OF g given(1), of p] a FromLayer3 arrivals_steady[of u t] by (simp add: t f)
    next
      case False
      then have B: "eventity e = B" by (cases "eventity e") simp_all
      then have t: "B_input p u = Inr t" using t FromLayer3 by (simp add: handle_def u_def)
      obtain j where j: "0 \<le> j" "j < nextseqnum u" "p = data_pkt N j \<or> p = corrupt (data_pkt N j)"
        using e FromLayer3 B by (auto simp: event_ok_def f)
      have ns: "numbers s = j # numbers u" if "\<not> CheckCorrupted p"
      proof -
        have "p = data_pkt N j" using that j given corrupted_noticed(1)[of j N] by auto
        then show ?thesis using nu FromLayer3 B by (simp add: packet_to_def)
      qed
      have "sr_ok N t \<and> nextseqnum t = nextseqnum u \<and> msg_num t = msg_num u \<and> WINDOWSIZE t = WINDOWSIZE u \<and> steady u t"
      proof (rule B_input_sr_ok[OF g j(1,2) given(2) j(3) _ _ t])
        show "j < n + int (WINDOWSIZE u)" if "\<not> CheckCorrupted p" "n \<in> set (numbers u)" for n
          using ok(2) that ns by (simp add: order_ok_def f)
        show "seqnum (recv_window u ! i) < j + int (WINDOWSIZE u)" if "\<not> CheckCorrupted p" "i < 8" "recv_marked u ! i" for i
          using ok(2) that ns by (simp add: order_ok_def f)
      qed
      then show ?thesis using a FromLayer3 arrivals_steady[of u t] by (simp add: f)
    qed
  qed
qed

section \<open>Every reachable state\<close>

lemma sr_start_simps [simp]:
  "nextseqnum (start N i c w r) = 0" "base (start N i c w r) = 0" "winbuf (start N i c w r) = r"
  "winfront (start N i c w r) = 0" "winrear (start N i c w r) = 0" "pktnum (start N i c w r) = 0"
  "buffront (start N i c w r) = 0" "bufrear (start N i c w r) = 0" "msg_num (start N i c w r) = 0"
  "WINDOWSIZE (start N i c w r) = w" "expected_seq (start N i c w r) = 0" "layer5 (start N i c w r) = []"
  "recv_marked (start N i c w r) = replicate 8 False" "length (recv_window (start N i c w r)) = 8"
  "nsimmax (start N i c w r) = N" "buffer (start N i c w r) = replicate MAXBUFSIZE (zeros 20)"
  "nsim (start N i c w r) = (if N \<le> 0 then 0 else 1)" "cp (start N i c w r) = -1"
  "pattern (start N i c w r) = c" "time (start N i c w r) = 0" "lambda (start N i c w r) = i"
  "evlist (start N i c w r) =
     (if N \<le> 0 then [] else [\<lparr>evtime = fl24 (fl i), evtype = FromLayer5, eventity = A\<rparr>])"
  by (simp_all add: start_def A_init_def net.defs sender.defs sr.defs start_net_def generate_next_arrival_def
      insertevent_def)

lemma start_sr_ok:
  assumes "0 < w" "length r = w" "0 \<le> i"
  shows "sr_ok N (start N i c w r) \<and> arrivals_ok (start N i c w r)"
proof -
  let ?s = "start N i c w r"
  have "0 \<le> fl24 (fl i) \<and> clock (fl24 (fl i))" using message_later[of 0 i] assms(3) by simp
  then have "timely ?s" using assms(3) by (simp add: timely_def in_order_def)
  moreover have "under_way x ?s = []" for x by (simp add: under_way_def map_filter_simps)
  moreover have "\<not> kept ?s 0" by (simp add: kept_def split: option.split) (auto dest: slot_of_less)
  ultimately show ?thesis
    using assms(1,2)
    by (simp add: sr_ok_def core_def sender_ok_def buffer_ok_def channel_ok_def event_ok_def marks_ok_def delivered_ok_def
        order_ok_def acks_ok_def numbers_def arrivals_ok_def arrivals_def Let_def MAXBUFSIZE_def)
qed

text \<open>What the handlers leave alone: the deliveries but for B's, and the clock.\<close>

lemma net_time [simp]:
  "time (starttime_r n e d s) = time s" "time (stoptime_r e n s) = time s" "time (generate_next_arrival s) = time s"
  "time (tolayer5 m s) = time s"
  by (simp_all add: starttime_r_def stoptime_r_def generate_next_arrival_def insertevent_def tolayer5_def)

lemma keeps_handlers [simp]:
  "layer5 (transmit m s) = layer5 s" "layer5 (A_packet_time_rinterrupt k s) = layer5 s"
  "layer5 (send_ack k s) = layer5 s"
  "time (transmit m s) = time s" "time (A_packet_time_rinterrupt k s) = time s" "time (send_ack k s) = time s"
  by (simp_all add: transmit_def A_packet_time_rinterrupt_def send_ack_def counted_net Let_def split: option.split)

lemma keeps_slide [simp]: "layer5 (slide s) = layer5 s \<and> time (slide s) = time s"
proof (induction s rule: slide.induct)
  case (1 s)
  then show ?case using slide.simps[of s] by (simp split: if_splits)
qed

lemma keeps_drain [simp]: "layer5 (drain s) = layer5 s \<and> time (drain s) = time s"
proof (induction s rule: drain.induct)
  case (1 s)
  then show ?case using drain.simps[of s] by (simp split: if_splits)
qed

lemma keeps_A_input [simp]: "layer5 (A_input p s) = layer5 s" "time (A_input p s) = time s"
  by (simp_all add: A_input_def Let_def split: option.split)

lemma deliver_grows: "deliver s = Inr t \<Longrightarrow> length (layer5 s) \<le> length (layer5 t) \<and> time t = time s"
proof (induction s rule: deliver.induct)
  case (1 s)
  obtain i where i: "slot_of (expected_seq s) s = Some i"
    using "1.prems" by (subst (asm) deliver.simps) (auto split: option.splits)
  show ?case
  proof (cases "recv_marked s ! i \<and> seqnum (recv_window s ! i) = expected_seq s")
    case True
    with "1.IH"[OF i True] "1.prems" i show ?thesis
      using deliver.simps[of s] by (simp add: tolayer5_def)
  next
    case False
    with "1.prems" i show ?thesis by (subst (asm) deliver.simps) auto
  qed
qed

lemma sr_step_grows:
  assumes "sr_step s = Inr t"
  shows "length (layer5 s) \<le> length (layer5 t) \<and> (\<exists>e rest. evlist s = e # rest \<and> time t = evtime e)"
proof -
  obtain e rest where e: "evlist s = e # rest" "handle e (s\<lparr>evlist := rest, time := evtime e\<rparr>) = Inr t"
    using assms by (auto simp: sr_step_def next_event_def split: list.splits)
  have "length (layer5 u) \<le> length (layer5 t) \<and> time t = time u" if "handle e u = Inr t" for u
    using that
    by (auto simp: handle_def A_output_def B_input_def Let_def
        split: evtype.splits if_splits option.splits dest!: deliver_grows)
  from this[OF e(2)] e(1) show ?thesis by simp
qed

text \<open>Selective repeat fulfils the contract of a transport protocol.\<close>

interpretation sr_run: protocol sr_step "\<lambda>s. (sr_ok N s \<and> arrivals_ok s) \<and> N \<le> 30000" layer5
    "\<lambda>i. nth_message N (int i)" for N
proof
  fix s t
  assume s: "(sr_ok N s \<and> arrivals_ok s) \<and> N \<le> 30000"
  show "layer5 s = map (\<lambda>i. nth_message N (int i)) [0..<length (layer5 s)]"
    using s by (simp add: sr_ok_def core_def delivered_ok_def)
  assume t: "sr_step s = Inr t"
  then show "(sr_ok N t \<and> arrivals_ok t) \<and> N \<le> 30000" using s sr_step_ok by blast
  show "length (layer5 s) \<le> length (layer5 t)" using sr_step_grows[OF t] by simp
qed

lemma sr_reach_ok:
  assumes "reach sr_step (start N i c w r) s" "0 < w" "length r = w" "N \<le> 30000" "0 \<le> i"
  shows "sr_ok N s \<and> arrivals_ok s \<and> WINDOWSIZE s = w"
proof -
  have st: "sr_ok N (start N i c w r) \<and> arrivals_ok (start N i c w r)" using assms by (intro start_sr_ok)
  have ok: "sr_ok N t \<and> arrivals_ok t" if "reach sr_step (start N i c w r) t" for t
    using sr_run.reach_ok[OF that, of N] st assms(4) by blast
  have "WINDOWSIZE s = w"
    using assms(1)
  proof (induction "start N i c w r" s rule: reach.induct)
    case (reach_next t u)
    then show ?case using sr_step_ok[OF ok[of t]] assms(4) by simp
  qed simp
  with ok assms(1) show ?thesis by simp
qed

text \<open>
  C19: over every channel, however it loses and corrupts packets, and in every state of a simulation of
  up to 30000 messages, the application at B has got the first messages of A, in order, each once and
  unaltered; A's base is never beyond the number B expects, so no packet is given up before it is
  delivered; the window is never exceeded, and what was delivered stays delivered.
\<close>

theorem repeat_in_order:
  assumes "reach sr_step (start N interval channel window ram) s"
    and "0 < window" "length ram = window" "N \<le> 30000" "0 \<le> interval" "reach sr_step s t"
  shows "layer5 s = map (\<lambda>i. nth_message N (int i)) [0..<nat (expected_seq s)] \<and>
    base s \<le> expected_seq s \<and> expected_seq s \<le> nextseqnum s \<and>
    nextseqnum s \<le> base s + int window \<and> length (layer5 s) \<le> nat N \<and>
    layer5 s = take (length (layer5 s)) (layer5 t)"
proof -
  have ok: "sr_ok N s" "arrivals_ok s" "WINDOWSIZE s = window" using sr_reach_ok[OF assms(1-5)] by simp_all
  then have c: "core N s" by (simp add: sr_ok_def)
  have "layer5 s = take (length (layer5 s)) (layer5 t)"
    using assms(4,6) ok by (intro sr_run.deliveries_stay[of s t N]) simp_all
  moreover have "layer5 s = map (\<lambda>i. nth_message N (int i)) [0..<nat (expected_seq s)]"
    "expected_seq s \<le> nextseqnum s" "nextseqnum s \<le> base s + int window" "nsimmax s = N"
    using c ok(3) by (simp_all add: core_def delivered_ok_def sender_ok_def)
  moreover from this have "length (layer5 s) = nat (expected_seq s)" by simp
  moreover have "nextseqnum s \<le> max N 0" using ok(2) calculation(5) by (auto simp: arrivals_ok_def Let_def)
  ultimately show ?thesis using base_le_expected[OF c] by linarith
qed

text \<open>
  An acknowledgement is true: when an intact ACK is under way to A, or A has marked a packet of its
  window as acknowledged, B has delivered that packet or keeps it in its window under its number.
\<close>

theorem repeat_acks_true:
  assumes "reach sr_step (start N interval channel window ram) s"
    and "0 < window" "length ram = window" "N \<le> 30000" "0 \<le> interval"
  shows "(\<forall>p \<in> set (under_way A s). \<not> CheckCorrupted p \<longrightarrow> has s (acknum p)) \<and>
    (\<forall>j. base s \<le> j \<longrightarrow> j < nextseqnum s \<longrightarrow> acknum (slot s j) = 1 \<longrightarrow> has s j)"
  using sr_reach_ok[OF assms] by (simp add: sr_ok_def core_def acks_ok_def)

text \<open>
  C21: in every state of a simulation of at most 30000 messages the channel is a queue, whatever the
  rounding of its times: a packet that A sends is the last to arrive of those under way to B, unless it is
  lost, and the clock never runs backwards.
\<close>

theorem channel_fifo:
  assumes "reach sr_step (start N interval channel window ram) s"
    and "0 < window" "length ram = window" "N \<le> 30000" "0 \<le> interval" "reach sr_step s t"
  shows "under_way B (tolayer3 A p s) = under_way B s @ (case sent_as p s of None \<Rightarrow> [] | Some q \<Rightarrow> [q]) \<and>
    time s \<le> time t"
proof -
  have timely: "timely u" if "reach sr_step (start N interval channel window ram) u" for u
    using sr_reach_ok[OF that assms(2-5)] by (simp add: sr_ok_def core_def)
  have "time s \<le> time t"
    using assms(6,1)
  proof (induction rule: reach.induct)
    case (reach_next s t u)
    then have "timely t" by (intro timely reach_trans[OF reach_next.hyps(1)])
    with reach_next sr_step_grows[of t u] show ?case by (fastforce dest: timely_next)
  qed simp
  then show ?thesis using under_way_tolayer3[OF timely[OF assms(1)], of B A p] by (simp split: option.split)
qed

end
