(* ===== verification/Repeat_Limits.thy ===== *)
theory Repeat_Limits
  imports Repeat_Delivery
begin

text \<open>
  Where selective repeat fails: a window of more than eight packets leaves the receiver's arrays, and an
  acknowledgement that is lost twice is never repeated, so that a simulation need not end.
\<close>

section \<open>The receiver's arrays\<close>

lemma keeps_expected [simp]:
  "expected_seq (transmit m s) = expected_seq s" "expected_seq (A_packet_time_rinterrupt k s) = expected_seq s"
  "expected_seq (send_ack k s) = expected_seq s"
  by (simp_all add: transmit_def A_packet_time_rinterrupt_def send_ack_def Let_def split: option.split)

lemma expected_slide [simp]: "expected_seq (slide s) = expected_seq s"
proof (induction s rule: slide.induct)
  case (1 s)
  then show ?case using slide.simps[of s] by (simp split: if_splits)
qed

lemma expected_drain [simp]: "expected_seq (drain s) = expected_seq s"
proof (induction s rule: drain.induct)
  case (1 s)
  then show ?case using drain.simps[of s] by (simp split: if_splits)
qed

lemma expected_A_input [simp]: "expected_seq (A_input p s) = expected_seq s"
  by (simp add: A_input_def Let_def split: option.split)

lemma deliver_bounded:
  "deliver s = Inr t \<Longrightarrow> 8 < WINDOWSIZE s \<Longrightarrow> length (recv_marked s) = 8 \<Longrightarrow> expected_seq s < 8 \<Longrightarrow> expected_seq t < 8"
proof (induction s rule: deliver.induct)
  case (1 s)
  obtain i where i: "slot_of (expected_seq s) s = Some i"
    using "1.prems"(1) by (subst (asm) deliver.simps) (auto split: option.splits)
  show ?case
  proof (cases "recv_marked s ! i \<and> seqnum (recv_window s ! i) = expected_seq s")
    case True
    let ?u = "(tolayer5 (payload (recv_window s ! i)) s)\<lparr>recv_marked := (recv_marked s)[i := False],
      packet_receieve := packet_receieve s + 1, expected_seq := expected_seq s + 1\<rparr>"
    have d: "deliver ?u = Inr t" using "1.prems"(1) i True deliver.simps[of s] by simp
    have "expected_seq s + 1 \<noteq> 8"
    proof
      assume "expected_seq s + 1 = 8"
      then have "slot_of (expected_seq ?u) ?u = None" using "1.prems"(2,3) by (simp add: slot_of_def Let_def)
      then show False using d deliver.simps[of ?u] by simp
    qed
    then show ?thesis using "1.IH"[OF i True d] "1.prems"(2-4) by simp
  next
    case False
    then have "t = s" using "1.prems"(1) i deliver.simps[of s] by auto
    with "1.prems"(4) show ?thesis by simp
  qed
qed

text \<open>
  C23: the receiver has room for eight packets whatever the window size. With a larger window at most
  seven messages are delivered in any simulation of up to 30000 messages: looking for number 8 would read
  past the arrays.
\<close>

theorem repeat_window_over_eight:
  assumes "reach sr_step (start N interval channel window ram) s"
    and "8 < window" "length ram = window" "N \<le> 30000" "0 \<le> interval"
  shows "expected_seq s < 8 \<and> length (layer5 s) \<le> 7"
proof -
  have w: "0 < window" using assms(2) by simp
  have ok: "marks_ok N u \<and> delivered_ok N u \<and> WINDOWSIZE u = window"
    if "reach sr_step (start N interval channel window ram) u" for u
    using sr_reach_ok[OF that w assms(3-5)] by (simp add: sr_ok_def core_def)
  have "expected_seq s < 8"
    using assms(1)
  proof (induction "start N interval channel window ram" s rule: reach.induct)
    case (reach_next t u)
    then have t: "length (recv_marked t) = 8" "WINDOWSIZE t = window" "expected_seq t < 8"
      using ok[of t] by (simp_all add: marks_ok_def)
    obtain e rest where e: "handle e (t\<lparr>evlist := rest, time := evtime e\<rparr>) = Inr u"
      using reach_next.hyps(3) by (auto simp: sr_step_def next_event_def split: list.splits)
    have "expected_seq u < 8"
      if "handle e v = Inr u" "length (recv_marked v) = 8" "WINDOWSIZE v = window" "expected_seq v < 8" for v
      using that assms(2)
      by (auto simp: handle_def A_output_def B_input_def Let_def send_ack_def
          split: evtype.splits if_splits option.splits dest!: deliver_bounded)
    then show ?case using e t by simp
  qed simp
  then show ?thesis using ok[OF assms(1)] by (simp add: delivered_ok_def nat_le_iff)
qed

section \<open>An acknowledgement lost twice\<close>

text \<open>A waits for the acknowledgement of packet 0, B holds a second copy of it in its slot.\<close>

definition stuck :: "nat \<Rightarrow> sr \<Rightarrow> bool" where
  "stuck w s \<longleftrightarrow>
     WINDOWSIZE s = w \<and> base s = 0 \<and> pktnum s = 1 \<and> winfront s = 0 \<and> winbuf s ! 0 = data_pkt 1 0 \<and>
     expected_seq s = 1 \<and> length (recv_marked s) = 8 \<and> recv_marked s ! 0 \<and> seqnum (recv_window s ! 0) = 0 \<and>
     \<not> kept s 1 \<and> layer5 s = [letters 1] \<and>
     (\<exists>e \<in> set (evlist s). evtype e = TimerInterrupt 0) \<and>
     (\<forall>e \<in> set (evlist s). evtype e = TimerInterrupt 0 \<and> eventity e = A \<or>
        (evtype e = FromLayer3 (data_pkt 1 0) \<or> evtype e = FromLayer3 (corrupt (data_pkt 1 0))) \<and> eventity e = B)"

lemma slot_of_small:
  "0 < WINDOWSIZE s \<Longrightarrow> WINDOWSIZE s \<le> 8 \<Longrightarrow> length (recv_marked s) = 8 \<Longrightarrow> 0 \<le> n \<Longrightarrow>
     slot_of n s = Some (nat (n mod int (WINDOWSIZE s)))"
proof -
  assume w: "0 < WINDOWSIZE s" "WINDOWSIZE s \<le> 8" "length (recv_marked s) = 8" "0 \<le> n"
  then have "n mod int (WINDOWSIZE s) < int (WINDOWSIZE s)" by simp
  then have "n mod int (WINDOWSIZE s) < 8" using w(2) by linarith
  with w show ?thesis by (simp add: slot_of_def Let_def)
qed

lemma deliver_stop: "slot_of (expected_seq s) s \<noteq> None \<Longrightarrow> \<not> kept s (expected_seq s) \<Longrightarrow> deliver s = Inr s"
  by (subst deliver.simps) (auto simp: kept_def split: option.splits)

lemma stuck_step:
  assumes "stuck w s" "0 < w" "w \<le> 8"
  shows "\<exists>t. sr_step s = Inr t \<and> stuck w t"
proof -
  obtain e rest where l: "evlist s = e # rest" using assms(1) by (cases "evlist s") (auto simp: stuck_def)
  define u where "u = s\<lparr>evlist := rest, time := evtime e\<rparr>"
  have step: "sr_step s = handle e u" using l by (simp add: sr_step_def next_event_def u_def)
  have k: "\<not> kept u 1" using receiver_fields(2)[of u s 1] assms(1) by (simp add: stuck_def u_def)
  have f: "WINDOWSIZE u = w" "base u = 0" "pktnum u = 1" "winfront u = 0" "winbuf u ! 0 = data_pkt 1 0"
    "expected_seq u = 1" "length (recv_marked u) = 8" "recv_marked u ! 0" "seqnum (recv_window u ! 0) = 0"
    "layer5 u = [letters 1]" "evlist u = rest"
    using assms(1) by (simp_all add: stuck_def u_def)
  have ev: "\<forall>e \<in> set (e # rest). evtype e = TimerInterrupt 0 \<and> eventity e = A \<or>
      (evtype e = FromLayer3 (data_pkt 1 0) \<or> evtype e = FromLayer3 (corrupt (data_pkt 1 0))) \<and> eventity e = B"
    using assms(1) l unfolding stuck_def by metis
  then consider "evtype e = TimerInterrupt 0" "eventity e = A"
    | p where "evtype e = FromLayer3 p" "eventity e = B" "p = data_pkt 1 0 \<or> p = corrupt (data_pkt 1 0)"
    by auto
  then show ?thesis
  proof cases
    case 1
    let ?v = "u\<lparr>packet_time_out := packet_time_out u + 1\<rparr>"
    let ?x = "tolayer3_counted A (data_pkt 1 0) ?v"
    let ?t = "starttime_r 0 A RTT (?x\<lparr>packet_sent := packet_sent ?x + 1, packet_resent := packet_resent ?x + 1\<rparr>)"
    have "search [0..<nat (pktnum ?v)] 0 ?v = Some 0"
      using f by (simp add: data_pkt_def NOTUSED_def)
    then have "sr_step s = Inr ?t"
      using 1 f by (simp add: step handle_def A_packet_time_rinterrupt_def Let_def)
    moreover have "stuck w ?t"
    proof -
      have "kept ?t 1 = kept u 1" by (rule receiver_fields) simp_all
      moreover have "evlist ?t = insert_event \<lparr>evtime = fl24 (time u + RTT), evtype = TimerInterrupt 0, eventity = A\<rparr>
          (evlist (tolayer3 A (data_pkt 1 0) ?v))"
        by (simp add: starttime_r_def insertevent_def counted_net)
      moreover have "evlist (tolayer3 A (data_pkt 1 0) ?v) = rest \<or>
        (\<exists>q. evlist (tolayer3 A (data_pkt 1 0) ?v) =
          insert_event \<lparr>evtime = arrival (time u), evtype = FromLayer3 q, eventity = B\<rparr> rest \<and>
          (q = data_pkt 1 0 \<or> q = corrupt (data_pkt 1 0)))"
      proof -
        have "sent_as (data_pkt 1 0) ?v \<in> {None, Some (data_pkt 1 0), Some (corrupt (data_pkt 1 0))}"
          by (simp add: sent_as_def Let_def)
        then show ?thesis using f by (auto simp: tolayer3_evlist)
      qed
      ultimately show ?thesis
        using f k ev by (auto simp: stuck_def counted_net)
    qed
    ultimately show ?thesis by blast
  next
    case 2
    have timer: "\<exists>e \<in> set rest. evtype e = TimerInterrupt 0"
      using assms(1) l 2(1) by (auto simp: stuck_def)
    have s0: "slot_of 0 u = Some 0" and s1: "slot_of 1 u \<noteq> None"
      using slot_of_small[of u] f assms(2,3) by simp_all
    have "deliver u = Inr u" using s1 k f by (intro deliver_stop) simp_all
    then have "B_input p u = Inr u"
      using 2(3) f s0 assms(2) corrupted_noticed(1)[of 0 1] by (auto simp: B_input_def Let_def)
    then have "sr_step s = Inr u" using 2 by (simp add: step handle_def)
    moreover have "stuck w u" using f k ev timer by (simp add: stuck_def)
    ultimately show ?thesis by blast
  qed
qed

text \<open>The run that gets there: packet 0, its ACK lost, packet 0 again, the second ACK lost.\<close>

lemma sr_run_times:
  "fl24 (fl 1) = 1" "fl24 (1 + RTT) = 16" "fl24 (16 + RTT) = 31" "arrival 1 = 15 / 2" "arrival 16 = 45 / 2"
  unfolding arrival_def by code_simp+

lemma counted_pattern [simp]:
  "pattern (tolayer3_counted e p s) = pattern s" "cp (tolayer3_counted e p s) = cp s + 1"
  by (simp_all add: tolayer3_counted_def Let_def) (simp_all add: tolayer3_def insertevent_def Let_def)

definition early :: "nat \<Rightarrow> sr \<Rightarrow> bool" where
  "early w s \<longleftrightarrow>
     pattern s = ''ox'' \<and> WINDOWSIZE s = w \<and> base s = 0 \<and> nextseqnum s = 1 \<and> pktnum s = 1 \<and> winfront s = 0 \<and>
     winbuf s ! 0 = data_pkt 1 0 \<and> length (recv_marked s) = 8 \<and> length (recv_window s) = 8 \<and>
     (\<forall>i < 8. recv_marked s ! i \<longrightarrow> i = 0)"

lemma step_event: "evlist s = e # rest \<Longrightarrow> sr_step s = handle e (s\<lparr>evlist := rest, time := evtime e\<rparr>)"
  by (simp add: sr_step_def next_event_def)

lemma first_step:
  assumes "0 < w" "length ram = w"
  shows "\<exists>s. sr_step (start 1 1 ''ox'' w ram) = Inr s \<and> early w s \<and> cp s = 0 \<and> expected_seq s = 0 \<and> layer5 s = [] \<and>
    \<not> recv_marked s ! 0 \<and>
    evlist s = [\<lparr>evtime = 15 / 2, evtype = FromLayer3 (data_pkt 1 0), eventity = B\<rparr>,
                \<lparr>evtime = 16, evtype = TimerInterrupt 0, eventity = A\<rparr>]"
proof -
  let ?s = "(start 1 1 ''ox'' w ram)\<lparr>evlist := [], time := 1\<rparr>"
  have d: "ComputeChecksum \<lparr>seqnum = 0, acknum = NOTUSED, checksum = 0, payload = letters 1\<rparr> = data_pkt 1 0"
    by (simp add: data_pkt_def nth_message_def)
  have d0: "(data_pkt 1 0)\<lparr>acknum := 0\<rparr> = data_pkt 1 0" by (simp add: data_pkt_def NOTUSED_def ComputeChecksum_def)
  have g: "generate_next_arrival ?s = ?s" by (simp add: generate_next_arrival_def)
  let ?u = "tolayer3_counted A (data_pkt 1 0) ?s"
  have "evlist ?u = [\<lparr>evtime = 15 / 2, evtype = FromLayer3 (data_pkt 1 0), eventity = B\<rparr>]" "cp ?u = 0"
    by (simp_all add: counted_net tolayer3_evlist sent_as_def fate_def sr_run_times)
  moreover have "sr_step (start 1 1 ''ox'' w ram) = Inr (transmit (letters 1) ?s)"
    using assms(1) g by (simp add: step_event sr_run_times handle_def A_output_def Let_def)
  ultimately show ?thesis
    using assms
    by (simp add: transmit_def d d0 Let_def early_def counted_net starttime_r_def insertevent_def sr_run_times nth_list_update)
qed

lemma first_delivery:
  assumes "0 < w" "w \<le> 8" "early w s" "cp s = 0" "expected_seq s = 0" "layer5 s = []" "\<not> recv_marked s ! 0"
    "evlist s = [\<lparr>evtime = 15 / 2, evtype = FromLayer3 (data_pkt 1 0), eventity = B\<rparr>,
                 \<lparr>evtime = 16, evtype = TimerInterrupt 0, eventity = A\<rparr>]"
  shows "\<exists>t. sr_step s = Inr t \<and> early w t \<and> cp t = 1 \<and> expected_seq t = 1 \<and> layer5 t = [letters 1] \<and>
    \<not> recv_marked t ! 0 \<and> evlist t = [\<lparr>evtime = 16, evtype = TimerInterrupt 0, eventity = A\<rparr>]"
proof -
  define u where "u = s\<lparr>evlist := [\<lparr>evtime = 16, evtype = TimerInterrupt 0, eventity = A\<rparr>], time := 15 / 2\<rparr>"
  let ?v = "u\<lparr>recv_window := (recv_window u)[0 := data_pkt 1 0], recv_marked := (recv_marked u)[0 := True]\<rparr>"
  define v where "v = send_ack 0 ?v"
  define t where "t = (tolayer5 (letters 1) v)\<lparr>recv_marked := (recv_marked v)[0 := False],
    packet_receieve := packet_receieve v + 1, expected_seq := 1\<rparr>"
  have u: "early w u" "cp u = 0" "expected_seq u = 0" "layer5 u = []" "\<not> recv_marked u ! 0"
    using assms(3-7) by (simp_all add: u_def early_def)
  have f: "fate (tolayer3 B p ?v) = CHR ''x''" "evlist (tolayer3 B p ?v) = evlist u" "cp (tolayer3 B p ?v) = 1" for p
    using u(1,2) by (simp_all add: tolayer3_def fate_def early_def Let_def)
  have v: "early w v" "cp v = 1" "expected_seq v = 0" "layer5 v = []" "evlist v = evlist u" "recv_marked v ! 0"
    "recv_window v ! 0 = data_pkt 1 0"
    using u f by (simp_all add: v_def send_ack_def tolayer3_counted_def early_def nth_list_update Let_def)
  have t: "early w t" "cp t = 1" "expected_seq t = 1" "layer5 t = [letters 1]" "evlist t = evlist u" "\<not> recv_marked t ! 0"
    using v by (simp_all add: t_def early_def tolayer5_def nth_list_update)
  have s: "slot_of n x = Some (nat (n mod int w))" if "early w x" "0 \<le> n" for x n
    using slot_of_small[of x n] that assms(1,2) by (simp add: early_def)
  have "nth_message 1 0 = letters 1" by (simp add: nth_message_def)
  then have "deliver v = deliver t"
    using v s[OF v(1), of 0] by (subst deliver.simps) (simp add: t_def)
  moreover have "\<not> kept t 1"
  proof -
    have "nat (1 mod int w) < 8" using assms(1,2) by (cases "w = 1") auto
    moreover have "\<forall>i < 8. recv_marked t ! i \<longrightarrow> i = 0" using t(1) unfolding early_def by blast
    ultimately have "recv_marked t ! nat (1 mod int w) \<longrightarrow> nat (1 mod int w) = 0" by blast
    then show ?thesis using t(6) s[OF t(1), of 1] by (auto simp: kept_def)
  qed
  then have "deliver t = Inr t" using s[OF t(1), of 1] t(3) by (intro deliver_stop) simp_all
  moreover have "B_input (data_pkt 1 0) u = deliver v"
    using u assms(1) s[OF u(1), of 0] by (simp add: B_input_def Let_def v_def early_def)
  moreover have "sr_step s = B_input (data_pkt 1 0) u"
    by (simp add: step_event[OF assms(8)] handle_def u_def)
  ultimately have "sr_step s = Inr t" by simp
  with t show ?thesis by (auto simp: u_def)
qed

lemma second_copy:
  assumes "0 < w" "w \<le> 8" "early w s" "cp s = 1" "expected_seq s = 1" "layer5 s = [letters 1]" "\<not> recv_marked s ! 0"
    "evlist s = [\<lparr>evtime = 16, evtype = TimerInterrupt 0, eventity = A\<rparr>]"
  shows "\<exists>t. sr_step s = Inr t \<and> early w t \<and> cp t = 2 \<and> expected_seq t = 1 \<and> layer5 t = [letters 1] \<and>
    \<not> recv_marked t ! 0 \<and>
    evlist t = [\<lparr>evtime = 45 / 2, evtype = FromLayer3 (data_pkt 1 0), eventity = B\<rparr>,
                \<lparr>evtime = 31, evtype = TimerInterrupt 0, eventity = A\<rparr>]"
proof -
  let ?u = "s\<lparr>evlist := [], time := 16, packet_time_out := packet_time_out s + 1\<rparr>"
  let ?v = "tolayer3_counted A (data_pkt 1 0) ?u"
  let ?t = "starttime_r 0 A RTT (?v\<lparr>packet_sent := packet_sent ?v + 1, packet_resent := packet_resent ?v + 1\<rparr>)"
  have e: "pattern s = ''ox''" "winfront s = 0" "pktnum s = 1" "winbuf s ! 0 = data_pkt 1 0" "WINDOWSIZE s = w"
    using assms(3) by (simp_all add: early_def)
  have "search [0..<nat (pktnum ?u)] 0 ?u = Some 0"
    using e by (simp add: data_pkt_def NOTUSED_def)
  then have "sr_step s = Inr ?t"
    using assms(8) e by (simp add: step_event handle_def A_packet_time_rinterrupt_def Let_def)
  moreover have "evlist ?v = [\<lparr>evtime = 45 / 2, evtype = FromLayer3 (data_pkt 1 0), eventity = B\<rparr>]"
    using e assms(4) by (simp add: counted_net tolayer3_evlist sent_as_def fate_def sr_run_times)
  then have "evlist ?t = [\<lparr>evtime = 45 / 2, evtype = FromLayer3 (data_pkt 1 0), eventity = B\<rparr>,
      \<lparr>evtime = 31, evtype = TimerInterrupt 0, eventity = A\<rparr>]"
    by (simp add: starttime_r_def insertevent_def counted_net sr_run_times)
  moreover have "early w ?t" "cp ?t = 2"
    using assms(3,4) by (simp_all add: early_def starttime_r_def insertevent_def)
  ultimately show ?thesis using assms(5-7) by (simp add: counted_net)
qed

lemma gets_stuck:
  assumes "0 < w" "w \<le> 8" "early w s" "cp s = 2" "expected_seq s = 1" "layer5 s = [letters 1]" "\<not> recv_marked s ! 0"
    "evlist s = [\<lparr>evtime = 45 / 2, evtype = FromLayer3 (data_pkt 1 0), eventity = B\<rparr>,
                 \<lparr>evtime = 31, evtype = TimerInterrupt 0, eventity = A\<rparr>]"
  shows "\<exists>t. sr_step s = Inr t \<and> stuck w t"
proof -
  define u where "u = s\<lparr>evlist := [\<lparr>evtime = 31, evtype = TimerInterrupt 0, eventity = A\<rparr>], time := 45 / 2\<rparr>"
  let ?v = "u\<lparr>recv_window := (recv_window u)[0 := data_pkt 1 0], recv_marked := (recv_marked u)[0 := True]\<rparr>"
  define t where "t = send_ack 0 ?v"
  have u: "early w u" "cp u = 2" "expected_seq u = 1" "layer5 u = [letters 1]" "\<not> recv_marked u ! 0"
    using assms(3-7) by (simp_all add: u_def early_def)
  have f: "fate (tolayer3 B p ?v) = CHR ''x''" "evlist (tolayer3 B p ?v) = evlist u" for p
    using u(1,2) by (simp_all add: tolayer3_def fate_def early_def Let_def)
  have t: "early w t" "expected_seq t = 1" "layer5 t = [letters 1]" "evlist t = evlist u" "recv_marked t ! 0"
    "recv_window t ! 0 = data_pkt 1 0"
    using u f by (simp_all add: t_def send_ack_def tolayer3_counted_def early_def nth_list_update Let_def)
  have s: "slot_of n x = Some (nat (n mod int w))" if "early w x" "0 \<le> n" for x n
    using slot_of_small[of x n] that assms(1,2) by (simp add: early_def)
  have k: "\<not> kept t 1"
  proof -
    have "nat (1 mod int w) < 8" using assms(1,2) by (cases "w = 1") auto
    moreover have "\<forall>i < 8. recv_marked t ! i \<longrightarrow> i = 0" using t(1) unfolding early_def by blast
    ultimately have "recv_marked t ! nat (1 mod int w) \<longrightarrow> nat (1 mod int w) = 0" by blast
    then show ?thesis using t(6) s[OF t(1), of 1] by (auto simp: kept_def)
  qed
  have "deliver t = Inr t" using k s[OF t(1), of 1] t(2) by (intro deliver_stop) simp_all
  moreover have "B_input (data_pkt 1 0) u = deliver t"
    using u assms(1) s[OF u(1), of 0] by (simp add: B_input_def Let_def t_def early_def)
  moreover have "sr_step s = B_input (data_pkt 1 0) u"
    by (simp add: step_event[OF assms(8)] handle_def u_def)
  ultimately have "sr_step s = Inr t" by simp
  moreover have "stuck w t" using t k by (simp add: stuck_def early_def u_def)
  ultimately show ?thesis by blast
qed

text \<open>
  C22: with the channel \<open>ox\<close>, which loses every second packet, a single message is delivered at once, but
  the simulation never ends: both acknowledgements are lost, B sends no third one for the copy it keeps
  in its slot, and A sends the packet again for ever.
\<close>

theorem repeat_never_ends:
  assumes "0 < window" "window \<le> 8" "length ram = window"
  shows "simulate sr_step (start 1 1 ''ox'' window ram) = None \<and>
    (\<exists>s. reach sr_step (start 1 1 ''ox'' window ram) s \<and> layer5 s = [letters 1] \<and>
      (\<forall>t. reach sr_step s t \<longrightarrow> base t = 0 \<and> layer5 t = [letters 1]))"
proof -
  let ?s = "start 1 1 ''ox'' window ram"
  obtain a where a: "sr_step ?s = Inr a" "early window a" "cp a = 0" "expected_seq a = 0" "layer5 a = []"
    "\<not> recv_marked a ! 0" "evlist a = [\<lparr>evtime = 15 / 2, evtype = FromLayer3 (data_pkt 1 0), eventity = B\<rparr>,
      \<lparr>evtime = 16, evtype = TimerInterrupt 0, eventity = A\<rparr>]"
    using first_step[OF assms(1,3)] by blast
  obtain b where b: "sr_step a = Inr b" "early window b" "cp b = 1" "expected_seq b = 1" "layer5 b = [letters 1]"
    "\<not> recv_marked b ! 0" "evlist b = [\<lparr>evtime = 16, evtype = TimerInterrupt 0, eventity = A\<rparr>]"
    using first_delivery[OF assms(1,2) a(2-7)] by blast
  obtain c where c: "sr_step b = Inr c" "early window c" "cp c = 2" "expected_seq c = 1" "layer5 c = [letters 1]"
    "\<not> recv_marked c ! 0" "evlist c = [\<lparr>evtime = 45 / 2, evtype = FromLayer3 (data_pkt 1 0), eventity = B\<rparr>,
      \<lparr>evtime = 31, evtype = TimerInterrupt 0, eventity = A\<rparr>]"
    using second_copy[OF assms(1,2) b(2-7)] by blast
  obtain d where d: "sr_step c = Inr d" "stuck window d"
    using gets_stuck[OF assms(1,2) c(2-7)] by blast
  have r: "reach sr_step ?s d"
    using a(1) b(1) c(1) d(1) by (intro steps_reach[of sr_step 4]) (simp add: eval_nat_numeral)
  have st: "stuck window t" if "reach sr_step d t" for t
    using that d(2)
  proof (induction rule: reach.induct)
    case (reach_next s t u)
    then show ?case using stuck_step[OF _ assms(1,2), of t] by auto
  qed
  have "simulate sr_step d = None"
  proof (rule ccontr)
    assume "simulate sr_step d \<noteq> None"
    then obtain r t where "simulate sr_step d = Some (r, t)" by auto
    from simulate_reach[OF this] show False using st stuck_step[OF _ assms(1,2), of t] by auto
  qed
  then have "simulate sr_step ?s = None" using simulate_reached[OF r] by simp
  moreover have "layer5 d = [letters 1]" using d(2) by (simp add: stuck_def)
  moreover have "base t = 0 \<and> layer5 t = [letters 1]" if "reach sr_step d t" for t
    using st[OF that] by (simp add: stuck_def)
  ultimately show ?thesis using r by blast
qed

theorem repeat_never_ends_witness: "simulate sr_step (start 1 1 ''ox'' 8 (replicate 8 (data_pkt 1 0))) = None"
  using repeat_never_ends[of 8 "replicate 8 (data_pkt 1 0)"] by simp

section \<open>The theorems on this run\<close>

lemma two_steps:
  "\<exists>a b. sr_step (start 1 1 ''ox'' 8 (replicate 8 (data_pkt 1 0))) = Inr a \<and> sr_step a = Inr b \<and>
     expected_seq a = 0 \<and> time a = 1 \<and> expected_seq b = 1 \<and> layer5 b = [letters 1] \<and> base b = 0 \<and> time b = 15 / 2"
proof -
  let ?s = "start 1 1 ''ox'' 8 (replicate 8 (data_pkt 1 0))"
  obtain a where a: "sr_step ?s = Inr a" "early 8 a" "cp a = 0" "expected_seq a = 0" "layer5 a = []"
    "\<not> recv_marked a ! 0" "evlist a = [\<lparr>evtime = 15 / 2, evtype = FromLayer3 (data_pkt 1 0), eventity = B\<rparr>,
      \<lparr>evtime = 16, evtype = TimerInterrupt 0, eventity = A\<rparr>]"
    using first_step[of 8 "replicate 8 (data_pkt 1 0)"] by auto
  obtain b where b: "sr_step a = Inr b" "early 8 b" "expected_seq b = 1" "layer5 b = [letters 1]"
    using first_delivery[OF _ _ a(2-7)] by auto
  have "time a = 1" using sr_step_grows[OF a(1)] by (simp add: sr_run_times)
  moreover have "time b = 15 / 2" using sr_step_grows[OF b(1)] a(7) by simp
  moreover have "base b = 0" using b(2) by (simp add: early_def)
  ultimately show ?thesis using a(1,4) b by blast
qed

lemma two_reached:
  "\<exists>a b. reach sr_step (start 1 1 ''ox'' 8 (replicate 8 (data_pkt 1 0))) a \<and>
     reach sr_step (start 1 1 ''ox'' 8 (replicate 8 (data_pkt 1 0))) b \<and> reach sr_step a b \<and>
     expected_seq b = 1 \<and> time a = 1 \<and> time b = 15 / 2"
  using two_steps by (meson reach_here reach_next)

theorem repeat_in_order_witness:
  "\<exists>s. reach sr_step (start 1 1 ''ox'' 8 (replicate 8 (data_pkt 1 0))) s \<and> expected_seq s = 1 \<and>
     layer5 s = [letters 1]"
proof -
  obtain s where s: "reach sr_step (start 1 1 ''ox'' 8 (replicate 8 (data_pkt 1 0))) s" "expected_seq s = 1"
    using two_reached by blast
  have "layer5 s = map (\<lambda>i. nth_message 1 (int i)) [0..<nat (expected_seq s)]"
    using repeat_in_order[OF s(1) _ _ _ _ reach_here] by simp
  with s show ?thesis by (auto simp: nth_message_def)
qed

theorem repeat_acks_true_witness:
  "\<exists>s. reach sr_step (start 1 1 ''ox'' 8 (replicate 8 (data_pkt 1 0))) s \<and> expected_seq s = 1 \<and>
     (\<forall>p \<in> set (under_way A s). \<not> CheckCorrupted p \<longrightarrow> has s (acknum p))"
proof -
  obtain s where s: "reach sr_step (start 1 1 ''ox'' 8 (replicate 8 (data_pkt 1 0))) s" "expected_seq s = 1"
    using two_reached by blast
  with repeat_acks_true[OF s(1)] show ?thesis by (intro exI[of _ s]) simp
qed

theorem channel_fifo_witness:
  "\<exists>s t. reach sr_step (start 1 1 ''ox'' 8 (replicate 8 (data_pkt 1 0))) s \<and> reach sr_step s t \<and>
     time s = 1 \<and> time t = 15 / 2 \<and> time s \<le> time t"
proof -
  obtain s t where s: "reach sr_step (start 1 1 ''ox'' 8 (replicate 8 (data_pkt 1 0))) s" "reach sr_step s t"
    "time s = 1" "time t = 15 / 2"
    using two_reached by blast
  from channel_fifo[OF s(1) _ _ _ _ s(2)] s show ?thesis by (intro exI[of _ s] exI[of _ t]) simp
qed

theorem repeat_window_over_eight_witness:
  "\<exists>s. reach sr_step (start 1 1 ''ox'' 9 (replicate 9 (data_pkt 1 0))) s \<and> nextseqnum s = 1 \<and>
     expected_seq s < 8 \<and> length (layer5 s) \<le> 7"
proof -
  obtain s where s: "sr_step (start 1 1 ''ox'' 9 (replicate 9 (data_pkt 1 0))) = Inr s" "early 9 s"
    using first_step[of 9 "replicate 9 (data_pkt 1 0)"] by auto
  have r: "reach sr_step (start 1 1 ''ox'' 9 (replicate 9 (data_pkt 1 0))) s"
    using reach_here s(1) by (rule reach_next)
  from repeat_window_over_eight[OF r] s(2) r show ?thesis by (intro exI[of _ s]) (simp add: early_def)
qed

end
