(* ===== verification/Repeat_Lossless.thy ===== *)
theory Repeat_Lossless
  imports Repeat_Limits
begin

text \<open>
  Selective repeat over a channel that delivers everything: the simulation ends, every message has been
  delivered, and no packet was ever sent twice. The argument needs the clock: every acknowledgement is
  back before the timer of its packet goes off, which rounding to \<open>float\<close> guarantees up to \<open>2 ^ 22\<close>.
\<close>

section \<open>The invariant\<close>

definition lossless :: "string \<Rightarrow> bool" where
  "lossless channel \<longleftrightarrow> channel \<noteq> [] \<and> CHR ''x'' \<notin> set channel \<and> CHR ''-'' \<notin> set channel"

text \<open>What keeps a timer from going off: its packet, or the acknowledgement, arrives in time.\<close>

definition due :: "int \<Rightarrow> int \<Rightarrow> rat \<Rightarrow> event \<Rightarrow> bool" where
  "due N k t q \<longleftrightarrow>
     evtype q = FromLayer3 (data_pkt N k) \<and> eventity q = B \<and> arrival (evtime q) < t \<or>
     evtype q = FromLayer3 (ack_pkt k) \<and> eventity q = A \<and> evtime q < t"

definition timers :: "int \<Rightarrow> event list \<Rightarrow> nat" where
  "timers k qs = length (filter (\<lambda>e. evtype e = TimerInterrupt k) qs)"

definition guarded :: "int \<Rightarrow> event list \<Rightarrow> bool" where
  "guarded N qs \<longleftrightarrow>
     (\<forall>k. timers k qs \<le> 1) \<and>
     (\<forall>e \<in> set qs. \<forall>k. evtype e = TimerInterrupt k \<longrightarrow> eventity e = A \<and> (\<exists>q \<in> set qs. due N k (evtime e) q))"

text \<open>Packet \<open>k\<close> is sent by \<open>limit\<close> at the latest; message \<open>n\<close> is handed over by \<open>n * (interval + 1)\<close>.\<close>

definition limit :: "rat \<Rightarrow> int \<Rightarrow> rat" where
  "limit interval k = of_int (k + 1) * (interval + 1) + 14 * of_int k"

definition punctual :: "int \<Rightarrow> rat \<Rightarrow> int \<Rightarrow> event \<Rightarrow> bool" where
  "punctual N interval n e \<longleftrightarrow>
     (evtype e = FromLayer5 \<longrightarrow> evtime e \<le> of_int n * (interval + 1)) \<and>
     (\<forall>k. evtype e = FromLayer3 (data_pkt N k) \<and> eventity e = B \<longrightarrow> evtime e \<le> limit interval k + 7) \<and>
     (\<forall>k. evtype e = FromLayer3 (ack_pkt k) \<and> eventity e = A \<longrightarrow> evtime e \<le> limit interval k + 14)"

definition clean :: "int \<Rightarrow> sr \<Rightarrow> bool" where
  "clean N s \<longleftrightarrow>
     lossless (pattern s) \<and> packet_sent s = nextseqnum s \<and> packet_resent s = 0 \<and>
     (\<forall>i < 8. \<not> recv_marked s ! i) \<and>
     (\<forall>j. base s \<le> j \<longrightarrow> j < nextseqnum s \<longrightarrow> slot s j = data_pkt N j)"

definition smooth :: "int \<Rightarrow> sr \<Rightarrow> bool" where
  "smooth N s \<longleftrightarrow>
     clean N s \<and> guarded N (evlist s) \<and> (\<forall>e \<in> set (evlist s). punctual N (lambda s) (nsim s) e) \<and>
     under_way B s = map (data_pkt N) [expected_seq s..nextseqnum s - 1] \<and>
     under_way A s = map ack_pkt [base s..expected_seq s - 1]"

text \<open>There is time for all \<open>N\<close> messages.\<close>

definition in_time :: "int \<Rightarrow> rat \<Rightarrow> bool" where
  "in_time N interval \<longleftrightarrow> 0 \<le> interval \<and> of_int N * (interval + 15) \<le> 2 ^ 22"

definition fed :: "'a net_scheme \<Rightarrow> bool" where
  "fed s \<longleftrightarrow> (arrivals s = 0 \<longrightarrow> nsimmax s \<le> nsim s)"

lemma fed_steady: "steady s t \<Longrightarrow> fed s \<Longrightarrow> fed t"
  by (simp add: steady_def fed_def)

section \<open>Timers\<close>

lemma pkt_inject [simp]:
  "data_pkt N j = data_pkt N k \<longleftrightarrow> j = k" "ack_pkt j = ack_pkt k \<longleftrightarrow> j = k"
  by (metis pkt_simps(2)) (metis pkt_simps(5))

lemma timers_simps [simp]:
  "timers k [] = 0"
  "timers k (e # qs) = (if evtype e = TimerInterrupt k then Suc (timers k qs) else timers k qs)"
  by (simp_all add: timers_def)

lemma timers_insert [simp]: "timers k (insert_event p qs) = timers k (p # qs)"
  by (induction qs) auto

lemma timers_none: "timers k qs = 0 \<longleftrightarrow> (\<forall>e \<in> set qs. evtype e \<noteq> TimerInterrupt k)"
  by (induction qs) auto

lemma timers_cancel: "timers j (cancel x k qs) \<le> timers j qs"
  by (induction qs) auto

lemma timers_cancelled:
  "timers k qs \<le> 1 \<Longrightarrow> \<forall>e \<in> set qs. evtype e = TimerInterrupt k \<longrightarrow> eventity e = x \<Longrightarrow> timers k (cancel x k qs) = 0"
  by (induction qs) (auto split: if_splits)

lemma cancel_keeps: "q \<in> set qs \<Longrightarrow> evtype q \<noteq> TimerInterrupt k \<Longrightarrow> q \<in> set (cancel x k qs)"
  by (induction qs) auto

lemma due_packet: "due N k t q \<Longrightarrow> evtype q \<noteq> TimerInterrupt j \<and> evtype q \<noteq> FromLayer5"
  by (auto simp: due_def)

lemma guarded_packet:
  "guarded N qs \<Longrightarrow> \<forall>k. evtype p \<noteq> TimerInterrupt k \<Longrightarrow> guarded N (insert_event p qs)"
  by (auto simp: guarded_def)

lemma guarded_timer:
  assumes "guarded N qs" "timers k qs = 0" "q \<in> set qs" "due N k (evtime p) q" "evtype p = TimerInterrupt k" "eventity p = A"
  shows "guarded N (insert_event p qs)"
  using assms unfolding guarded_def by auto

lemma guarded_arrival: "guarded N (e # qs) \<Longrightarrow> evtype e = FromLayer5 \<Longrightarrow> guarded N qs"
  by (auto simp: guarded_def due_def)

lemma guarded_ack:
  assumes "guarded N (e # qs)" "evtype e = FromLayer3 (ack_pkt k)" "eventity e = A"
  shows "guarded N (cancel A k qs)"
proof -
  have g: "\<forall>j. timers j qs \<le> 1" "\<forall>p \<in> set qs. \<forall>j. evtype p = TimerInterrupt j \<longrightarrow> eventity p = A"
    using assms(1,2) by (simp_all add: guarded_def)
  then have "timers k (cancel A k qs) = 0" by (intro timers_cancelled) auto
  then have k: "\<forall>p \<in> set (cancel A k qs). evtype p \<noteq> TimerInterrupt k" by (simp add: timers_none)
  have "\<exists>q \<in> set (cancel A k qs). due N j (evtime p) q"
    if p: "p \<in> set (cancel A k qs)" "evtype p = TimerInterrupt j" for p j
  proof -
    have "p \<in> set qs" "j \<noteq> k" using p k set_cancel[of A k qs] by auto
    then obtain q where q: "q \<in> set (e # qs)" "due N j (evtime p) q"
      using assms(1) p(2) unfolding guarded_def by (meson list.set_intros(2))
    then have "q \<noteq> e" using assms(2,3) \<open>j \<noteq> k\<close> by (auto simp: due_def)
    with q show ?thesis using cancel_keeps[of q qs k A] due_packet[of N j "evtime p" q k] by auto
  qed
  moreover have "\<forall>j. timers j (cancel A k qs) \<le> 1" using g(1) timers_cancel order_trans by blast
  ultimately show ?thesis using g(2) set_cancel[of A k qs] unfolding guarded_def by (meson subsetD)
qed

lemma guarded_data:
  assumes "guarded N (e # qs)" "evtype e = FromLayer3 (data_pkt N k)" "eventity e = B"
    and "evtype p = FromLayer3 (ack_pkt k)" "eventity p = A" "evtime p = arrival (evtime e)"
  shows "guarded N (insert_event p qs)"
proof -
  have "\<exists>q \<in> set (insert_event p qs). due N j (evtime a) q" if a: "a \<in> set qs" "evtype a = TimerInterrupt j" for a j
  proof -
    obtain q where q: "q \<in> set (e # qs)" "due N j (evtime a) q"
      using assms(1) a unfolding guarded_def by (meson list.set_intros(2))
    show ?thesis
    proof (cases "q = e")
      case True
      then have "due N j (evtime a) p" using q(2) assms(2-6) by (auto simp: due_def)
      then show ?thesis by simp
    qed (use q in auto)
  qed
  then show ?thesis using assms(1,2,4) by (auto simp: guarded_def)
qed

lemma guarded_head:
  assumes "guarded N (e # qs)" "in_order (e # qs)" "\<forall>q \<in> set (e # qs). clock (evtime q)"
  shows "evtype e \<noteq> TimerInterrupt k"
proof
  assume k: "evtype e = TimerInterrupt k"
  then obtain q where q: "q \<in> set (e # qs)" "due N k (evtime e) q" using assms(1) unfolding guarded_def by fastforce
  have "evtime e \<le> evtime q" using q(1) assms(2) by (auto simp: in_order_def)
  moreover have "evtime q \<le> arrival (evtime q)" using q(1) assms(3) by (intro arrival_later) blast
  ultimately show False using q(2) by (auto simp: due_def)
qed

section \<open>Sending without loss\<close>

lemma lossless_sent:
  assumes "lossless (pattern s)"
  shows "sent_as p s = Some p" "fate s \<noteq> CHR ''x''" "fate s \<noteq> CHR ''-''"
proof -
  have "fate t \<in> set (pattern s)" if "pattern t = pattern s" for t :: "'a net_scheme"
  proof -
    have "pattern t ! nat (cp t mod int (length (pattern t))) \<in> set (pattern t)"
      using assms that by (intro nth_mem) (simp add: nat_less_iff lossless_def)
    then show ?thesis using that by (simp add: fate_def)
  qed
  then have "fate s \<in> set (pattern s)" "fate (s\<lparr>cp := cp s + 1\<rparr>) \<in> set (pattern s)" by simp_all
  then show "sent_as p s = Some p" "fate s \<noteq> CHR ''x''" "fate s \<noteq> CHR ''-''"
    using assms unfolding lossless_def sent_as_def Let_def by metis+
qed

lemma upto_last: "i \<le> j \<Longrightarrow> map f [i..j - 1] @ [f j] = map f [i..j]"
  by (simp add: upto_rec2)

lemma lossless_counted:
  assumes "lossless (pattern s)"
  shows "packet_sent (tolayer3_counted e p s) = packet_sent s" "packet_resent (tolayer3_counted e p s) = packet_resent s"
    "evlist (tolayer3 e p s) =
       insert_event \<lparr>evtime = arrival (time s), evtype = FromLayer3 p, eventity = other e\<rparr> (evlist s)"
  using lossless_sent(1)[OF assms]
  by (simp_all add: counted_net tolayer3_evlist)
    (simp_all add: tolayer3_counted_def tolayer3_def insertevent_def Let_def)

lemma limit_14: "limit i k + 14 = of_int (k + 1) * (i + 15)"
  by (simp add: limit_def algebra_simps)

lemma limit_bound:
  assumes "in_time N i" "k < N"
  shows "limit i k + 14 \<le> 2 ^ 22"
proof -
  have "of_int (k + 1) * (i + 15) \<le> of_int N * (i + 15)"
    using assms by (intro mult_right_mono) (simp_all add: in_time_def del: of_int_add)
  then show ?thesis using assms(1) unfolding limit_14 in_time_def by linarith
qed

lemma limit_next:
  assumes "0 \<le> i" "j < k"
  shows "limit i j + 14 \<le> limit i k"
proof -
  have "of_int (j + 1) * (i + 1) \<le> of_int (k + 1) * (i + 1)" "of_int (j + 1) \<le> (of_int k :: rat)"
    using assms by (auto intro!: mult_right_mono simp del: of_int_add)
  then show ?thesis by (simp add: limit_def)
qed

lemma limit_handed: "1 \<le> n \<Longrightarrow> of_int n * (i + 1) \<le> limit i (n - 1)"
  by (simp add: limit_def)

lemma under_way_mem: "q \<in> set (evlist s) \<Longrightarrow> packet_to x q = Some p \<Longrightarrow> p \<in> set (under_way x s)"
  unfolding under_way_def map_filter_def by force

text \<open>Only packets of the window have timers.\<close>

lemma smooth_timers:
  assumes "smooth N s" "base s \<le> expected_seq s" "expected_seq s \<le> nextseqnum s"
  shows "timers (nextseqnum s) (evlist s) = 0"
proof -
  have "False" if e: "e \<in> set (evlist s)" "evtype e = TimerInterrupt (nextseqnum s)" for e
  proof -
    obtain q where q: "q \<in> set (evlist s)" "due N (nextseqnum s) (evtime e) q"
      using assms(1) e unfolding smooth_def guarded_def by meson
    then have "packet_to B q = Some (data_pkt N (nextseqnum s)) \<or> packet_to A q = Some (ack_pkt (nextseqnum s))"
      by (auto simp: due_def packet_to_def)
    then have "data_pkt N (nextseqnum s) \<in> set (under_way B s) \<or> ack_pkt (nextseqnum s) \<in> set (under_way A s)"
      using under_way_mem[OF q(1)] by blast
    then show False using assms by (auto simp: smooth_def)
  qed
  then show ?thesis by (auto simp: timers_none)
qed

lemma transmit_smooth:
  assumes "smooth N s" "core N s" "nextseqnum s < base s + int (WINDOWSIZE s)" "m = nth_message N (nextseqnum s)"
    and "time s \<le> limit (lambda s) (nextseqnum s)" "in_time N (lambda s)" "nextseqnum s < N"
  shows "smooth N (transmit m s)"
proof -
  let ?n = "nextseqnum s"
  let ?p = "data_pkt N ?n"
  let ?d = "\<lparr>evtime = arrival (time s), evtype = FromLayer3 ?p, eventity = B\<rparr>"
  let ?t = "\<lparr>evtime = fl24 (time s + RTT), evtype = TimerInterrupt ?n, eventity = A\<rparr>"
  define t where "t = transmit m s"
  have so: "sender_ok N s" and tm: "timely s" using assms(2) by (simp_all add: core_def)
  have n: "base s \<le> expected_seq s" "expected_seq s \<le> ?n" "0 \<le> base s" "0 < WINDOWSIZE s"
    using base_le_expected[OF assms(2)] assms(2) by (simp_all add: core_def delivered_ok_def sender_ok_def)
  have cl: "lossless (pattern s)" "packet_sent s = ?n" "packet_resent s = 0" using assms(1) by (simp_all add: smooth_def clean_def)
  have p: "ComputeChecksum \<lparr>seqnum = ?n, acknum = NOTUSED, checksum = 0, payload = m\<rparr> = ?p"
    using assms(4) by (simp add: data_pkt_def)
  have p0: "?p\<lparr>acknum := 0\<rparr> = ?p" by (simp add: data_pkt_def NOTUSED_def ComputeChecksum_def)
  have f: "nextseqnum t = ?n + 1" "base t = base s" "WINDOWSIZE t = WINDOWSIZE s" "expected_seq t = expected_seq s"
    "recv_marked t = recv_marked s" "winbuf t = (winbuf s)[winrear s := ?p]" "pattern t = pattern s" "lambda t = lambda s"
    "nsim t = nsim s" "packet_sent t = ?n + 1" "packet_resent t = 0"
    "evlist t = insert_event ?t (insert_event ?d (evlist s))"
    using cl by (simp_all add: t_def transmit_def p p0 Let_def counted_net starttime_r_def insertevent_def lossless_counted)
  have b: "time s \<le> 2 ^ 22" "clock (time s)" using limit_bound[OF assms(6,7)] assms(5) tm by (simp_all add: timely_def)
  have sl: "slot t j = data_pkt N j" if j: "base s \<le> j" "j < ?n + 1" for j
  proof (cases "j = ?n")
    case True
    then show ?thesis using so n(4) by (simp add: slot_def f sender_ok_def)
  next
    case False
    then have "nat j mod WINDOWSIZE s \<noteq> nat ?n mod WINDOWSIZE s"
      using nat_mod_inject[of j "WINDOWSIZE s" ?n] j n assms(3) by auto
    then have "slot t j = slot s j" using so by (simp add: slot_def f sender_ok_def)
    then show ?thesis using assms(1) j False by (simp add: smooth_def clean_def)
  qed
  have "clean N t" using assms(1) sl by (simp add: smooth_def clean_def f)
  moreover have "guarded N (evlist t)"
  proof -
    have g: "guarded N (insert_event ?d (evlist s))" using assms(1) by (intro guarded_packet) (simp_all add: smooth_def)
    have z: "timers ?n (insert_event ?d (evlist s)) = 0" using smooth_timers[OF assms(1) n(1,2)] by simp
    have "due N ?n (evtime ?t) ?d" using round_trip[OF b(2,1)] by (simp add: due_def)
    from guarded_timer[OF g z _ this] show ?thesis by (simp add: f(12))
  qed
  moreover have "punctual N (lambda t) (nsim t) e" if e: "e \<in> set (evlist t)" for e
  proof -
    have "arrival (time s) \<le> time s + 34 / 5" using b clock_nonneg by (intro arrival_soon) simp_all
    then have "punctual N (lambda s) (nsim s) ?d" using assms(5) by (simp add: punctual_def)
    moreover have "punctual N (lambda s) (nsim s) ?t" by (simp add: punctual_def)
    ultimately show ?thesis using e assms(1) by (auto simp: f smooth_def)
  qed
  moreover have w: "under_way x t = under_way x (tolayer3 A ?p s)" for x
    using lossless_sent(1)[OF cl(1)] f(12) by (simp add: under_way_def map_filter_insert_none tolayer3_evlist)
  have "under_way x t = under_way x s @ (if x = B then [?p] else [])" for x
    unfolding w under_way_tolayer3[OF tm] lossless_sent(1)[OF cl(1)] by simp
  then have "under_way B t = map (data_pkt N) [expected_seq t..nextseqnum t - 1]"
    "under_way A t = map ack_pkt [base t..expected_seq t - 1]"
    using assms(1) n upto_last[of "expected_seq s" ?n "data_pkt N"] by (simp_all add: smooth_def f)
  ultimately show ?thesis by (simp add: smooth_def t_def)
qed

section \<open>The three events\<close>

lemma clean_fields:
  "clean N s \<Longrightarrow> pattern t = pattern s \<Longrightarrow> packet_sent t = packet_sent s \<Longrightarrow> packet_resent t = packet_resent s \<Longrightarrow>
     nextseqnum t = nextseqnum s \<Longrightarrow> base t = base s \<Longrightarrow> winbuf t = winbuf s \<Longrightarrow> WINDOWSIZE t = WINDOWSIZE s \<Longrightarrow>
     recv_marked t = recv_marked s \<Longrightarrow> clean N t"
  by (simp add: clean_def slot_def)

lemma smooth_fields:
  "smooth N s \<Longrightarrow> clean N t \<Longrightarrow> evlist t = evlist s \<Longrightarrow> nsim t = nsim s \<Longrightarrow> lambda t = lambda s \<Longrightarrow>
     nextseqnum t = nextseqnum s \<Longrightarrow> base t = base s \<Longrightarrow> expected_seq t = expected_seq s \<Longrightarrow> smooth N t"
  by (simp add: smooth_def under_way_def)

text \<open>Every event moves one message one stage further: handed over, delivered, acknowledged.\<close>

definition progress :: "sr \<Rightarrow> int" where
  "progress s = nextseqnum s + int (msg_num s) + expected_seq s + base s"

lemma generate_fields [simp]:
  "packet_sent (generate_next_arrival s) = packet_sent s" "packet_resent (generate_next_arrival s) = packet_resent s"
  "lambda (generate_next_arrival s) = lambda s" "pattern (generate_next_arrival s) = pattern s"
  by (simp_all add: generate_next_arrival_def insertevent_def)

lemma transmit_fields [simp]:
  "nextseqnum (transmit m s) = nextseqnum s + 1" "base (transmit m s) = base s" "lambda (transmit m s) = lambda s"
  "nsimmax (transmit m s) = nsimmax s"
  by (simp_all add: transmit_def Let_def counted_net starttime_r_def insertevent_def)

lemma generate_smooth:
  assumes "smooth N s" "evlist s = e # rest" "evtype e = FromLayer5" "in_time N (lambda s)" "nsimmax s = N" "0 \<le> nsim s" "timely s"
  shows "smooth N (generate_next_arrival (s\<lparr>evlist := rest, time := evtime e\<rparr>))"
proof -
  define u where "u = s\<lparr>evlist := rest, time := evtime e\<rparr>"
  define v where "v = generate_next_arrival u"
  define q where "q = \<lparr>evtime = fl24 (fl (evtime e + lambda s)), evtype = FromLayer5, eventity = A\<rparr>"
  have u: "nextseqnum v = nextseqnum s" "base v = base s" "expected_seq v = expected_seq s" "lambda v = lambda s"
    by (simp_all add: v_def u_def)
  have g: "guarded N rest" using guarded_arrival[of N e rest] assms(1-3) by (simp add: smooth_def)
  have t: "evtime e \<le> of_int (nsim s) * (lambda s + 1)" using assms(1-3) by (simp add: smooth_def punctual_def)
  have "under_way x s = under_way x v" for x
    using popped(15)[OF assms(2), of x] assms(3) by (simp add: packet_to_def v_def u_def)
  moreover have "clean N s" using assms(1) by (simp add: smooth_def)
  then have "clean N v" by (rule clean_fields) (simp_all add: v_def u_def)
  moreover have "guarded N (evlist v) \<and> (\<forall>e \<in> set (evlist v). punctual N (lambda s) (nsim v) e)"
  proof (cases "N \<le> nsim s")
    case True
    then have "v = u" using assms(5) by (simp add: v_def u_def generate_next_arrival_def)
    then show ?thesis using g assms(1,2) by (simp add: u_def smooth_def)
  next
    case False
    then have v: "evlist v = insert_event q rest" "nsim v = nsim s + 1"
      using assms(5) by (simp_all add: v_def u_def generate_next_arrival_def q_def)
    have l: "0 \<le> lambda s" using assms(4) by (simp add: in_time_def)
    have "of_int (nsim s + 1) * (lambda s + 1) \<le> of_int N * (lambda s + 15)"
      using False l assms(6) by (intro mult_mono) (simp_all del: of_int_add)
    then have "evtime e + lambda s \<le> 2 ^ 22" using t assms(4) unfolding in_time_def by (simp add: algebra_simps)
    moreover have "0 \<le> evtime e + lambda s" using assms(2,7) l clock_nonneg by (simp add: timely_def)
    ultimately have "evtime q \<le> of_int (nsim s + 1) * (lambda s + 1)"
      using message_soon[of "evtime e + lambda s"] t by (simp add: q_def algebra_simps)
    then have "punctual N (lambda s) (nsim s + 1) q" by (simp add: punctual_def q_def)
    moreover have "of_int (nsim s) * (lambda s + 1) \<le> of_int (nsim s + 1) * (lambda s + 1)"
      using l by (intro mult_right_mono) simp_all
    then have "punctual N (lambda s) (nsim s + 1) p" if "punctual N (lambda s) (nsim s) p" for p
      using that unfolding punctual_def by (meson order_trans)
    moreover have "guarded N (insert_event q rest)" using g by (intro guarded_packet) (simp_all add: q_def)
    ultimately show ?thesis using assms(1,2) by (auto simp: v smooth_def)
  qed
  ultimately show ?thesis using assms(1) unfolding u_def[symmetric] v_def[symmetric] by (simp add: smooth_def u)
qed

lemma generate_fed: "fed (generate_next_arrival s)"
  by (auto simp: fed_def arrivals_def generate_next_arrival_def insertevent_def filter_empty_conv)

lemma arrival_step:
  assumes "smooth N s" "sr_ok N s" "arrivals_ok s" "evlist s = e # rest" "evtype e = FromLayer5"
    and "in_time N (lambda s)" "N \<le> 5000"
  shows "\<exists>t. sr_step s = Inr t \<and> smooth N t \<and> fed t \<and> lambda t = lambda s \<and> progress t = progress s + 1"
proof -
  define u where "u = s\<lparr>evlist := rest, time := evtime e\<rparr>"
  define v where "v = generate_next_arrival u"
  define m where "m = letters (nsim v)"
  have c: "core N s" and b: "0 < msg_num s \<longrightarrow> base s + int (WINDOWSIZE s) \<le> nextseqnum s"
    using assms(2) by (simp_all add: sr_ok_def)
  then have ok: "timely s" "sender_ok N s" "channel_ok N (nextseqnum s) (nextseqnum s) s" "nsimmax s = N"
    by (simp_all add: core_def)
  have eA: "eventity e = A" using ok(3) assms(4,5) by (simp add: channel_ok_def event_ok_def)
  have "arrivals s \<noteq> 0" using assms(4,5) by (simp add: arrivals_def)
  then have n: "nsim s = nextseqnum s + int (msg_num s) + 1" "nsim s \<le> max N 0" "0 \<le> nextseqnum s" "0 < WINDOWSIZE s" "0 \<le> base s"
    using assms(3) ok(2,4) by (auto simp: arrivals_ok_def Let_def sender_ok_def)
  have f: "nextseqnum v = nextseqnum s" "base v = base s" "msg_num v = msg_num s" "WINDOWSIZE v = WINDOWSIZE s"
    "lambda v = lambda s" "expected_seq v = expected_seq s" "time v = evtime e" "nsimmax v = N"
    using ok(4) by (simp_all add: v_def u_def)
  have v: "smooth N v" unfolding v_def u_def using n ok by (intro generate_smooth[OF assms(1,4-6)]) simp_all
  have fv: "fed v" unfolding v_def by (rule generate_fed)
  have step: "sr_step s = A_output m v"
    using assms(4,5) eA by (simp add: step_event handle_def v_def u_def m_def Let_def)
  show ?thesis
  proof (cases "nextseqnum s < base s + int (WINDOWSIZE s)")
    case True
    then have z: "msg_num s = 0" using b by simp
    have cv: "core N v" unfolding v_def u_def using c assms(4) by (intro arrival_core popped_core)
    have m: "m = nth_message N (nextseqnum v)"
      unfolding m_def v_def using n z ok(4) by (intro arrival_message) (simp_all add: u_def f[unfolded v_def])
    have "time v \<le> limit (lambda s) (nextseqnum s)"
      using assms(1,4,5) limit_handed[of "nsim s" "lambda s"] n z by (simp add: f smooth_def punctual_def)
    with m have "smooth N (transmit m v)"
      using n z assms(6) True by (intro transmit_smooth[OF v cv]) (simp_all add: f)
    moreover have "sr_step s = Inr (transmit m v)" using step True by (simp add: A_output_def f)
    moreover have "steady v (transmit m v)"
      using transmit_ok[OF cv _ m] n assms(7) True by (simp add: f)
    ultimately show ?thesis using fv fed_steady[of v "transmit m v"]
      by (intro exI[of _ "transmit m v"]) (simp add: f progress_def expected_drain)
  next
    case False
    define t where "t = v\<lparr>buffer := (buffer v)[bufrear v := m], bufrear := (bufrear v + 1) mod MAXBUFSIZE,
      msg_num := msg_num v + 1\<rparr>"
    have "msg_num s < MAXBUFSIZE - 1" using n False assms(7) by (simp add: MAXBUFSIZE_def)
    then have "sr_step s = Inr t" using step False by (simp add: A_output_def f t_def)
    moreover have "clean N v" using v by (simp add: smooth_def)
    then have "clean N t" by (rule clean_fields) (simp_all add: t_def)
    with v have "smooth N t" by (rule smooth_fields) (simp_all add: t_def)
    moreover have "steady v t" using steady_refl by (rule steady_fields) (simp_all add: t_def)
    ultimately show ?thesis using fv fed_steady[of v t] by (intro exI[of _ t]) (simp add: progress_def t_def f)
  qed
qed

lemma in_order_stop:
  assumes "0 < WINDOWSIZE s" "WINDOWSIZE s \<le> 8" "length (recv_marked s) = 8" "0 \<le> expected_seq s" "\<forall>i < 8. \<not> recv_marked s ! i"
  shows "deliver s = Inr s"
proof (rule deliver_stop)
  show "slot_of (expected_seq s) s \<noteq> None" using slot_of_small[of s "expected_seq s"] assms by simp
  show "\<not> kept s (expected_seq s)"
    using slot_of_less[of "expected_seq s" s] assms(3,5) by (auto simp: kept_def split: option.split)
qed

text \<open>The packet B expects is acknowledged and delivered at once, and its slot is free again.\<close>

lemma B_input_in_order:
  assumes "core N s" "\<forall>i < 8. \<not> recv_marked s ! i" "WINDOWSIZE s \<le> 8" "expected_seq s < nextseqnum s"
    and "lossless (pattern s)"
  shows "\<exists>t. B_input (data_pkt N (expected_seq s)) s = Inr t \<and> expected_seq t = expected_seq s + 1 \<and>
    (\<forall>i < 8. \<not> recv_marked t ! i) \<and> pattern t = pattern s \<and> packet_sent t = packet_sent s \<and>
    packet_resent t = packet_resent s \<and> nextseqnum t = nextseqnum s \<and> base t = base s \<and> winbuf t = winbuf s \<and>
    WINDOWSIZE t = WINDOWSIZE s \<and> msg_num t = msg_num s \<and> lambda t = lambda s \<and> nsim t = nsim s \<and>
    nsimmax t = nsimmax s \<and> evlist t = insert_event
      \<lparr>evtime = arrival (time s), evtype = FromLayer3 (ack_pkt (expected_seq s)), eventity = A\<rparr> (evlist s)"
proof -
  let ?n = "expected_seq s"
  let ?p = "data_pkt N ?n"
  have w: "0 < WINDOWSIZE s" "length (recv_marked s) = 8" "length (recv_window s) = 8" "0 \<le> ?n"
    using assms(1) by (simp_all add: core_def sender_ok_def marks_ok_def delivered_ok_def)
  define i where "i = nat (?n mod int (WINDOWSIZE s))"
  have i: "slot_of ?n t = Some i" if "WINDOWSIZE t = WINDOWSIZE s" "length (recv_marked t) = 8" for t
    using slot_of_small[of t ?n] that w assms(3) by (simp add: i_def)
  have i8: "i < 8" using slot_of_less[OF i[OF refl w(2)]] w(2) by simp
  define v where "v = send_ack ?n (s\<lparr>recv_window := (recv_window s)[i := ?p], recv_marked := (recv_marked s)[i := True]\<rparr>)"
  define t where "t = (tolayer5 (payload ?p) v)\<lparr>recv_marked := (recv_marked v)[i := False],
    packet_receieve := packet_receieve v + 1, expected_seq := ?n + 1\<rparr>"
  have v: "WINDOWSIZE v = WINDOWSIZE s" "expected_seq v = ?n" "recv_marked v = (recv_marked s)[i := True]"
    "recv_window v = (recv_window s)[i := ?p]"
    by (simp_all add: v_def send_ack_def)
  have free: "\<forall>j < 8. \<not> recv_marked t ! j" using v(3) assms(2) i8 w(2) by (simp add: t_def nth_list_update)
  have "B_input ?p s = deliver v"
    using w assms(2) i8 i[OF refl w(2)] by (simp add: B_input_def Let_def v_def)
  also have "\<dots> = deliver t"
    using v w i8 i[of v] by (subst deliver.simps) (simp add: t_def)
  also have "\<dots> = Inr t" using free v w assms(3) by (intro in_order_stop) (simp_all add: t_def)
  finally have "B_input ?p s = Inr t" .
  moreover note free
  moreover have "evlist t = insert_event
      \<lparr>evtime = arrival (time s), evtype = FromLayer3 (ack_pkt ?n), eventity = A\<rparr> (evlist s)"
    using assms(5) by (simp add: t_def v_def send_ack_def tolayer5_def counted_net lossless_counted ack_pkt_def)
  moreover have "packet_sent t = packet_sent s" "packet_resent t = packet_resent s" "pattern t = pattern s"
    using assms(5) by (simp_all add: t_def v_def send_ack_def tolayer5_def lossless_counted)
  ultimately show ?thesis
    by (intro exI[of _ t]) (simp add: t_def v_def send_ack_def counted_net tolayer5_def)
qed

lemma upto_head: "map f [i..j] = x # xs \<Longrightarrow> x = f i \<and> i \<le> j \<and> xs = map f [i + 1..j]"
  by (cases "i \<le> j") (simp_all add: upto_rec1)

lemma data_step:
  assumes "smooth N s" "sr_ok N s" "arrivals_ok s" "fed s" "evlist s = e # rest" "evtype e = FromLayer3 p" "eventity e = B"
    and "in_time N (lambda s)" "WINDOWSIZE s \<le> 8"
  shows "\<exists>t. sr_step s = Inr t \<and> smooth N t \<and> fed t \<and> lambda t = lambda s \<and> progress t = progress s + 1"
proof -
  let ?n = "expected_seq s"
  define u where "u = s\<lparr>evlist := rest, time := evtime e\<rparr>"
  let ?q = "\<lparr>evtime = arrival (evtime e), evtype = FromLayer3 (ack_pkt ?n), eventity = A\<rparr>"
  note f = popped[OF assms(5), folded u_def]
  have c: "core N s" using assms(2) by (simp add: sr_ok_def)
  then have cu: "core N u" unfolding u_def using assms(5) by (rule popped_core)
  have "p # under_way B u = map (data_pkt N) [?n..nextseqnum s - 1]" "under_way A u = map ack_pkt [base s..?n - 1]"
    using assms(1,6,7) f(15)[of A] f(15)[of B] by (simp_all add: smooth_def packet_to_def)
  then have w: "p = data_pkt N ?n" "?n < nextseqnum s" "under_way B u = map (data_pkt N) [?n + 1..nextseqnum s - 1]"
    "under_way A u = map ack_pkt [base s..?n - 1]"
    using upto_head[of "data_pkt N" ?n "nextseqnum s - 1" p] by auto
  have cl: "lossless (pattern u)" "\<forall>i < 8. \<not> recv_marked u ! i" "clean N s"
    using assms(1) by (simp_all add: smooth_def clean_def u_def)
  obtain t where t: "B_input (data_pkt N (expected_seq u)) u = Inr t" "expected_seq t = ?n + 1"
    "\<forall>i < 8. \<not> recv_marked t ! i" "pattern t = pattern s" "packet_sent t = packet_sent s"
    "packet_resent t = packet_resent s" "nextseqnum t = nextseqnum s" "base t = base s" "winbuf t = winbuf s"
    "WINDOWSIZE t = WINDOWSIZE s" "msg_num t = msg_num s" "lambda t = lambda s" "nsim t = nsim s" "nsimmax t = nsimmax s"
    "evlist t = insert_event ?q rest"
    using B_input_in_order[OF cu cl(2) _ _ cl(1)] w(2) assms(9) by (auto simp: f(1-9)) (auto simp: u_def)
  have "clean N t" using cl(3) t by (simp add: clean_def slot_def)
  moreover have "guarded N (evlist t)"
    using guarded_data[of N e rest ?n ?q] assms(1,5,6,7) w(1) by (simp add: smooth_def t(15))
  moreover have "punctual N (lambda t) (nsim t) x" if x: "x \<in> set (evlist t)" for x
  proof -
    have b: "evtime e \<le> limit (lambda s) ?n + 7" "clock (evtime e)"
      using assms(1,5,6,7) w(1) c by (simp_all add: smooth_def punctual_def core_def timely_def)
    have "?n < N" using w(2) assms(3) c by (auto simp: arrivals_ok_def Let_def core_def delivered_ok_def)
    then have "arrival (evtime e) \<le> evtime e + 34 / 5"
      using b limit_bound[OF assms(8), of ?n] clock_nonneg by (intro arrival_soon) simp_all
    then have "punctual N (lambda s) (nsim s) ?q" using b(1) by (simp add: punctual_def)
    then show ?thesis using x assms(1,5) by (auto simp: smooth_def t)
  qed
  moreover have "under_way B t = under_way B u" by (simp add: under_way_def t(15) map_filter_insert_none u_def)
  moreover have "under_way A t = under_way A u @ [ack_pkt ?n]"
  proof -
    have "under_way A t = under_way A (tolayer3 B (ack_pkt ?n) u)"
      using lossless_counted(3)[OF cl(1), of B "ack_pkt ?n"] by (simp add: under_way_def t(15) u_def)
    then show ?thesis using cu under_way_tolayer3[of u A B] lossless_sent(1)[OF cl(1)] by (simp add: core_def)
  qed
  ultimately have "smooth N t"
    using w upto_last[of "base s" ?n ack_pkt] base_le_expected[OF c] by (simp add: smooth_def t)
  moreover have "sr_step s = Inr t"
    using assms(5-7) t(1) w(1) by (simp add: step_event handle_def u_def)
  moreover have "arrivals t = arrivals s" unfolding arrivals_def t(15) arrivals_insert using assms(5,6) by simp
  then have "fed t" using assms(4) by (simp add: fed_def t)
  ultimately show ?thesis using t by (auto simp: progress_def)
qed

text \<open>The acknowledgement of the base: its timer is stopped and the window moves by one.\<close>

lemma search_front:
  assumes "sender_ok N s" "base s < nextseqnum s" "slot s (base s) = data_pkt N (base s)"
  shows "search [0..<nat (pktnum s)] (base s) s = Some (winfront s) \<and> winbuf s ! winfront s = data_pkt N (base s)"
proof -
  have "0 < nat (pktnum s)" "winfront s = nat (base s) mod WINDOWSIZE s" using assms(1,2) by (simp_all add: sender_ok_def)
  moreover from this have "[0..<nat (pktnum s)] = 0 # [1..<nat (pktnum s)]" by (simp add: upt_rec)
  moreover have "acknum (data_pkt N j) = 0" for j by (simp add: data_pkt_def NOTUSED_def)
  ultimately show ?thesis using assms(3) by (simp add: slot_def)
qed

lemma slide_once:
  assumes "core N s" "base s < nextseqnum s" "acknum (slot s (base s)) = 1" "seqnum (slot s (base s)) = base s"
    and "base s + 1 < nextseqnum s \<Longrightarrow> slot s (base s + 1) = data_pkt N (base s + 1)"
  shows "slide s = s\<lparr>base := base s + 1, winfront := (winfront s + 1) mod WINDOWSIZE s, pktnum := pktnum s - 1,
    ack_adv_num := ack_adv_num s + 1\<rparr>"
proof -
  define t where "t = s\<lparr>base := base s + 1, winfront := (winfront s + 1) mod WINDOWSIZE s, pktnum := pktnum s - 1,
    ack_adv_num := ack_adv_num s + 1\<rparr>"
  have so: "0 \<le> base s" "winfront s = nat (base s) mod WINDOWSIZE s" "pktnum s = nextseqnum s - base s"
    using assms(1) by (simp_all add: core_def sender_ok_def)
  have "(winfront s + 1) mod WINDOWSIZE s = nat (base s + 1) mod WINDOWSIZE s"
    using so(1,2) by (simp add: nat_add_distrib mod_Suc_eq)
  then have "\<not> (0 < pktnum t \<and> acknum (winbuf t ! winfront t) = 1)"
    using assms(5) so by (auto simp: t_def slot_def data_pkt_def NOTUSED_def)
  then have "slide t = t" using slide.simps[of t] by auto
  moreover have "slide s = slide t"
    unfolding t_def using assms(2-4) so by (subst slide.simps) (simp add: slot_def)
  ultimately show ?thesis by (simp add: t_def)
qed

lemma drain_once:
  assumes "smooth N s" "core N s" "buffer_ok N (nextseqnum s) s" "in_time N (lambda s)" "nextseqnum s + int (msg_num s) \<le> N"
    and "time s \<le> limit (lambda s) (nextseqnum s)" "N \<le> 30000"
    and "0 < msg_num s \<Longrightarrow> nextseqnum s = base s + int (WINDOWSIZE s) - 1"
  shows "smooth N (drain s) \<and> lambda (drain s) = lambda s \<and> progress (drain s) = progress s"
proof (cases "0 < msg_num s \<and> nextseqnum s < base s + int (WINDOWSIZE s)")
  case False
  then have "drain s = s" using drain.simps[of s] unfolding if_not_P[OF False] by blast
  with assms(1) show ?thesis by simp
next
  case True
  define z where "z = s\<lparr>buffront := (buffront s + 1) mod MAXBUFSIZE, msg_num := msg_num s - 1\<rparr>"
  define m where "m = buffer s ! buffront s"
  have m: "m = nth_message N (nextseqnum z)" using buffer_pop[OF assms(3)] True by (simp add: m_def z_def)
  have z: "core N z" using assms(2) by (rule core_fields) (simp_all add: z_def)
  have "clean N s" using assms(1) by (simp add: smooth_def)
  then have "clean N z" by (rule clean_fields) (simp_all add: z_def)
  with assms(1) have sz: "smooth N z" by (rule smooth_fields) (simp_all add: z_def)
  have "smooth N (transmit m z)"
    using transmit_smooth[OF sz z _ m] assms(4-6) True by (simp add: z_def)
  moreover have "drain s = drain (transmit m z)" unfolding z_def m_def using True by (subst drain.simps) simp
  moreover have "WINDOWSIZE (transmit m z) = WINDOWSIZE s"
    using transmit_ok[OF z _ m] assms(5,7) True by (simp add: z_def)
  then have "drain (transmit m z) = transmit m z"
    using drain.simps[of "transmit m z"] assms(8) True by (simp add: z_def)
  ultimately show ?thesis using True by (simp add: progress_def) (simp add: z_def)
qed

lemma ack_step:
  assumes "smooth N s" "sr_ok N s" "arrivals_ok s" "fed s" "evlist s = e # rest" "evtype e = FromLayer3 p" "eventity e = A"
    and "in_time N (lambda s)" "N \<le> 30000"
  shows "\<exists>t. sr_step s = Inr t \<and> smooth N t \<and> fed t \<and> lambda t = lambda s \<and> progress t = progress s + 1"
proof -
  let ?b = "base s"
  define u where "u = s\<lparr>evlist := rest, time := evtime e\<rparr>"
  note f = popped[OF assms(5), folded u_def]
  have c: "core N s" and b0: "0 < msg_num s \<longrightarrow> ?b + int (WINDOWSIZE s) \<le> nextseqnum s" and bf: "buffer_ok N (nextseqnum s) s"
    using assms(2) by (simp_all add: sr_ok_def)
  then have cu: "core N u" unfolding u_def using assms(5) by (intro popped_core)
  have "p # under_way A u = map ack_pkt [?b..expected_seq s - 1]"
    "under_way B u = map (data_pkt N) [expected_seq s..nextseqnum s - 1]"
    using assms(1,6,7) f(15)[of A] f(15)[of B] by (simp_all add: smooth_def packet_to_def)
  then have w: "p = ack_pkt ?b" "?b < expected_seq s" "under_way A u = map ack_pkt [?b + 1..expected_seq s - 1]"
    "under_way B u = map (data_pkt N) [expected_seq s..nextseqnum s - 1]"
    using upto_head[of ack_pkt ?b "expected_seq s - 1" p] by auto
  have r: "sender_ok N u" "expected_seq s \<le> nextseqnum s" "nsimmax s = N" "0 \<le> ?b" "nextseqnum s \<le> ?b + int (WINDOWSIZE s)"
    "length (winbuf s) = WINDOWSIZE s" "winfront s = nat ?b mod WINDOWSIZE s" "0 < WINDOWSIZE s"
    using cu c by (simp_all add: core_def delivered_ok_def sender_ok_def)
  have cl: "clean N s" using assms(1) by (simp add: smooth_def)
  then have sl: "slot u j = data_pkt N j" if "?b \<le> j" "j < nextseqnum s" for j using that by (simp add: clean_def f)
  have found: "search [0..<nat (pktnum u)] ?b u = Some (winfront u)" "winbuf u ! winfront u = data_pkt N ?b"
    using search_front[OF r(1)] sl[of ?b] w(2) r(2) by (simp_all add: f)
  define x where "x = (stoptime_r A ?b u)\<lparr>winbuf := (winbuf u)[winfront u := (data_pkt N ?b)\<lparr>acknum := 1\<rparr>]\<rparr>"
  define y where "y = x\<lparr>base := ?b + 1, winfront := (winfront x + 1) mod WINDOWSIZE x, pktnum := pktnum x - 1,
    ack_adv_num := ack_adv_num x + 1\<rparr>"
  have wf: "winfront u = nat ?b mod WINDOWSIZE u" using r(7) f by (simp add: u_def)
  have "has u ?b" using w(2) by (simp add: has_def f)
  then have x: "core N x \<and> steady u x"
    using mark_core[OF cu, of ?b] w(2) r(2) found(2) by (simp add: x_def f wf)
  have slx: "slot x j = (if j = ?b then (data_pkt N j)\<lparr>acknum := 1\<rparr> else data_pkt N j)"
    if j: "?b \<le> j" "j < nextseqnum s" for j
  proof (cases "j = ?b")
    case True
    then show ?thesis using r by (simp add: slot_def x_def u_def)
  next
    case False
    then have "nat j mod WINDOWSIZE s \<noteq> nat ?b mod WINDOWSIZE s"
      using nat_mod_inject[of j "WINDOWSIZE s" ?b] j r by auto
    then have "slot x j = slot u j" using r by (simp add: slot_def x_def u_def)
    then show ?thesis using sl[OF j] False by simp
  qed
  have fx: "base x = ?b" "nextseqnum x = nextseqnum s" "lambda x = lambda s" "nsim x = nsim s"
    by (simp_all add: x_def u_def stoptime_r_def)
  have sy: "slide x = y"
    using slide_once[of N x] x slx w(2) r(2) fx by (simp add: y_def)
  have y: "core N y" "steady u y"
    using slide_core[of N x] x sy by (auto intro: steady_trans)
  have fy: "base y = ?b + 1" "nextseqnum y = nextseqnum s" "lambda y = lambda s" "nsim y = nsim s" "expected_seq y = expected_seq s"
    "evlist y = cancel A ?b rest" "msg_num y = msg_num s" "WINDOWSIZE y = WINDOWSIZE s" "time y = evtime e"
    "buffer_ok N n y = buffer_ok N n s" "slot y j = slot x j" for n j
    by (simp_all add: y_def x_def u_def stoptime_r_def buffer_ok_def slot_def)
  have "clean N y" using cl slx by (simp add: clean_def fy) (simp add: y_def x_def u_def stoptime_r_def)
  moreover have "guarded N (evlist y)"
    using guarded_ack[of N e rest ?b] assms(1,5,6,7) w(1) by (simp add: smooth_def fy)
  moreover have "\<forall>e \<in> set (evlist y). punctual N (lambda y) (nsim y) e"
    using assms(1,5) set_cancel[of A ?b rest] by (auto simp: smooth_def fy)
  moreover have "under_way z y = under_way z u" for z
    by (simp add: under_way_def fy(6) map_filter_cancel) (simp add: u_def)
  ultimately have sm: "smooth N y" using w by (simp add: smooth_def fy)
  have given: "nextseqnum s + int (msg_num s) \<le> N" "?b < N"
    using assms(3) r w(2) by (auto simp: arrivals_ok_def Let_def)
  have "evtime e \<le> limit (lambda s) ?b + 14"
    using assms(1,5,6,7) w(1) by (simp add: smooth_def punctual_def)
  moreover have "limit (lambda s) ?b + 14 \<le> limit (lambda s) (nextseqnum s)"
    using assms(8) w(2) r(2) by (intro limit_next) (simp_all add: in_time_def)
  ultimately have d: "smooth N (drain y) \<and> lambda (drain y) = lambda y \<and> progress (drain y) = progress y"
    using b0 r assms(8,9) given bf by (intro drain_once[OF sm y(1)]) (simp_all add: fy)
  have t: "A_input p u = drain y"
    using found w r(2) by (simp add: A_input_def Let_def f sy[symmetric] x_def)
  have "steady y (drain y)"
    using drain_sr_ok[OF y(1)] bf given assms(2,9) by (simp add: fy sr_ok_def)
  with y(2) have "steady u (drain y)" by (rule steady_trans)
  moreover have "arrivals s = arrivals u" using assms(5,6) by (simp add: arrivals_def u_def)
  ultimately have "fed (drain y)" using assms(4) by (simp add: steady_def fed_def f)
  moreover have "sr_step s = Inr (drain y)" using assms(5-7) t by (simp add: step_event handle_def u_def)
  ultimately show ?thesis using d by (intro exI[of _ "drain y"]) (simp add: fy progress_def)
qed

section \<open>The whole simulation\<close>

lemma smooth_step:
  assumes "smooth N s" "sr_ok N s" "arrivals_ok s" "fed s" "evlist s \<noteq> []" "in_time N (lambda s)" "N \<le> 5000" "WINDOWSIZE s \<le> 8"
  shows "\<exists>t. sr_step s = Inr t \<and> smooth N t \<and> fed t \<and> lambda t = lambda s \<and> progress t = progress s + 1"
proof -
  obtain e rest where l: "evlist s = e # rest" using assms(5) by (cases "evlist s") auto
  show ?thesis
  proof (cases "evtype e")
    case (TimerInterrupt k)
    have "timely s" using assms(2) by (simp add: sr_ok_def core_def)
    then have "evtype e \<noteq> TimerInterrupt k"
      using assms(1) by (intro guarded_head[of N e rest]) (simp_all add: smooth_def timely_def l)
    with TimerInterrupt show ?thesis by simp
  next
    case FromLayer5
    with assms l show ?thesis by (intro arrival_step)
  next
    case (FromLayer3 p)
    then show ?thesis
      using ack_step[OF assms(1-4) l FromLayer3 _ assms(6)] data_step[OF assms(1-4) l FromLayer3 _ assms(6,8)] assms(7)
      by (cases "eventity e") simp_all
  qed
qed

text \<open>Nothing is left to happen: everything has been handed over, delivered and acknowledged.\<close>

lemma smooth_end:
  assumes "smooth N s" "sr_ok N s" "arrivals_ok s" "fed s" "evlist s = []" "0 \<le> N"
  shows "layer5 s = map (\<lambda>i. nth_message N (int i)) [0..<nat N] \<and> packet_sent s = N \<and> packet_resent s = 0 \<and>
    base s = N \<and> expected_seq s = N \<and> nextseqnum s = N \<and> msg_num s = 0"
proof -
  have c: "core N s" "0 < msg_num s \<longrightarrow> base s + int (WINDOWSIZE s) \<le> nextseqnum s" using assms(2) by (simp_all add: sr_ok_def)
  have "under_way x s = []" for x using assms(5) by (simp add: under_way_def map_filter_simps)
  then have "nextseqnum s \<le> expected_seq s" "expected_seq s \<le> base s" using assms(1) by (simp_all add: smooth_def)
  moreover have b: "base s \<le> expected_seq s" "expected_seq s \<le> nextseqnum s" "0 < WINDOWSIZE s" "nsimmax s = N"
    "layer5 s = map (\<lambda>i. nth_message N (int i)) [0..<nat (expected_seq s)]"
    using c(1) base_le_expected[OF c(1)] by (simp_all add: core_def delivered_ok_def sender_ok_def)
  moreover from calculation c(2) have "msg_num s = 0" by auto
  moreover have "N \<le> nsim s" "nsim s = nextseqnum s + int (msg_num s)" "nsim s \<le> N"
    using assms(3-6) b(4) by (auto simp: fed_def arrivals_def arrivals_ok_def Let_def)
  ultimately show ?thesis using assms(1) by (simp add: smooth_def clean_def)
qed

lemma smooth_simulate:
  assumes "smooth N s" "sr_ok N s" "arrivals_ok s" "fed s" "in_time N (lambda s)" "N \<le> 5000" "WINDOWSIZE s \<le> 8" "0 \<le> N"
  shows "\<exists>t. simulate sr_step s = Some (Terminated, t) \<and> smooth N t \<and> sr_ok N t \<and> arrivals_ok t \<and> fed t \<and> evlist t = []"
  using assms
proof (induction "nat (3 * N - progress s)" arbitrary: s rule: less_induct)
  case less
  show ?case
  proof (cases "evlist s = []")
    case True
    then have "simulate sr_step s = Some (Terminated, s)"
      by (subst simulate.simps) (simp add: sr_step_def next_event_def)
    with True less.prems show ?thesis by blast
  next
    case False
    obtain t where t: "sr_step s = Inr t" "smooth N t" "fed t" "lambda t = lambda s" "progress t = progress s + 1"
      using smooth_step less.prems False by blast
    have ok: "sr_ok N t" "arrivals_ok t" "WINDOWSIZE t = WINDOWSIZE s"
      using sr_step_ok[OF _ t(1), of N] less.prems by simp_all
    then have "core N t" by (simp add: sr_ok_def)
    then have "base t \<le> nextseqnum t" "expected_seq t \<le> nextseqnum t" "nsimmax t = N"
      by (simp_all add: core_def delivered_ok_def sender_ok_def)
    then have "progress t \<le> 3 * N"
      using ok(2) less.prems(8) by (auto simp: arrivals_ok_def Let_def progress_def)
    then have "nat (3 * N - progress t) < nat (3 * N - progress s)" using t(5) by simp
    then obtain v where v: "simulate sr_step t = Some (Terminated, v)" "smooth N v" "sr_ok N v" "arrivals_ok v" "fed v" "evlist v = []"
      using less.hyps[of t] t ok less.prems by auto
    then have "simulate sr_step s = Some (Terminated, v)" using t(1) by (subst simulate.simps) simp
    with v show ?thesis by blast
  qed
qed

lemma smooth_start:
  assumes "lossless channel" "in_time N interval" "0 < window" "length ram = window"
  shows "smooth N (start N interval channel window ram) \<and> fed (start N interval channel window ram)"
proof -
  let ?s = "start N interval channel window ram"
  have "under_way x ?s = []" for x by (simp add: under_way_def map_filter_simps)
  moreover have "packet_sent ?s = 0" "packet_resent ?s = 0"
    by (simp_all add: start_def A_init_def net.defs sender.defs sr.defs)
  moreover have "fl24 (fl interval) \<le> interval + 1" if "0 < N"
  proof -
    have "1 * (interval + 15) \<le> of_int N * (interval + 15)"
      using that assms(2) by (intro mult_right_mono) (simp_all add: in_time_def)
    also have "\<dots> \<le> 2 ^ 22" using assms(2) by (simp add: in_time_def)
    finally have "interval \<le> 2 ^ 22" by simp
    then show ?thesis using assms(2) by (intro message_soon) (simp_all add: in_time_def)
  qed
  ultimately show ?thesis
    using assms(1) by (simp add: smooth_def clean_def guarded_def punctual_def fed_def arrivals_def)
qed

text \<open>
  C20: over a channel that loses and corrupts nothing, with a window of at most eight packets, every
  simulation of up to 5000 messages whose interval leaves the clock below \<open>2 ^ 22\<close> ends, with every
  message delivered in order and every packet sent exactly once.
\<close>

theorem repeat_lossless:
  assumes "lossless channel" "in_time N interval" "0 \<le> N" "N \<le> 5000"
    and "0 < window" "window \<le> 8" "length ram = window"
  shows "\<exists>s. simulate sr_step (start N interval channel window ram) = Some (Terminated, s) \<and>
    layer5 s = map (\<lambda>i. nth_message N (int i)) [0..<nat N] \<and> packet_sent s = N \<and> packet_resent s = 0 \<and> base s = N"
proof -
  let ?s = "start N interval channel window ram"
  have "sr_ok N ?s \<and> arrivals_ok ?s" using assms(2,5,7) by (intro start_sr_ok) (simp_all add: in_time_def)
  moreover have "smooth N ?s \<and> fed ?s" using assms by (intro smooth_start)
  ultimately obtain t where t: "simulate sr_step ?s = Some (Terminated, t)" "smooth N t" "sr_ok N t" "arrivals_ok t"
    "fed t" "evlist t = []"
    using smooth_simulate[of N ?s] assms by auto
  with smooth_end[OF t(2-6) assms(3)] show ?thesis by blast
qed

theorem repeat_lossless_witness:
  "\<exists>s. simulate sr_step (start 3 (1 / 2) ''o'' 2 (replicate 2 (data_pkt 1 0))) = Some (Terminated, s) \<and>
     layer5 s = [letters 2, letters 3, letters 3] \<and> packet_sent s = 3"
proof -
  have "map (\<lambda>i. nth_message 3 (int i)) [0..<3] = [letters 2, letters 3, letters 3]"
    by (simp add: upt_rec nth_message_def)
  then show ?thesis
    using repeat_lossless[of "''o''" 3 "1 / 2" 2 "replicate 2 (data_pkt 1 0)"]
    by (auto simp: lossless_def in_time_def)
qed

end
