(* ===== verification/Legacy_Header.thy ===== *)
theory Legacy_Header
  imports Startup
begin

text \<open>
  \<open>message.h\<close> of the first version of the backup program (\<open>src/original-labs\<close>) is not in the repository.
  Its command codes, its array sizes and the layout of its two structures are a parameter \<open>header\<close> of
  everything below; sizes are read as \<open>size_t\<close>; an object is the string of its bytes, and a member is read and written by functions
  of the parameter. \<open>header_ok\<close> states what C++ says of any structure: objects keep their size, a member
  reads as it was written, writing one member leaves the others
  alone, and a zeroed object holds a zeroed array. \<open>show_cmd\<close> is what \<open><<\<close> prints for the member \<open>cmd\<close>, as a
  character or as a number. \<open>labs_header\<close> is an instance.
\<close>

section \<open>The parameter\<close>

record header =
  CMD_LS :: int
  CMD_SEND :: int
  CMD_REMOVE :: int
  CMD_RENAME :: int
  CMD_SHUTDOWN :: int
  CMD_ACK :: int
  name_len :: nat
  data_len :: nat
  cmd_bytes :: nat
  data_bytes :: nat
  get_cmd :: "string \<Rightarrow> int"
  get_filename :: "string \<Rightarrow> string"
  get_size :: "string \<Rightarrow> nat"
  get_error :: "string \<Rightarrow> int"
  put_cmd :: "int \<Rightarrow> string \<Rightarrow> string"
  put_filename :: "string \<Rightarrow> string \<Rightarrow> string"
  put_size :: "nat \<Rightarrow> string \<Rightarrow> string"
  put_error :: "int \<Rightarrow> string \<Rightarrow> string"
  get_data :: "string \<Rightarrow> string"
  put_data :: "string \<Rightarrow> string \<Rightarrow> string"
  show_cmd :: "int \<Rightarrow> string"

text \<open>Both programs define these two codes themselves.\<close>

definition CMD_FILE_EXISTS :: int where
  "CMD_FILE_EXISTS = 9"

definition CMD_OVERWRITE :: int where
  "CMD_OVERWRITE = 10"

definition codes :: "header \<Rightarrow> int set" where
  "codes h = {CMD_LS h, CMD_SEND h, CMD_REMOVE h, CMD_RENAME h, CMD_SHUTDOWN h, CMD_ACK h, CMD_FILE_EXISTS, CMD_OVERWRITE}"

definition cmd_object :: "header \<Rightarrow> string \<Rightarrow> bool" where
  "cmd_object h x \<longleftrightarrow> length x = cmd_bytes h"

definition header_ok :: "header \<Rightarrow> bool" where
  "header_ok h \<longleftrightarrow>
     0 < cmd_bytes h \<and> 0 < name_len h \<and> 0 < data_len h \<and> data_len h \<le> data_bytes h \<and>
     distinct [CMD_LS h, CMD_SEND h, CMD_REMOVE h, CMD_RENAME h, CMD_SHUTDOWN h, CMD_ACK h, CMD_FILE_EXISTS, CMD_OVERWRITE] \<and>
     (\<forall>c \<in> codes h. 0 \<le> c \<and> c < 11) \<and>
     (\<forall>x. cmd_object h x \<longrightarrow> length (get_filename h x) = name_len h) \<and>
     (\<forall>x c. cmd_object h x \<longrightarrow> cmd_object h (put_cmd h c x) \<and> get_filename h (put_cmd h c x) = get_filename h x \<and>
        get_size h (put_cmd h c x) = get_size h x \<and> get_error h (put_cmd h c x) = get_error h x \<and>
        (c \<in> codes h \<longrightarrow> get_cmd h (put_cmd h c x) = c)) \<and>
     (\<forall>x e. cmd_object h x \<longrightarrow> cmd_object h (put_error h e x) \<and> get_filename h (put_error h e x) = get_filename h x \<and>
        get_size h (put_error h e x) = get_size h x \<and> get_cmd h (put_error h e x) = get_cmd h x \<and>
        (0 \<le> e \<and> e \<le> 2 \<longrightarrow> get_error h (put_error h e x) = e)) \<and>
     (\<forall>x n. cmd_object h x \<longrightarrow> cmd_object h (put_size h n x) \<and> get_filename h (put_size h n x) = get_filename h x \<and>
        get_error h (put_size h n x) = get_error h x \<and> get_cmd h (put_size h n x) = get_cmd h x \<and>
        (n < 2 ^ 31 \<longrightarrow> get_size h (put_size h n x) = n)) \<and>
     (\<forall>x f. cmd_object h x \<longrightarrow> length f = name_len h \<longrightarrow> cmd_object h (put_filename h f x) \<and>
        get_filename h (put_filename h f x) = f \<and> get_size h (put_filename h f x) = get_size h x \<and>
        get_error h (put_filename h f x) = get_error h x \<and> get_cmd h (put_filename h f x) = get_cmd h x) \<and>
     (\<forall>x. length x = data_bytes h \<longrightarrow> length (get_data h x) = data_len h) \<and>
     get_data h (zeros (data_bytes h)) = zeros (data_len h) \<and>
     (\<forall>x d. length x = data_bytes h \<longrightarrow> length d = data_len h \<longrightarrow>
        length (put_data h d x) = data_bytes h \<and> get_data h (put_data h d x) = d)"

section \<open>An instance\<close>

text \<open>The codes and the layout of the later version of the program.\<close>

definition on_cmd :: "(cmd_msg \<Rightarrow> cmd_msg) \<Rightarrow> string \<Rightarrow> string" where
  "on_cmd f x = encode_cmd LittleEndian (f (decode_cmd LittleEndian x))"

definition labs_header :: header where
  "labs_header =
     \<lparr>CMD_LS = 1, CMD_SEND = 2, CMD_REMOVE = 4, CMD_RENAME = 5, CMD_SHUTDOWN = 6, CMD_ACK = 7,
      name_len = FILE_NAME_LEN, data_len = DATA_BUF_LEN, cmd_bytes = CMD_MSG_LEN, data_bytes = DATA_BUF_LEN,
      get_cmd = \<lambda>x. uint (m_cmd (decode_cmd LittleEndian x)),
      get_filename = \<lambda>x. m_filename (decode_cmd LittleEndian x),
      get_size = \<lambda>x. unat (m_size (decode_cmd LittleEndian x)),
      get_error = \<lambda>x. uint (m_error (decode_cmd LittleEndian x)),
      put_cmd = \<lambda>c. on_cmd (m_cmd_update (\<lambda>_. of_int c)),
      put_filename = \<lambda>f. on_cmd (m_filename_update (\<lambda>_. f)),
      put_size = \<lambda>n. on_cmd (m_size_update (\<lambda>_. of_nat n)),
      put_error = \<lambda>e. on_cmd (m_error_update (\<lambda>_. of_int e)),
      get_data = \<lambda>x. x, put_data = \<lambda>d x. d, show_cmd = \<lambda>c. [char_of (nat c)]\<rparr>"

lemma on_cmd:
  assumes "length x = CMD_MSG_LEN" "\<And>m. valid_msg m \<Longrightarrow> valid_msg (f m)"
  shows "length (on_cmd f x) = CMD_MSG_LEN \<and> decode_cmd LittleEndian (on_cmd f x) = f (decode_cmd LittleEndian x)"
proof -
  have "valid_msg (decode_cmd LittleEndian x)" using assms(1) by simp
  then have "valid_msg (f (decode_cmd LittleEndian x))" by (rule assms(2))
  then show ?thesis
    unfolding on_cmd_def using cmd_codec.enc_width cmd_codec.dec_enc by blast
qed

lemma labs_members:
  assumes "length x = CMD_MSG_LEN"
  shows "decode_cmd LittleEndian (on_cmd (m_cmd_update (\<lambda>_. a)) x) = (decode_cmd LittleEndian x)\<lparr>m_cmd := a\<rparr>"
    "decode_cmd LittleEndian (on_cmd (m_size_update (\<lambda>_. n)) x) = (decode_cmd LittleEndian x)\<lparr>m_size := n\<rparr>"
    "decode_cmd LittleEndian (on_cmd (m_error_update (\<lambda>_. e)) x) = (decode_cmd LittleEndian x)\<lparr>m_error := e\<rparr>"
    "length f = FILE_NAME_LEN \<Longrightarrow>
       decode_cmd LittleEndian (on_cmd (m_filename_update (\<lambda>_. f)) x) = (decode_cmd LittleEndian x)\<lparr>m_filename := f\<rparr>"
    "length (on_cmd (m_cmd_update (\<lambda>_. a)) x) = CMD_MSG_LEN" "length (on_cmd (m_size_update (\<lambda>_. n)) x) = CMD_MSG_LEN"
    "length (on_cmd (m_error_update (\<lambda>_. e)) x) = CMD_MSG_LEN"
    "length f = FILE_NAME_LEN \<Longrightarrow> length (on_cmd (m_filename_update (\<lambda>_. f)) x) = CMD_MSG_LEN"
  using on_cmd[OF assms, of "m_cmd_update (\<lambda>_. a)"] on_cmd[OF assms, of "m_size_update (\<lambda>_. n)"]
    on_cmd[OF assms, of "m_error_update (\<lambda>_. e)"] on_cmd[OF assms, of "m_filename_update (\<lambda>_. f)"]
  by (simp_all add: valid_msg_def)

lemma code_byte: "0 \<le> c \<Longrightarrow> c < 11 \<Longrightarrow> uint (of_int c :: u8) = c"
  by (simp add: uint_word_of_int)

lemma labs_codes: "c \<in> codes labs_header \<Longrightarrow> 0 \<le> c \<and> c < 11"
  by (auto simp: codes_def labs_header_def CMD_FILE_EXISTS_def CMD_OVERWRITE_def)

lemma labs_header_ok: "header_ok labs_header"
proof -
  have "length (m_filename (decode_cmd LittleEndian x)) = FILE_NAME_LEN" if "length x = CMD_MSG_LEN" for x
    using that by (simp add: decode_cmd_def FILE_NAME_LEN_def CMD_MSG_LEN_def)
  moreover have "uint (of_int e :: u16) = e" if "0 \<le> e" "e \<le> 2" for e
    using that by (simp add: uint_word_of_int)
  moreover have "unat (of_nat n :: u32) = n" if "n < 2 ^ 31" for n
    using that by (simp add: unat_of_nat)
  moreover have "uint (of_int c :: u8) = c" if "c \<in> codes labs_header" for c
    using labs_codes[OF that] code_byte by blast
  moreover have "distinct [CMD_LS labs_header, CMD_SEND labs_header, CMD_REMOVE labs_header, CMD_RENAME labs_header,
      CMD_SHUTDOWN labs_header, CMD_ACK labs_header, CMD_FILE_EXISTS, CMD_OVERWRITE]"
    by (simp add: labs_header_def CMD_FILE_EXISTS_def CMD_OVERWRITE_def)
  ultimately show ?thesis
    using labs_codes labs_members
    unfolding header_ok_def cmd_object_def
    by (simp add: labs_header_def CMD_MSG_LEN_def FILE_NAME_LEN_def DATA_BUF_LEN_def)
qed

end
