(* ===== verification/Legacy_Server.thy ===== *)
theory Legacy_Server
  imports Legacy_Header
begin

text \<open>
  The server of the first version, \<open>src/original-labs/server.cc\<close>: the variables of \<open>main\<close> are a record, a
  round of its loop is a receive, the switch over the command and the switch over the state. The socket
  is non-blocking; times are in units of the pause of the loop, 100 microseconds. \<open>None\<close> is a round that
  does not come back: a call that blocks for ever, or undefined behaviour. What is printed is left out,
  but printing \<open>cmd_msg.filename\<close> reads it as a C string.
\<close>

section \<open>State\<close>

datatype Server_State_T =
    WAITING | PROCESS_LS | PROCESS_SEND | PROCESS_GET | PROCESS_REMOVE | PROCESS_RENAME | SHUTDOWN

record legacy =
  server_state :: Server_State_T
  cmd_msg :: string
  ack_msg :: string
  data_msg :: string
  client_addr :: addr
  first_run :: bool
  current_tcp_port :: int
  l_os :: os
  l_sessions :: "tcp_session list"

definition l_files :: "legacy \<Rightarrow> filesystem" where
  "l_files s = fs (l_os s)"

definition set_l_files :: "filesystem \<Rightarrow> legacy \<Rightarrow> legacy" where
  "set_l_files f s = s\<lparr>l_os := (l_os s)\<lparr>fs := f\<rparr>\<rparr>"

section \<open>The standard library\<close>

text \<open>
  \<open>ifstream file(path); file.good()\<close>: a directory can be opened for reading, a pipe makes the call wait
  for a writer.
\<close>

definition checkFile :: "string \<Rightarrow> filesystem \<Rightarrow> bool option" where
  "checkFile fileName f =
     (case stat f fileName of
        None \<Rightarrow> Some False
      | Some Fifo \<Rightarrow> None
      | Some Socket \<Rightarrow> Some False
      | Some n \<Rightarrow> Some True)"

text \<open>Does the path end in \<open>.\<close> or \<open>..\<close>, which \<open>rmdir\<close> and \<open>rename\<close> refuse?\<close>

definition dotted :: "string \<Rightarrow> bool" where
  "dotted p \<longleftrightarrow> last (components (drop_trailing (\<lambda>c. c = slash) (c_str p))) \<in> {''.'', ''..''}"

definition rmdir :: "string \<Rightarrow> filesystem \<Rightarrow> filesystem option" where
  "rmdir p f =
     (case resolve f p of
        None \<Rightarrow> None
      | Some q \<Rightarrow>
          if q \<noteq> [] \<and> lookup f q = Some Directory \<and> children f q = [] \<and> writable f q \<and> \<not> dotted p
          then Some (del_node q f) else None)"

text \<open>\<open>remove\<close> takes files and empty directories.\<close>

definition remove :: "string \<Rightarrow> filesystem \<Rightarrow> bool \<times> filesystem" where
  "remove p f =
     (case unlink p f of
        Some f \<Rightarrow> (True, f)
      | None \<Rightarrow> (case rmdir p f of Some f \<Rightarrow> (True, f) | None \<Rightarrow> (False, f)))"

definition rename_path :: "string \<Rightarrow> string \<Rightarrow> filesystem \<Rightarrow> bool \<times> filesystem" where
  "rename_path old new f =
     (if dotted old \<or> dotted new then (False, f)
      else let new = (if stat f old = Some Directory then drop_trailing (\<lambda>c. c = slash) new else new)
           in case File_System.rename old new f of Some f \<Rightarrow> (True, f) | None \<Rightarrow> (False, f))"

definition checkDirectory :: "string \<Rightarrow> filesystem \<Rightarrow> filesystem" where
  "checkDirectory dir f =
     (case readdir dir f of
        Some names \<Rightarrow> f
      | None \<Rightarrow> (case mkdir dir f of Some f \<Rightarrow> f | None \<Rightarrow> f))"

definition getDirectory :: "string \<Rightarrow> filesystem \<Rightarrow> string list \<times> filesystem" where
  "getDirectory dir f =
     (case readdir dir f of
        Some names \<Rightarrow> (filter (\<lambda>n. n \<noteq> ''.'' \<and> n \<noteq> ''..'') names, f)
      | None \<Rightarrow> ([], case mkdir dir f of Some f \<Rightarrow> f | None \<Rightarrow> f))"

section \<open>Messages\<close>

text \<open>
  \<open>recvfrom\<close> over an object: its result, and the object, of which a short datagram leaves the rest as
  it was. An error leaves everything alone.
\<close>

definition l_receive :: "string \<Rightarrow> legacy \<Rightarrow> (int \<times> string \<times> legacy) option" where
  "l_receive object s =
     map_option (\<lambda>(r, w).
       case r of
         None \<Rightarrow> (-1, object, s\<lparr>l_os := w\<rparr>)
       | Some (a, d) \<Rightarrow> (int (length d), overlay object d, s\<lparr>l_os := w, client_addr := a\<rparr>))
       (recvfrom (length object) (l_os s))"

definition l_send :: "string \<Rightarrow> legacy \<Rightarrow> bool \<times> legacy" where
  "l_send d s = (case send_to (client_addr s) d (l_os s) of (sent, w) \<Rightarrow> (sent, s\<lparr>l_os := w\<rparr>))"

text \<open>\<open>ack_msg.cmd = c; ack_msg.error = e; sendto(..., &ack_msg, ...)\<close>: the size stays what it was.\<close>

definition answer :: "header \<Rightarrow> int \<Rightarrow> int \<Rightarrow> legacy \<Rightarrow> bool \<times> legacy" where
  "answer h c e s =
     (let s = s\<lparr>ack_msg := put_error h e (put_cmd h c (ack_msg s))\<rparr> in l_send (ack_msg s) s)"

definition answer_size :: "header \<Rightarrow> int \<Rightarrow> nat \<Rightarrow> legacy \<Rightarrow> bool \<times> legacy" where
  "answer_size h c n s =
     (let s = s\<lparr>ack_msg := put_size h n (put_error h 0 (put_cmd h c (ack_msg s)))\<rparr> in l_send (ack_msg s) s)"

section \<open>LS\<close>

fun pack_names :: "nat \<Rightarrow> string list \<Rightarrow> nat \<Rightarrow> string \<Rightarrow> string" where
  "pack_names len [] offset data = data"
| "pack_names len (file # rest) offset data =
     (if offset + length file + 1 < len
      then pack_names len rest (offset + length file + 1) (write_at offset (c_str file @ [NUL]) data)
      else pack_names len rest offset data)"

definition process_ls :: "header \<Rightarrow> legacy \<Rightarrow> legacy" where
  "process_ls h s =
     (let (names, f) = getDirectory ''backup'' (l_files s);
          s = set_l_files f s;
          object = zeros (data_bytes h);
          s = s\<lparr>data_msg := put_data h (pack_names (data_len h) names 0 (get_data h object)) object\<rparr>;
          s = snd (l_send (data_msg s) s)
      in s\<lparr>server_state := WAITING\<rparr>)"

section \<open>SEND and OVERWRITE\<close>

definition next_session :: "legacy \<Rightarrow> tcp_session \<times> legacy" where
  "next_session s =
     (case l_sessions s of [] \<Rightarrow> (NobodyConnects, s) | c # cs \<Rightarrow> (c, s\<lparr>l_sessions := cs\<rparr>))"

text \<open>The receive loop is the one the later version kept.\<close>

definition receive_tcp :: "header \<Rightarrow> string \<Rightarrow> nat \<Rightarrow> legacy \<Rightarrow> legacy option" where
  "receive_tcp h filepath filesize s =
     (let (session, s) = next_session s
      in case session of
           SocketFails \<Rightarrow> Some s
         | BindFails \<Rightarrow> Some s
         | ListenFails \<Rightarrow> Some s
         | _ \<Rightarrow>
             (case answer_size h (CMD_ACK h) (nat (current_tcp_port s)) s of
                (sent, s) \<Rightarrow>
                  if \<not> sent then Some s
                  else (case session of
                          Connected segments e \<Rightarrow>
                            (case write_file filepath [] (l_files s) of
                               None \<Rightarrow> Some s
                             | Some opened \<Rightarrow> do {
                                 content \<leftarrow> recvLoop filesize segments e [];
                                 f \<leftarrow> write_file filepath content opened;
                                 let s = (set_l_files f s)\<lparr>current_tcp_port := current_tcp_port s + 1\<rparr>;
                                 Some (snd (answer h (CMD_ACK h) 0 s))
                               })
                        | AcceptFails \<Rightarrow> Some s
                        | _ \<Rightarrow> None)))"

definition handle_overwrite :: "header \<Rightarrow> legacy \<Rightarrow> legacy option" where
  "handle_overwrite h s = do {
     filename \<leftarrow> c_array (get_filename h (cmd_msg s));
     if get_error h (cmd_msg s) = 0 then
       (if filename = [] then Some (s\<lparr>server_state := WAITING\<rparr>)
        else if data_len h < get_size h (cmd_msg s)
        then receive_tcp h (''backup/'' @ filename) (get_size h (cmd_msg s)) s
        else Some (snd (answer h (CMD_ACK h) 0 s)))
     else Some (snd (answer h (CMD_ACK h) 2 s))
   }"

text \<open>A small file: the data must be there already.\<close>

definition receive_small :: "header \<Rightarrow> string \<Rightarrow> nat \<Rightarrow> legacy \<Rightarrow> legacy option" where
  "receive_small h filepath filesize s = do {
     (n, object, s) \<leftarrow> l_receive (data_msg s) s;
     let s = s\<lparr>data_msg := object\<rparr>;
     if n < 0 then Some (snd (answer h (CMD_ACK h) 1 s))
     else (case write_file filepath (take filesize (get_data h object)) (l_files s) of
             None \<Rightarrow> Some (snd (answer h (CMD_ACK h) 1 s))
           | Some f \<Rightarrow> Some (snd (answer h (CMD_ACK h) 0 (set_l_files f s))))
   }"

definition process_send :: "header \<Rightarrow> legacy \<Rightarrow> legacy option" where
  "process_send h s = do {
     filename \<leftarrow> c_array (get_filename h (cmd_msg s));
     let filesize = get_size h (cmd_msg s);
     let filepath = ''backup/'' @ filename;
     file_exists \<leftarrow> checkFile filepath (l_files s);
     s \<leftarrow> (if file_exists then Some (snd (answer_size h CMD_FILE_EXISTS filesize s))
           else if filesize \<le> data_len h then receive_small h filepath filesize s
           else receive_tcp h filepath filesize s);
     Some (s\<lparr>server_state := WAITING\<rparr>)
   }"

section \<open>REMOVE and RENAME\<close>

definition process_remove :: "header \<Rightarrow> legacy \<Rightarrow> legacy option" where
  "process_remove h s = do {
     filename \<leftarrow> c_array (get_filename h (cmd_msg s));
     let filepath = ''backup/'' @ filename;
     file_exists \<leftarrow> checkFile filepath (l_files s);
     let s = (if \<not> file_exists then snd (answer h (CMD_ACK h) 1 s)
              else case remove filepath (l_files s) of
                     (removed, f) \<Rightarrow> snd (answer h (CMD_ACK h) (if removed then 0 else 1) (set_l_files f s)));
     Some (s\<lparr>server_state := WAITING\<rparr>)
   }"

definition perform_rename :: "header \<Rightarrow> string \<Rightarrow> string \<Rightarrow> legacy \<Rightarrow> legacy" where
  "perform_rename h old_filepath new_filepath s =
     (case rename_path old_filepath new_filepath (l_files s) of
        (renamed, f) \<Rightarrow> snd (answer h (CMD_ACK h) (if renamed then 0 else 1) (set_l_files f s)))"

text \<open>The target exists: the server asks, and takes what is in the queue for the answer.\<close>

definition confirm_rename :: "header \<Rightarrow> string \<Rightarrow> string \<Rightarrow> string \<Rightarrow> legacy \<Rightarrow> legacy option" where
  "confirm_rename h confirm_msg old_filepath new_filepath s = do {
     let s = snd (answer h CMD_FILE_EXISTS 0 s);
     (n, confirm_msg, s) \<leftarrow> l_receive confirm_msg s;
     Some (if n < 0 then s
           else if get_cmd h confirm_msg \<noteq> CMD_OVERWRITE \<or> get_error h confirm_msg \<noteq> 0
           then snd (answer h (CMD_ACK h) 2 s)
           else perform_rename h old_filepath new_filepath (set_l_files (snd (remove new_filepath (l_files s))) s))
   }"

text \<open>\<open>ram\<close> is what the uninitialised \<open>confirm_msg\<close> holds.\<close>

definition process_rename :: "header \<Rightarrow> string \<Rightarrow> legacy \<Rightarrow> legacy option" where
  "process_rename h ram s = do {
     old_filename \<leftarrow> c_array (get_filename h (cmd_msg s));
     let old_filepath = ''backup/'' @ old_filename;
     old_exists \<leftarrow> checkFile old_filepath (l_files s);
     s \<leftarrow> (if \<not> old_exists then Some (snd (answer h (CMD_ACK h) 1 s))
           else do {
             (n, object, s) \<leftarrow> l_receive (data_msg s) s;
             let s = s\<lparr>data_msg := object\<rparr>;
             if n < 0 then Some s
             else do {
               new_filename \<leftarrow> c_array (get_data h object);
               let new_filepath = ''backup/'' @ new_filename;
               new_exists \<leftarrow> checkFile new_filepath (l_files s);
               if new_exists then confirm_rename h ram old_filepath new_filepath s
               else Some (perform_rename h old_filepath new_filepath s)
             }
           });
     Some (s\<lparr>server_state := WAITING\<rparr>)
   }"

section \<open>The loop\<close>

text \<open>The first switch: which state the command leads to. The names of the commands are an array of eleven.\<close>

definition dispatch :: "header \<Rightarrow> legacy \<Rightarrow> legacy option" where
  "dispatch h s =
     (let c = get_cmd h (cmd_msg s)
      in if c < 0 \<or> 11 \<le> c then None
         else if c = CMD_LS h then Some (s\<lparr>server_state := PROCESS_LS\<rparr>)
         else if c = CMD_SEND h then Some (s\<lparr>server_state := PROCESS_SEND\<rparr>)
         else if c = CMD_REMOVE h then Some (s\<lparr>server_state := PROCESS_REMOVE\<rparr>)
         else if c = CMD_RENAME h then Some (s\<lparr>server_state := PROCESS_RENAME\<rparr>)
         else if c = CMD_SHUTDOWN h then Some (s\<lparr>server_state := SHUTDOWN\<rparr>)
         else if c = CMD_OVERWRITE then handle_overwrite h s
         else Some (s\<lparr>server_state := WAITING\<rparr>))"

definition pause :: "legacy \<Rightarrow> legacy" where
  "pause s = s\<lparr>l_os := (l_os s)\<lparr>clock := clock (l_os s) + 1\<rparr>\<rparr>"

definition receive_command :: "header \<Rightarrow> legacy \<Rightarrow> legacy option" where
  "receive_command h s = do {
     (recv_len, object, s) \<leftarrow> l_receive (cmd_msg s) (pause s);
     let s = s\<lparr>cmd_msg := object\<rparr>;
     if 0 < recv_len then dispatch h s else Some s
   }"

text \<open>A round; its Boolean says whether another one follows.\<close>

definition legacy_round :: "header \<Rightarrow> string \<Rightarrow> legacy \<Rightarrow> (bool \<times> legacy) option" where
  "legacy_round h ram s = do {
     s \<leftarrow> receive_command h s;
     case server_state s of
       WAITING \<Rightarrow> Some (True, s\<lparr>first_run := False\<rparr>)
     | PROCESS_LS \<Rightarrow> Some (True, process_ls h s)
     | PROCESS_SEND \<Rightarrow> map_option (Pair True) (process_send h s)
     | PROCESS_REMOVE \<Rightarrow> map_option (Pair True) (process_remove h s)
     | PROCESS_RENAME \<Rightarrow> map_option (Pair True) (process_rename h ram s)
     | SHUTDOWN \<Rightarrow> Some (False, s)
     | _ \<Rightarrow> Some (True, s\<lparr>server_state := WAITING\<rparr>)
   }"

partial_function (option) legacy_loop :: "header \<Rightarrow> string \<Rightarrow> legacy \<Rightarrow> legacy option" where
  "legacy_loop h ram s =
     Option.bind (legacy_round h ram s) (\<lambda>(more, s). if more then legacy_loop h ram s else Some s)"

text \<open>
  \<open>main\<close>: the arguments without the program name, whether \<open>socket\<close> and \<open>bind\<close> succeed, the environment,
  and what the uninitialised messages hold. The result is the exit code; \<open>bind\<close> is given the port.
\<close>

definition server_port :: "string list \<Rightarrow> u16 option option" where
  "server_port arguments =
     (case arguments of
        [] \<Rightarrow> Some (Some 0)
      | [a, v] \<Rightarrow> if a = ''-port'' then map_option (\<lambda>n. Some (of_int n)) (atoi v) else Some None
      | _ \<Rightarrow> Some None)"

definition legacy_start :: "os \<Rightarrow> tcp_session list \<Rightarrow> string \<Rightarrow> string \<Rightarrow> string \<Rightarrow> legacy" where
  "legacy_start w tcp cmd ack data =
     \<lparr>server_state = WAITING, cmd_msg = cmd, ack_msg = ack, data_msg = data, client_addr = (0, 0), first_run = True,
      current_tcp_port = 40000, l_os = (set_nonblocking w)\<lparr>fs := checkDirectory ''backup'' (fs w)\<rparr>, l_sessions = tcp\<rparr>"

definition legacy_main ::
  "header \<Rightarrow> string list \<Rightarrow> bool \<Rightarrow> (u16 \<Rightarrow> bool) \<Rightarrow> os \<Rightarrow> tcp_session list \<Rightarrow> string \<Rightarrow> string \<Rightarrow> string \<Rightarrow> string \<Rightarrow> int option"
where
  "legacy_main h arguments created bound w tcp cmd ack data ram = do {
     port \<leftarrow> server_port arguments;
     case port of
       None \<Rightarrow> Some 1
     | Some udp_port \<Rightarrow>
         if \<not> created \<or> \<not> bound udp_port then Some 1
         else map_option (\<lambda>_. 0) (legacy_loop h ram (legacy_start w tcp cmd ack data))
   }"

end
