(* ===== verification/Legacy_Spec.thy ===== *)
theory Legacy_Spec
  imports Legacy_Server Server_Transfer Emulator
begin

text \<open>
  What the first version of the server does: the objects of \<open>main\<close> keep their sizes and every round
  that goes on ends in the waiting state; removing, renaming and uploading do what they say to the path
  they are given, which may lie anywhere, since no name is validated; an existing file is never
  overwritten by a small upload, although the server acknowledges it.
\<close>

section \<open>The invariant\<close>

definition objects_ok :: "header \<Rightarrow> legacy \<Rightarrow> bool" where
  "objects_ok h s \<longleftrightarrow>
     cmd_object h (cmd_msg s) \<and> cmd_object h (ack_msg s) \<and> length (data_msg s) = data_bytes h \<and> nonblocking (l_os s)"

definition legacy_ok :: "header \<Rightarrow> legacy \<Rightarrow> bool" where
  "legacy_ok h s \<longleftrightarrow> objects_ok h s \<and> server_state s = WAITING"

text \<open>What an answer leaves alone, and what it sends.\<close>

lemma send_keeps [simp]:
  "server_state (snd (l_send d s)) = server_state s" "cmd_msg (snd (l_send d s)) = cmd_msg s"
  "ack_msg (snd (l_send d s)) = ack_msg s" "data_msg (snd (l_send d s)) = data_msg s"
  "client_addr (snd (l_send d s)) = client_addr s" "current_tcp_port (snd (l_send d s)) = current_tcp_port s"
  "l_sessions (snd (l_send d s)) = l_sessions s" "l_files (snd (l_send d s)) = l_files s"
  "nonblocking (l_os (snd (l_send d s))) = nonblocking (l_os s)" "incoming (l_os (snd (l_send d s))) = incoming (l_os s)"
  by (simp_all add: l_send_def l_files_def case_prod_beta)

lemma set_files_keeps [simp]:
  "server_state (set_l_files f s) = server_state s" "cmd_msg (set_l_files f s) = cmd_msg s"
  "ack_msg (set_l_files f s) = ack_msg s" "data_msg (set_l_files f s) = data_msg s"
  "client_addr (set_l_files f s) = client_addr s" "current_tcp_port (set_l_files f s) = current_tcp_port s"
  "l_sessions (set_l_files f s) = l_sessions s" "l_files (set_l_files f s) = f"
  "nonblocking (l_os (set_l_files f s)) = nonblocking (l_os s)" "incoming (l_os (set_l_files f s)) = incoming (l_os s)"
  "outgoing (l_os (set_l_files f s)) = outgoing (l_os s)" "send_script (l_os (set_l_files f s)) = send_script (l_os s)"
  "clock (l_os (set_l_files f s)) = clock (l_os s)"
  by (simp_all add: set_l_files_def l_files_def)

lemma answer_keeps [simp]:
  "server_state (snd (answer h c e s)) = server_state s" "cmd_msg (snd (answer h c e s)) = cmd_msg s"
  "data_msg (snd (answer h c e s)) = data_msg s" "client_addr (snd (answer h c e s)) = client_addr s"
  "current_tcp_port (snd (answer h c e s)) = current_tcp_port s" "l_sessions (snd (answer h c e s)) = l_sessions s"
  "l_files (snd (answer h c e s)) = l_files s" "nonblocking (l_os (snd (answer h c e s))) = nonblocking (l_os s)"
  "incoming (l_os (snd (answer h c e s))) = incoming (l_os s)"
  "ack_msg (snd (answer h c e s)) = put_error h e (put_cmd h c (ack_msg s))"
  "server_state (snd (answer_size h c n s)) = server_state s" "cmd_msg (snd (answer_size h c n s)) = cmd_msg s"
  "data_msg (snd (answer_size h c n s)) = data_msg s" "client_addr (snd (answer_size h c n s)) = client_addr s"
  "current_tcp_port (snd (answer_size h c n s)) = current_tcp_port s" "l_sessions (snd (answer_size h c n s)) = l_sessions s"
  "l_files (snd (answer_size h c n s)) = l_files s" "nonblocking (l_os (snd (answer_size h c n s))) = nonblocking (l_os s)"
  "incoming (l_os (snd (answer_size h c n s))) = incoming (l_os s)"
  "ack_msg (snd (answer_size h c n s)) = put_size h n (put_error h 0 (put_cmd h c (ack_msg s)))"
  by (simp_all add: answer_def answer_size_def Let_def) (simp_all add: l_files_def)

definition replied :: "header \<Rightarrow> int \<Rightarrow> int \<Rightarrow> (addr \<times> string) list \<Rightarrow> legacy \<Rightarrow> bool" where
  "replied h c e before t \<longleftrightarrow>
     (\<exists>d. outgoing (l_os t) = before @ [(client_addr t, d)] \<and> get_cmd h d = c \<and> get_error h d = e)"

lemma header_members:
  assumes "header_ok h" "cmd_object h x"
  shows "cmd_object h (put_cmd h c x)" "cmd_object h (put_error h e x)" "cmd_object h (put_size h n x)"
    "length (get_filename h x) = name_len h"
    "c \<in> codes h \<Longrightarrow> get_cmd h (put_cmd h c x) = c" "get_error h (put_cmd h c x) = get_error h x"
    "get_cmd h (put_error h e x) = get_cmd h x" "0 \<le> e \<Longrightarrow> e \<le> 2 \<Longrightarrow> get_error h (put_error h e x) = e"
    "get_cmd h (put_size h n x) = get_cmd h x" "get_error h (put_size h n x) = get_error h x"
    "n < 2 ^ 31 \<Longrightarrow> get_size h (put_size h n x) = n"
  using assms by (simp_all add: header_ok_def)

lemma answer_objects [simp]:
  "header_ok h \<Longrightarrow> objects_ok h s \<Longrightarrow> objects_ok h (snd (answer h c e s))"
  "header_ok h \<Longrightarrow> objects_ok h s \<Longrightarrow> objects_ok h (snd (answer_size h c n s))"
  by (simp_all add: objects_ok_def header_members)

lemma answer_sent:
  assumes "header_ok h" "objects_ok h s" "send_script (l_os s) = []" "c \<in> codes h" "0 \<le> e" "e \<le> 2"
  shows "replied h c e (outgoing (l_os s)) (snd (answer h c e s))" "send_script (l_os (snd (answer h c e s))) = []"
    "fst (answer h c e s)"
proof -
  let ?d = "put_error h e (put_cmd h c (ack_msg s))"
  have "get_cmd h ?d = c" "get_error h ?d = e"
    using assms header_members[OF assms(1)] by (simp_all add: objects_ok_def)
  then show "replied h c e (outgoing (l_os s)) (snd (answer h c e s))" "send_script (l_os (snd (answer h c e s))) = []"
    "fst (answer h c e s)"
    using assms(3) by (simp_all add: replied_def answer_def Let_def l_send_def send_to_def)
qed

lemma answer_out:
  "send_script (l_os s) = [] \<Longrightarrow> outgoing (l_os (snd (answer h c e s))) =
     outgoing (l_os s) @ [(client_addr s, put_error h e (put_cmd h c (ack_msg s)))]"
  by (simp add: answer_def Let_def l_send_def send_to_def)

lemma answer_size_sent:
  assumes "header_ok h" "objects_ok h s" "send_script (l_os s) = []" "c \<in> codes h"
  shows "replied h c 0 (outgoing (l_os s)) (snd (answer_size h c n s))" "send_script (l_os (snd (answer_size h c n s))) = []"
    "fst (answer_size h c n s)"
proof -
  let ?d = "put_size h n (put_error h 0 (put_cmd h c (ack_msg s)))"
  have "get_cmd h ?d = c" "get_error h ?d = 0"
    using assms header_members[OF assms(1)] by (simp_all add: objects_ok_def)
  then show "replied h c 0 (outgoing (l_os s)) (snd (answer_size h c n s))" "send_script (l_os (snd (answer_size h c n s))) = []"
    "fst (answer_size h c n s)"
    using assms(3) by (simp_all add: replied_def answer_size_def Let_def l_send_def send_to_def)
qed

section \<open>Receiving\<close>

lemma receive_keeps:
  assumes "l_receive x s = Some (n, y, t)"
  shows "length y = length x \<and> l_files t = l_files s \<and> server_state t = server_state s \<and> cmd_msg t = cmd_msg s \<and>
    ack_msg t = ack_msg s \<and> data_msg t = data_msg s \<and> nonblocking (l_os t) = nonblocking (l_os s) \<and>
    outgoing (l_os t) = outgoing (l_os s) \<and> send_script (l_os t) = send_script (l_os s) \<and>
    current_tcp_port t = current_tcp_port s \<and> l_sessions t = l_sessions s"
proof -
  obtain r w where r: "recvfrom (length x) (l_os s) = Some (r, w)"
    and y: "(case r of None \<Rightarrow> (-1, x, s\<lparr>l_os := w\<rparr>)
      | Some (a, d) \<Rightarrow> (int (length d), overlay x d, s\<lparr>l_os := w, client_addr := a\<rparr>)) = (n, y, t)"
    using assms by (auto simp: l_receive_def)
  then show ?thesis using recvfrom_keeps[OF r] by (auto simp: l_files_def split: option.splits)
qed

text \<open>On the non-blocking socket a receive takes the datagram that has arrived, or fails.\<close>

lemma receive_arrived:
  assumes "incoming (l_os s) = (t, a, d) # rest" "t \<le> clock (l_os s)"
  shows "l_receive x s =
    Some (int (length (take (length x) d)), overlay x (take (length x) d),
      s\<lparr>l_os := (l_os s)\<lparr>incoming := rest\<rparr>, client_addr := a\<rparr>)"
  using assms by (simp add: l_receive_def recvfrom_def)

lemma receive_nothing:
  assumes "nonblocking (l_os s)" "\<And>t a d rest. incoming (l_os s) = (t, a, d) # rest \<Longrightarrow> clock (l_os s) < t"
  shows "l_receive x s = Some (-1, x, s)"
  using assms by (auto simp: l_receive_def recvfrom_def split: list.splits)

text \<open>The state after the receive of a round, and the rounds.\<close>

definition took :: "addr \<Rightarrow> string \<Rightarrow> (nat \<times> addr \<times> string) list \<Rightarrow> legacy \<Rightarrow> legacy" where
  "took a d rest s =
     s\<lparr>l_os := (l_os s)\<lparr>clock := clock (l_os s) + 1, incoming := rest\<rparr>, client_addr := a,
       cmd_msg := overlay (cmd_msg s) (take (length (cmd_msg s)) d)\<rparr>"

definition arrived :: "addr \<Rightarrow> string \<Rightarrow> (nat \<times> addr \<times> string) list \<Rightarrow> legacy \<Rightarrow> bool" where
  "arrived a d rest s \<longleftrightarrow> d \<noteq> [] \<and> (\<exists>t. incoming (l_os s) = (t, a, d) # rest \<and> t \<le> clock (l_os s) + 1)"

lemma took_simps [simp]:
  "cmd_msg (took a d rest s) = overlay (cmd_msg s) (take (length (cmd_msg s)) d)" "ack_msg (took a d rest s) = ack_msg s"
  "data_msg (took a d rest s) = data_msg s" "l_files (took a d rest s) = l_files s" "client_addr (took a d rest s) = a"
  "server_state (took a d rest s) = server_state s" "nonblocking (l_os (took a d rest s)) = nonblocking (l_os s)"
  "outgoing (l_os (took a d rest s)) = outgoing (l_os s)" "send_script (l_os (took a d rest s)) = send_script (l_os s)"
  "current_tcp_port (took a d rest s) = current_tcp_port s" "l_sessions (took a d rest s) = l_sessions s"
  "incoming (l_os (took a d rest s)) = rest" "clock (l_os (took a d rest s)) = clock (l_os s) + 1"
  by (simp_all add: took_def l_files_def)

lemma took_objects [simp]: "objects_ok h (took a d rest s) = objects_ok h s"
  by (simp add: objects_ok_def cmd_object_def)

lemma command_arrived:
  assumes "arrived a d rest s" "header_ok h" "objects_ok h s"
  shows "receive_command h s = dispatch h (took a d rest s)"
proof -
  have len: "0 < length (take (length (cmd_msg s)) d)"
    using assms by (simp add: arrived_def objects_ok_def cmd_object_def header_ok_def)
  obtain t where t: "incoming (l_os (pause s)) = (t, a, d) # rest" "t \<le> clock (l_os (pause s))"
    using assms(1) by (auto simp: arrived_def pause_def)
  show ?thesis
    using len by (simp add: Let_def receive_command_def receive_arrived[OF t] took_def) (simp add: pause_def)
qed

section \<open>The objects keep their sizes\<close>

lemma next_session_keeps [simp]:
  "objects_ok h (snd (next_session s)) = objects_ok h s" "server_state (snd (next_session s)) = server_state s"
  "l_files (snd (next_session s)) = l_files s" "send_script (l_os (snd (next_session s))) = send_script (l_os s)"
  "client_addr (snd (next_session s)) = client_addr s" "outgoing (l_os (snd (next_session s))) = outgoing (l_os s)"
  by (simp_all add: next_session_def objects_ok_def l_files_def split: list.split)

lemma set_files_objects [simp]: "objects_ok h (set_l_files f s) = objects_ok h s"
  by (simp add: objects_ok_def)

lemma port_objects [simp]: "objects_ok h (s\<lparr>current_tcp_port := p\<rparr>) = objects_ok h s"
  by (simp add: objects_ok_def)

lemma state_objects [simp]: "objects_ok h (s\<lparr>server_state := x\<rparr>) = objects_ok h s"
  by (simp add: objects_ok_def)

lemma receive_tcp_keeps:
  assumes "receive_tcp h p z s = Some t" "header_ok h" "objects_ok h s"
  shows "objects_ok h t \<and> server_state t = server_state s"
proof -
  obtain c u where u: "next_session s = (c, u)" by (cases "next_session s") auto
  then have "objects_ok h u" "server_state u = server_state s"
    using assms(3) next_session_keeps(1)[of h s] next_session_keeps(2)[of s] by simp_all
  moreover obtain b v where v: "answer_size h (CMD_ACK h) (nat (current_tcp_port u)) u = (b, v)" by (cases "answer_size h (CMD_ACK h) (nat (current_tcp_port u)) u") auto
  then have "v = snd (answer_size h (CMD_ACK h) (nat (current_tcp_port u)) u)" by simp
  ultimately have "objects_ok h v" "server_state v = server_state s" using assms(2) by simp_all
  with \<open>objects_ok h u\<close> \<open>server_state u = server_state s\<close> assms(1,2) show ?thesis
    by (auto simp: Let_def receive_tcp_def u v bind_eq_Some_conv split: tcp_session.splits if_splits option.splits)
qed

lemma receive_objects:
  "l_receive (data_msg s) s = Some (n, y, t) \<Longrightarrow> objects_ok h s \<Longrightarrow> objects_ok h (t\<lparr>data_msg := y\<rparr>)"
  using receive_keeps[of "data_msg s" s n y t] by (simp add: objects_ok_def)

lemma process_send_keeps:
  assumes "process_send h s = Some t" "header_ok h" "objects_ok h s"
  shows "legacy_ok h t"
proof -
  have "objects_ok h u" if "receive_small h p z s = Some u" for p z u
    using that assms(2) receive_objects[OF _ assms(3)]
    by (auto simp: Let_def receive_small_def bind_eq_Some_conv split: if_splits option.splits)
  then show ?thesis
    using assms receive_tcp_keeps[OF _ assms(2,3)]
    by (auto simp: Let_def process_send_def legacy_ok_def bind_eq_Some_conv split: if_splits)
qed

lemma process_remove_keeps:
  assumes "process_remove h s = Some t" "header_ok h" "objects_ok h s"
  shows "legacy_ok h t"
  using assms by (auto simp: Let_def process_remove_def legacy_ok_def bind_eq_Some_conv case_prod_beta)

lemma process_rename_keeps:
  assumes "process_rename h ram s = Some t" "header_ok h" "objects_ok h s"
  shows "legacy_ok h t"
proof -
  have p: "objects_ok h (perform_rename h old new u)" if "objects_ok h u" for old new u
    using that assms(2) by (simp add: Let_def perform_rename_def case_prod_beta)
  have "objects_ok h v" if c: "confirm_rename h ram old new u = Some v" "objects_ok h u" for old new u v
  proof -
    let ?a = "snd (answer h CMD_FILE_EXISTS 0 u)"
    obtain n m w where w: "l_receive ram ?a = Some (n, m, w)" using c(1) by (auto simp: Let_def confirm_rename_def bind_eq_Some_conv)
    have "objects_ok h ?a" using c(2) assms(2) by simp
    then have "objects_ok h w" using receive_keeps[OF w] by (simp add: objects_ok_def)
    then show ?thesis using c(1) w assms(2) p by (auto simp: Let_def confirm_rename_def split: if_splits)
  qed
  then show ?thesis
    using assms p receive_objects[OF _ assms(3)]
    by (auto simp: Let_def process_rename_def legacy_ok_def bind_eq_Some_conv split: if_splits)
qed

lemma length_pack_names: "length data = len \<Longrightarrow> length (pack_names len names offset data) = len"
proof (induction names arbitrary: offset data)
  case (Cons n rest)
  have "length (write_at offset (c_str n @ [NUL]) data) = length data" if "offset + length n + 1 < len"
    using that Cons.prems length_c_str_le[of n] by (intro length_write_at) simp
  with Cons show ?case by simp
qed simp

lemma process_ls_keeps:
  assumes "header_ok h" "objects_ok h s"
  shows "legacy_ok h (process_ls h s)"
proof -
  have d: "length (get_data h x) = data_len h" "length y = data_len h \<Longrightarrow> length (put_data h y x) = data_bytes h"
    if "length x = data_bytes h" for x y
    using that assms(1) by (simp_all add: header_ok_def)
  show ?thesis
    using assms(2) d length_pack_names by (simp add: Let_def process_ls_def legacy_ok_def objects_ok_def case_prod_beta)
qed

lemma handle_overwrite_keeps:
  "handle_overwrite h s = Some t \<Longrightarrow> header_ok h \<Longrightarrow> objects_ok h s \<Longrightarrow> server_state s = WAITING \<Longrightarrow> legacy_ok h t"
  by (auto simp: Let_def handle_overwrite_def legacy_ok_def bind_eq_Some_conv dest: receive_tcp_keeps split: if_splits)

lemma receive_command_keeps:
  assumes "receive_command h s = Some t" "header_ok h" "legacy_ok h s"
  shows "objects_ok h t"
proof -
  obtain n x u where u: "l_receive (cmd_msg s) (pause s) = Some (n, x, u)"
    "(if 0 < n then dispatch h (u\<lparr>cmd_msg := x\<rparr>) else Some (u\<lparr>cmd_msg := x\<rparr>)) = Some t"
    using assms(1) by (auto simp: Let_def receive_command_def bind_eq_Some_conv)
  have "objects_ok h (u\<lparr>cmd_msg := x\<rparr>)" "server_state (u\<lparr>cmd_msg := x\<rparr>) = WAITING"
    using receive_keeps[OF u(1)] assms(3) by (simp_all add: legacy_ok_def objects_ok_def cmd_object_def pause_def)
  with u(2) assms(2) show ?thesis
    by (auto simp: dispatch_def Let_def legacy_ok_def dest!: handle_overwrite_keeps split: if_splits)
qed

text \<open>A round that goes on keeps the invariant; only SHUTDOWN ends the loop.\<close>

lemma round_keeps:
  assumes "legacy_round h ram s = Some (goes, t)" "header_ok h" "legacy_ok h s"
  shows "(goes \<longrightarrow> legacy_ok h t) \<and> (\<not> goes \<longrightarrow> server_state t = SHUTDOWN)"
proof -
  obtain u where u: "receive_command h s = Some u" using assms(1) by (auto simp: Let_def legacy_round_def bind_eq_Some_conv)
  then have o: "objects_ok h u" using assms(2,3) by (rule receive_command_keeps)
  then show ?thesis
    using assms(1,2) u process_send_keeps process_remove_keeps process_rename_keeps process_ls_keeps
    by (cases "server_state u") (auto simp: Let_def legacy_round_def legacy_ok_def objects_ok_def)
qed

section \<open>Rounds\<close>

text \<open>A complete command message of code \<open>c\<close> for the file \<open>name\<close> has arrived, and sending works.\<close>

definition commanded ::
  "header \<Rightarrow> int \<Rightarrow> string \<Rightarrow> addr \<Rightarrow> string \<Rightarrow> (nat \<times> addr \<times> string) list \<Rightarrow> legacy \<Rightarrow> bool"
where
  "commanded h c name a d rest s \<longleftrightarrow>
     header_ok h \<and> legacy_ok h s \<and> send_script (l_os s) = [] \<and> arrived a d rest s \<and> cmd_object h d \<and>
     get_cmd h d = c \<and> c_array (get_filename h d) = Some name"

lemma commanded_took:
  assumes "commanded h c name a d rest s"
  shows "receive_command h s = dispatch h (took a d rest s)" "cmd_msg (took a d rest s) = d"
    "objects_ok h (took a d rest s)"
  using assms command_arrived[of a d rest s h]
  by (simp_all add: commanded_def legacy_ok_def objects_ok_def cmd_object_def)

lemma header_codes:
  assumes "header_ok h"
  shows "CMD_SEND h \<noteq> CMD_LS h" "CMD_REMOVE h \<noteq> CMD_LS h" "CMD_REMOVE h \<noteq> CMD_SEND h" "CMD_RENAME h \<noteq> CMD_LS h"
    "CMD_RENAME h \<noteq> CMD_SEND h" "CMD_RENAME h \<noteq> CMD_REMOVE h" "CMD_SHUTDOWN h \<noteq> CMD_LS h" "CMD_SHUTDOWN h \<noteq> CMD_SEND h"
    "CMD_SHUTDOWN h \<noteq> CMD_REMOVE h" "CMD_SHUTDOWN h \<noteq> CMD_RENAME h" "CMD_OVERWRITE \<noteq> CMD_LS h" "CMD_OVERWRITE \<noteq> CMD_SEND h"
    "CMD_OVERWRITE \<noteq> CMD_REMOVE h" "CMD_OVERWRITE \<noteq> CMD_RENAME h" "CMD_OVERWRITE \<noteq> CMD_SHUTDOWN h"
    "c \<in> codes h \<Longrightarrow> 0 \<le> c \<and> c < 11" "CMD_ACK h \<in> codes h" "CMD_FILE_EXISTS \<in> codes h"
  using assms by (auto simp: header_ok_def codes_def)

lemma codes_members [simp]:
  "CMD_LS h \<in> codes h" "CMD_SEND h \<in> codes h" "CMD_REMOVE h \<in> codes h" "CMD_RENAME h \<in> codes h"
  "CMD_SHUTDOWN h \<in> codes h" "CMD_ACK h \<in> codes h" "CMD_FILE_EXISTS \<in> codes h" "CMD_OVERWRITE \<in> codes h"
  by (simp_all add: codes_def)

definition entered :: "Server_State_T \<Rightarrow> addr \<Rightarrow> string \<Rightarrow> (nat \<times> addr \<times> string) list \<Rightarrow> legacy \<Rightarrow> legacy" where
  "entered x a d rest s = (took a d rest s)\<lparr>server_state := x\<rparr>"

lemma entered_simps [simp]:
  "server_state (entered x a d rest s) = x" "ack_msg (entered x a d rest s) = ack_msg s"
  "data_msg (entered x a d rest s) = data_msg s" "l_files (entered x a d rest s) = l_files s"
  "client_addr (entered x a d rest s) = a" "nonblocking (l_os (entered x a d rest s)) = nonblocking (l_os s)"
  "outgoing (l_os (entered x a d rest s)) = outgoing (l_os s)" "send_script (l_os (entered x a d rest s)) = send_script (l_os s)"
  "current_tcp_port (entered x a d rest s) = current_tcp_port s" "l_sessions (entered x a d rest s) = l_sessions s"
  "incoming (l_os (entered x a d rest s)) = rest" "clock (l_os (entered x a d rest s)) = clock (l_os s) + 1"
  by (simp_all add: entered_def l_files_def took_def)

lemma entered_ok:
  assumes "commanded h c name a d rest s"
  shows "objects_ok h (entered x a d rest s)" "cmd_msg (entered x a d rest s) = d" "send_script (l_os s) = []" "header_ok h"
  using commanded_took[OF assms] assms by (simp_all add: entered_def commanded_def objects_ok_def)

lemma dispatched:
  assumes "header_ok h"
  shows "get_cmd h (cmd_msg t) = CMD_LS h \<Longrightarrow> dispatch h t = Some (t\<lparr>server_state := PROCESS_LS\<rparr>)"
    "get_cmd h (cmd_msg t) = CMD_SEND h \<Longrightarrow> dispatch h t = Some (t\<lparr>server_state := PROCESS_SEND\<rparr>)"
    "get_cmd h (cmd_msg t) = CMD_REMOVE h \<Longrightarrow> dispatch h t = Some (t\<lparr>server_state := PROCESS_REMOVE\<rparr>)"
    "get_cmd h (cmd_msg t) = CMD_RENAME h \<Longrightarrow> dispatch h t = Some (t\<lparr>server_state := PROCESS_RENAME\<rparr>)"
    "get_cmd h (cmd_msg t) = CMD_SHUTDOWN h \<Longrightarrow> dispatch h t = Some (t\<lparr>server_state := SHUTDOWN\<rparr>)"
    "get_cmd h (cmd_msg t) = CMD_OVERWRITE \<Longrightarrow> dispatch h t = handle_overwrite h t"
  using header_codes(1-15)[OF assms] header_codes(16)[OF assms, of "get_cmd h (cmd_msg t)"]
  by (auto simp: dispatch_def Let_def)

lemma rounds:
  assumes "commanded h c name a d rest s"
  shows "c = CMD_LS h \<Longrightarrow> legacy_round h ram s = Some (True, process_ls h (entered PROCESS_LS a d rest s))"
    "c = CMD_SEND h \<Longrightarrow>
       legacy_round h ram s = map_option (Pair True) (process_send h (entered PROCESS_SEND a d rest s))"
    "c = CMD_REMOVE h \<Longrightarrow>
       legacy_round h ram s = map_option (Pair True) (process_remove h (entered PROCESS_REMOVE a d rest s))"
    "c = CMD_RENAME h \<Longrightarrow>
       legacy_round h ram s = map_option (Pair True) (process_rename h ram (entered PROCESS_RENAME a d rest s))"
    "c = CMD_SHUTDOWN h \<Longrightarrow> legacy_round h ram s = Some (False, entered SHUTDOWN a d rest s)"
proof -
  have d: "receive_command h s = dispatch h (took a d rest s)" "get_cmd h (cmd_msg (took a d rest s)) = c" "header_ok h"
    using commanded_took[OF assms] assms by (simp_all add: commanded_def)
  note e = dispatched[OF d(3), of "took a d rest s"]
  show "c = CMD_LS h \<Longrightarrow> legacy_round h ram s = Some (True, process_ls h (entered PROCESS_LS a d rest s))"
    using e(1) d by (simp add: legacy_round_def entered_def)
  show "c = CMD_SEND h \<Longrightarrow>
       legacy_round h ram s = map_option (Pair True) (process_send h (entered PROCESS_SEND a d rest s))"
    using e(2) d by (simp add: legacy_round_def entered_def)
  show "c = CMD_REMOVE h \<Longrightarrow>
       legacy_round h ram s = map_option (Pair True) (process_remove h (entered PROCESS_REMOVE a d rest s))"
    using e(3) d by (simp add: legacy_round_def entered_def)
  show "c = CMD_RENAME h \<Longrightarrow>
       legacy_round h ram s = map_option (Pair True) (process_rename h ram (entered PROCESS_RENAME a d rest s))"
    using e(4) d by (simp add: legacy_round_def entered_def)
  show "c = CMD_SHUTDOWN h \<Longrightarrow> legacy_round h ram s = Some (False, entered SHUTDOWN a d rest s)"
    using e(5) d by (simp add: legacy_round_def entered_def)
qed

section \<open>Removing\<close>

lemma checkFile_regular: "stat f p = Some (RegularFile x) \<Longrightarrow> checkFile p f = Some True"
  by (simp add: checkFile_def)

lemma checkFile_missing: "stat f p = None \<Longrightarrow> checkFile p f = Some False"
  by (simp add: checkFile_def)

lemma stat_lookup: "resolve f p = Some q \<Longrightarrow> stat f p = lookup f q"
  by (simp add: stat_def)

lemma remove_regular:
  assumes "resolve f p = Some q" "lookup f q = Some (RegularFile x)" "writable f q"
  shows "remove p f = (True, del_node q f)" "lookup (del_node q f) = (lookup f)(q := None)"
proof -
  have "q \<noteq> []" using assms(2) by (auto simp: lookup_def)
  then show "lookup (del_node q f) = (lookup f)(q := None)" by (auto simp: lookup_del_node)
qed (use assms in \<open>simp add: remove_def unlink_def\<close>)

lemma replied_state [simp]: "replied h c e before (t\<lparr>server_state := x\<rparr>) = replied h c e before t"
  by (simp add: replied_def)

lemma files_state [simp]:
  "l_files (t\<lparr>server_state := x\<rparr>) = l_files t" "l_files (t\<lparr>l_sessions := y\<rparr>) = l_files t"
  "l_files (t\<lparr>current_tcp_port := z\<rparr>) = l_files t"
  by (simp_all add: l_files_def)

lemma remove_answered:
  assumes "commanded h (CMD_REMOVE h) name a d rest s"
    and "resolve (l_files s) (''backup/'' @ name) = Some q" "lookup (l_files s) q = Some (RegularFile x)"
    and "writable (l_files s) q"
  shows "\<exists>t r. legacy_round h ram s = Some (True, t) \<and> legacy_ok h t \<and> lookup (l_files t) = (lookup (l_files s))(q := None) \<and>
    client_addr t = a \<and> outgoing (l_os t) = outgoing (l_os s) @ [(a, r)] \<and>
    cmd_object h r \<and> get_cmd h r = CMD_ACK h \<and> get_error h r = 0"
proof -
  let ?u = "entered PROCESS_REMOVE a d rest s"
  note u = entered_ok(1,2)[OF assms(1), of PROCESS_REMOVE] entered_ok(3,4)[OF assms(1)]
  define v where "v = set_l_files (del_node q (l_files s)) ?u"
  define t where "t = snd (answer h (CMD_ACK h) 0 v)"
  have n: "c_array (get_filename h d) = Some name" using assms(1) by (simp add: commanded_def)
  have "checkFile (''backup/'' @ name) (l_files s) = Some True"
    using assms(2,3) by (intro checkFile_regular) (simp add: stat_lookup)
  then have "process_remove h ?u = Some (t\<lparr>server_state := WAITING\<rparr>)"
    using n u(2) remove_regular(1)[OF assms(2-4)] by (simp add: process_remove_def Let_def v_def t_def)
  then have "legacy_round h ram s = Some (True, t\<lparr>server_state := WAITING\<rparr>)" using rounds(3)[OF assms(1)] by simp
  moreover have "outgoing (l_os t) = outgoing (l_os s) @ [(a, put_error h 0 (put_cmd h (CMD_ACK h) (ack_msg s)))]"
    using u(3) by (simp add: t_def v_def answer_out)
  moreover have "legacy_ok h (t\<lparr>server_state := WAITING\<rparr>)" "client_addr t = a" using u by (simp_all add: legacy_ok_def v_def t_def)
  moreover have "lookup (l_files t) = (lookup (l_files s))(q := None)"
    using remove_regular(2)[OF assms(2-4)] by (simp add: v_def t_def)
  moreover have "cmd_object h (ack_msg s)" using u(1) by (simp add: objects_ok_def)
  ultimately show ?thesis
    using header_members[OF u(4)]
    by (intro exI[of _ "t\<lparr>server_state := WAITING\<rparr>"] exI[of _ "put_error h 0 (put_cmd h (CMD_ACK h) (ack_msg s))"]) simp
qed

text \<open>
  The first version of the server removes the regular file its client names, wherever the path
  leads, and answers with error 0; nothing else changes and the server waits for the next command. The
  name is not validated: the witness removes a file outside the backup directory.
\<close>

theorem legacy_remove:
  assumes "commanded h (CMD_REMOVE h) name a d rest s"
    and "resolve (l_files s) (''backup/'' @ name) = Some q" "lookup (l_files s) q = Some (RegularFile x)"
    and "writable (l_files s) q"
  shows "\<exists>t. legacy_round h ram s = Some (True, t) \<and> legacy_ok h t \<and> lookup (l_files t) = (lookup (l_files s))(q := None) \<and>
    replied h (CMD_ACK h) 0 (outgoing (l_os s)) t"
  using remove_answered[OF assms, of ram] by (auto simp: replied_def)

section \<open>Small uploads\<close>

lemma write_new:
  assumes "resolve f p = Some q" "lookup f q = None" "writable f q"
  shows "write_file p x f = Some (set_node q (RegularFile x) f)" "lookup (set_node q (RegularFile x) f) = (lookup f)(q \<mapsto> RegularFile x)"
proof -
  have "q \<noteq> []" using assms(2) by (auto simp: lookup_def)
  then show "lookup (set_node q (RegularFile x) f) = (lookup f)(q \<mapsto> RegularFile x)" by (auto simp: lookup_set_node)
qed (use assms in \<open>simp add: write_file_def\<close>)

text \<open>No data has arrived when a small upload is processed: it is refused, and the command stays in its object.\<close>

lemma small_upload_refused:
  assumes "commanded h (CMD_SEND h) name a d rest s" "get_size h d \<le> data_len h"
    and "checkFile (''backup/'' @ name) (l_files s) = Some False"
    and "rest = [] \<or> clock (l_os s) + 1 < fst (hd rest)"
  shows "\<exists>t r. legacy_round h ram s = Some (True, t) \<and> legacy_ok h t \<and> l_files t = l_files s \<and> cmd_msg t = d \<and>
    send_script (l_os t) = [] \<and> client_addr t = a \<and> outgoing (l_os t) = outgoing (l_os s) @ [(a, r)] \<and>
    cmd_object h r \<and> get_cmd h r = CMD_ACK h \<and> get_error h r = 1"
proof -
  define u where "u = entered PROCESS_SEND a d rest s"
  have u: "objects_ok h u" "cmd_msg u = d" "send_script (l_os s) = []" "header_ok h"
    using entered_ok[OF assms(1)] by (simp_all add: u_def)
  define t where "t = snd (answer h (CMD_ACK h) 1 u)"
  have n: "c_array (get_filename h d) = Some name" using assms(1) by (simp add: commanded_def)
  have v: "u\<lparr>data_msg := data_msg u\<rparr> = u" "l_files u = l_files s" "outgoing (l_os u) = outgoing (l_os s)"
    "client_addr u = a" "send_script (l_os u) = send_script (l_os s)"
    by simp_all (simp_all add: u_def)
  have "l_receive (data_msg u) u = Some (-1, data_msg u, u)"
    using u(1) assms(4) by (intro receive_nothing) (auto simp: objects_ok_def u_def)
  then have "process_send h u = Some (t\<lparr>server_state := WAITING\<rparr>)"
    using n u(2) v assms(2,3) by (simp add: process_send_def receive_small_def Let_def t_def)
  then have "legacy_round h ram s = Some (True, t\<lparr>server_state := WAITING\<rparr>)"
    using rounds(2)[OF assms(1)] by (simp add: u_def)
  moreover have "outgoing (l_os t) = outgoing (l_os s) @ [(a, put_error h 1 (put_cmd h (CMD_ACK h) (ack_msg u)))]"
    "send_script (l_os t) = []"
    using v(3-5) u(3) answer_sent(2)[OF u(4,1), of "CMD_ACK h" 1] by (simp_all add: t_def answer_out)
  moreover have "cmd_msg t = d" "client_addr t = a" "l_files t = l_files s" "objects_ok h t"
    using u by (simp_all add: t_def) (simp_all add: u_def)
  moreover have "cmd_object h (ack_msg u)" using u(1) by (simp add: objects_ok_def)
  ultimately show ?thesis
    using header_members[OF u(4)]
    by (intro exI[of _ "t\<lparr>server_state := WAITING\<rparr>"] exI[of _ "put_error h 1 (put_cmd h (CMD_ACK h) (ack_msg u))"])
      (simp add: legacy_ok_def)
qed

text \<open>The data has arrived: the announced number of bytes of its object is stored.\<close>

lemma small_upload_taken:
  assumes "commanded h (CMD_SEND h) name a d ((k, b, x) # later) s" "get_size h d \<le> data_len h" "k \<le> clock (l_os s) + 1"
    and "resolve (l_files s) (''backup/'' @ name) = Some q" "lookup (l_files s) q = None" "writable (l_files s) q"
  shows "\<exists>t. legacy_round h ram s = Some (True, t) \<and> legacy_ok h t \<and>
    lookup (l_files t) = (lookup (l_files s))
      (q \<mapsto> RegularFile (take (get_size h d) (get_data h (overlay (data_msg s) (take (data_bytes h) x))))) \<and>
    replied h (CMD_ACK h) 0 (outgoing (l_os s)) t"
proof -
  let ?p = "''backup/'' @ name" and ?z = "get_size h d"
  define u where "u = entered PROCESS_SEND a d ((k, b, x) # later) s"
  have u: "objects_ok h u" "cmd_msg u = d" "header_ok h" "send_script (l_os u) = []" "outgoing (l_os u) = outgoing (l_os s)"
    "l_files u = l_files s" "data_msg u = data_msg s" "incoming (l_os u) = (k, b, x) # later" "k \<le> clock (l_os u)"
    using entered_ok[OF assms(1)] assms(3) by (simp_all add: u_def)
  have n: "c_array (get_filename h d) = Some name" "length (data_msg s) = data_bytes h"
    using assms(1) by (simp_all add: commanded_def legacy_ok_def objects_ok_def)
  define m where "m = overlay (data_msg s) (take (data_bytes h) x)"
  define v where "v = u\<lparr>l_os := (l_os u)\<lparr>incoming := later\<rparr>, client_addr := b, data_msg := m\<rparr>"
  define w where "w = set_l_files (set_node q (RegularFile (take ?z (get_data h m))) (l_files s)) v"
  define t where "t = snd (answer h (CMD_ACK h) 0 w)"
  have v: "objects_ok h v" "send_script (l_os v) = []" "outgoing (l_os v) = outgoing (l_os s)" "l_files v = l_files s"
    using u n(2) by (simp_all add: v_def objects_ok_def m_def l_files_def)
  have "l_receive (data_msg u) u = Some (int (length (take (data_bytes h) x)), m,
      u\<lparr>l_os := (l_os u)\<lparr>incoming := later\<rparr>, client_addr := b\<rparr>)"
    using receive_arrived[OF u(8,9), of "data_msg u"] u(7) n(2) by (simp add: m_def)
  then have "receive_small h ?p ?z u = Some t"
    using write_new(1)[OF assms(4-6)] v(4) by (simp add: receive_small_def v_def[symmetric] t_def w_def)
  moreover have "checkFile ?p (l_files s) = Some False" using assms(4,5) by (intro checkFile_missing) (simp add: stat_lookup)
  ultimately have "process_send h u = Some (t\<lparr>server_state := WAITING\<rparr>)"
    using n(1) u(2,6) assms(2) by (simp add: process_send_def Let_def)
  then have "legacy_round h ram s = Some (True, t\<lparr>server_state := WAITING\<rparr>)" using rounds(2)[OF assms(1)] by (simp add: u_def)
  moreover have "replied h (CMD_ACK h) 0 (outgoing (l_os s)) t"
    using answer_sent(1)[of h w "CMD_ACK h" 0] u(3) v by (simp add: t_def w_def)
  moreover have "objects_ok h t" "lookup (l_files t) = (lookup (l_files s))(q \<mapsto> RegularFile (take ?z (get_data h m)))"
    using u(3) v write_new(2)[OF assms(4-6)] by (simp_all add: t_def w_def)
  ultimately show ?thesis
    unfolding m_def by (intro exI[of _ "t\<lparr>server_state := WAITING\<rparr>"]) (simp add: legacy_ok_def)
qed

text \<open>
  C30: a small upload of a new file stores exactly the announced number of bytes of the data message, if
  that message has already arrived when the command is processed, and answers with error 0. A data
  message shorter than the announced size leaves the bytes of the previous one in place, and these are
  stored too. If nothing has arrived, the upload fails at once, whatever arrives later.
\<close>

theorem legacy_small_upload:
  assumes "commanded h (CMD_SEND h) name a d rest s" "get_size h d \<le> data_len h"
    and "resolve (l_files s) (''backup/'' @ name) = Some q" "lookup (l_files s) q = None" "writable (l_files s) q"
  shows "\<exists>t. legacy_round h ram s = Some (True, t) \<and> legacy_ok h t \<and>
    (case rest of
       (k, b, x) # later \<Rightarrow>
         if k \<le> clock (l_os s) + 1
         then lookup (l_files t) = (lookup (l_files s))
                (q \<mapsto> RegularFile (take (get_size h d) (get_data h (overlay (data_msg s) (take (data_bytes h) x))))) \<and>
              replied h (CMD_ACK h) 0 (outgoing (l_os s)) t
         else l_files t = l_files s \<and> replied h (CMD_ACK h) 1 (outgoing (l_os s)) t
     | [] \<Rightarrow> l_files t = l_files s \<and> replied h (CMD_ACK h) 1 (outgoing (l_os s)) t)"
proof -
  have m: "checkFile (''backup/'' @ name) (l_files s) = Some False"
    using assms(3,4) by (intro checkFile_missing) (simp add: stat_lookup)
  show ?thesis
  proof (cases "rest = [] \<or> clock (l_os s) + 1 < fst (hd rest)")
    case True
    from small_upload_refused[OF assms(1,2) m True, where ram = ram] obtain t r where
      "legacy_round h ram s = Some (True, t)" "legacy_ok h t" "l_files t = l_files s" "client_addr t = a"
      "outgoing (l_os t) = outgoing (l_os s) @ [(a, r)]" "get_cmd h r = CMD_ACK h" "get_error h r = 1"
      by blast
    with True show ?thesis by (intro exI[of _ t]) (auto simp: replied_def split: list.split)
  next
    case False
    then obtain k b x later where r: "rest = (k, b, x) # later" "k \<le> clock (l_os s) + 1"
      by (cases rest) auto
    show ?thesis
      using small_upload_taken[OF assms(1)[unfolded r(1)] assms(2) r(2) assms(3-5), of ram] r by simp
  qed
qed

section \<open>Overwriting\<close>

lemma overwrite_round:
  assumes "commanded h CMD_OVERWRITE name a d rest s" "handle_overwrite h (took a d rest s) = Some t"
  shows "legacy_round h ram s = Some (True, t\<lparr>first_run := False\<rparr>)" "legacy_ok h (t\<lparr>first_run := False\<rparr>)"
proof -
  note k = commanded_took[OF assms(1)]
  have h: "header_ok h" "get_cmd h d = CMD_OVERWRITE" "legacy_ok h s" using assms(1) by (simp_all add: commanded_def)
  have "receive_command h s = Some t" using k(1,2) dispatched(6)[OF h(1), of "took a d rest s"] h(2) assms(2) by simp
  moreover have ok: "legacy_ok h t"
    using handle_overwrite_keeps[OF assms(2) h(1) k(3)] h(3) by (simp add: legacy_ok_def)
  ultimately show "legacy_round h ram s = Some (True, t\<lparr>first_run := False\<rparr>)"
    by (simp add: legacy_round_def legacy_ok_def)
  show "legacy_ok h (t\<lparr>first_run := False\<rparr>)" using ok by (simp add: legacy_ok_def objects_ok_def)
qed

lemma first_run_simps [simp]:
  "l_files (t\<lparr>first_run := x\<rparr>) = l_files t" "replied h c e before (t\<lparr>first_run := x\<rparr>) = replied h c e before t"
  by (simp_all add: l_files_def replied_def)

text \<open>The confirmation for a small file is acknowledged, and nothing is done.\<close>

lemma overwrite_acknowledged:
  assumes "commanded h CMD_OVERWRITE name a d rest s" "get_error h d = 0" "name \<noteq> []" "get_size h d \<le> data_len h"
  shows "\<exists>t r. legacy_round h ram s = Some (True, t) \<and> l_files t = l_files s \<and> client_addr t = a \<and>
    outgoing (l_os t) = outgoing (l_os s) @ [(a, r)] \<and> cmd_object h r \<and> get_cmd h r = CMD_ACK h \<and> get_error h r = 0"
proof -
  let ?u = "took a d rest s"
  have u: "cmd_msg ?u = d" "objects_ok h ?u" "header_ok h" "send_script (l_os s) = []" "cmd_object h (ack_msg s)"
    using commanded_took[OF assms(1)] assms(1) by (simp_all add: commanded_def legacy_ok_def objects_ok_def)
  define t where "t = snd (answer h (CMD_ACK h) 0 ?u)"
  have "handle_overwrite h ?u = Some t"
    using u(1) assms by (simp add: handle_overwrite_def t_def commanded_def)
  then have "legacy_round h ram s = Some (True, t\<lparr>first_run := False\<rparr>)" using overwrite_round(1)[OF assms(1)] by blast
  moreover have "outgoing (l_os t) = outgoing (l_os s) @ [(a, put_error h 0 (put_cmd h (CMD_ACK h) (ack_msg s)))]"
    using u(4) by (simp add: t_def answer_out)
  moreover have "l_files t = l_files s" "client_addr t = a" by (simp_all add: t_def)
  ultimately show ?thesis
    using header_members[OF u(3)] u(5)
    by (intro exI[of _ "t\<lparr>first_run := False\<rparr>"] exI[of _ "put_error h 0 (put_cmd h (CMD_ACK h) (ack_msg s))"]) simp
qed

text \<open>
  C31: a file that exists is never overwritten by a small upload. The SEND command is answered with the
  question whether to overwrite, and the confirmation with error 0, as if all were well; but the code
  that would receive the data is missing, and no file changes in either round.
\<close>

theorem legacy_small_overwrite_lost:
  assumes "commanded h (CMD_SEND h) name a d ((k, b, x) # rest) s" "checkFile (''backup/'' @ name) (l_files s) = Some True"
    and "k \<le> clock (l_os s) + 2" "cmd_object h x" "get_cmd h x = CMD_OVERWRITE" "get_error h x = 0"
    and "c_array (get_filename h x) = Some name'" "name' \<noteq> []" "get_size h x \<le> data_len h"
  shows "\<exists>u t. legacy_round h ram s = Some (True, u) \<and> replied h CMD_FILE_EXISTS 0 (outgoing (l_os s)) u \<and>
    legacy_round h ram u = Some (True, t) \<and> replied h (CMD_ACK h) 0 (outgoing (l_os u)) t \<and>
    l_files u = l_files s \<and> l_files t = l_files s"
proof -
  let ?e = "entered PROCESS_SEND a d ((k, b, x) # rest) s"
  note e = entered_ok(1,2)[OF assms(1), of PROCESS_SEND] entered_ok(3,4)[OF assms(1)]
  define u where "u = (snd (answer_size h CMD_FILE_EXISTS (get_size h d) ?e))\<lparr>server_state := WAITING\<rparr>"
  have n: "c_array (get_filename h d) = Some name" using assms(1) by (simp add: commanded_def)
  then have u: "legacy_round h ram s = Some (True, u)"
    using rounds(2)[OF assms(1)] assms(2) e by (simp add: process_send_def Let_def u_def)
  note sent = answer_size_sent[of h ?e CMD_FILE_EXISTS "get_size h d"]
  have r: "replied h CMD_FILE_EXISTS 0 (outgoing (l_os s)) u" using sent(1) e by (simp add: u_def)
  have "legacy_ok h u" using round_keeps[OF u] assms(1) by (simp add: commanded_def)
  moreover have "send_script (l_os u) = []" using sent(2) e by (simp add: u_def)
  moreover have "clock (l_os u) = clock (l_os s) + 1"
    using e(3) by (simp add: u_def answer_size_def Let_def l_send_def send_to_def)
  then have "arrived b x rest u" using assms(3,4) e(4) by (auto simp: arrived_def u_def cmd_object_def header_ok_def)
  ultimately have c: "commanded h CMD_OVERWRITE name' b x rest u" using assms(4-9) e(4) by (simp add: commanded_def)
  then obtain t r where "legacy_round h ram u = Some (True, t)" "l_files t = l_files u" "client_addr t = b"
    "outgoing (l_os t) = outgoing (l_os u) @ [(b, r)]" "get_cmd h r = CMD_ACK h" "get_error h r = 0"
    using overwrite_acknowledged[OF c assms(6,8,9), of ram] by blast
  moreover have "l_files u = l_files s" by (simp add: u_def)
  ultimately show ?thesis using u r by (intro exI[of _ u] exI[of _ t]) (auto simp: replied_def)
qed

section \<open>Large uploads\<close>

text \<open>
  A large upload of a new file over a connection that ends stores what came over it, up to the
  announced size and the rest of the last segment read, and is acknowledged with error 0 even when the
  connection ended early; the next upload uses the next port.
\<close>

theorem legacy_large_upload:
  assumes "commanded h (CMD_SEND h) name a d rest s" "data_len h < get_size h d"
    and "resolve (l_files s) (''backup/'' @ name) = Some q" "lookup (l_files s) q = None" "writable (l_files s) q"
    and "l_sessions s = Connected segments PeerCloses # ss" "\<forall>x \<in> set segments. x \<noteq> []"
  shows "\<exists>t content before. legacy_round h ram s = Some (True, t) \<and> legacy_ok h t \<and>
    lookup (l_files t) = (lookup (l_files s))(q \<mapsto> RegularFile content) \<and> prefix content (concat segments) \<and>
    (get_size h d \<le> length content \<or> content = concat segments) \<and> replied h (CMD_ACK h) 0 before t \<and>
    current_tcp_port t = current_tcp_port s + 1"
proof -
  let ?p = "''backup/'' @ name" and ?z = "get_size h d"
  define u where "u = (entered PROCESS_SEND a d rest s)\<lparr>l_sessions := ss\<rparr>"
  have e: "header_ok h" "send_script (l_os s) = []" "objects_ok h u" "l_files u = l_files s"
    "send_script (l_os u) = []" "current_tcp_port u = current_tcp_port s"
    using entered_ok[OF assms(1)] by (simp_all add: u_def objects_ok_def)
  define v where "v = snd (answer_size h (CMD_ACK h) (nat (current_tcp_port s)) u)"
  have v: "answer_size h (CMD_ACK h) (nat (current_tcp_port u)) u = (True, v)" "objects_ok h v" "send_script (l_os v) = []"
    using answer_size_sent(2,3)[of h u "CMD_ACK h"] e by (simp_all add: v_def prod_eq_iff)
  obtain content where c: "recvLoop ?z segments PeerCloses [] = Some content" "prefix content (concat segments)"
    "?z \<le> length content \<or> content = concat segments"
    using recvLoop_closes[OF assms(7), of ?z "[]"] by auto
  define f where "f = set_node q (RegularFile []) (l_files s)"
  define g where "g = set_node q (RegularFile content) (l_files s)"
  have f: "write_file ?p [] (l_files s) = Some f" "write_file ?p content f = Some g"
    using write_new(1)[OF assms(3-5)] write_file_overwrite[of ?p "[]" "l_files s" f content] by (simp_all add: f_def g_def)
  have g: "lookup g = (lookup (l_files s))(q \<mapsto> RegularFile content)"
    using write_new(2)[OF assms(3-5)] by (simp add: g_def)
  define w where "w = (set_l_files g v)\<lparr>current_tcp_port := current_tcp_port v + 1\<rparr>"
  define t where "t = snd (answer h (CMD_ACK h) 0 w)"
  have w: "objects_ok h w" "send_script (l_os w) = []" "l_files w = g" "current_tcp_port w = current_tcp_port s + 1"
    using v e by (simp_all add: w_def) (simp_all add: v_def)
  have "next_session (entered PROCESS_SEND a d rest s) = (Connected segments PeerCloses, u)"
    using assms(6) by (simp add: next_session_def u_def)
  then have "receive_tcp h ?p ?z (entered PROCESS_SEND a d rest s) = Some t"
    using v c(1) f e(4) by (simp add: receive_tcp_def t_def w_def v_def)
  moreover have "checkFile ?p (l_files s) = Some False" using assms(3,4) by (intro checkFile_missing) (simp add: stat_lookup)
  moreover have "c_array (get_filename h d) = Some name" using assms(1) by (simp add: commanded_def)
  ultimately have "process_send h (entered PROCESS_SEND a d rest s) = Some (t\<lparr>server_state := WAITING\<rparr>)"
    using entered_ok(2)[OF assms(1)] assms(2) by (simp add: process_send_def Let_def)
  then have "legacy_round h ram s = Some (True, t\<lparr>server_state := WAITING\<rparr>)" using rounds(2)[OF assms(1)] by simp
  moreover have "replied h (CMD_ACK h) 0 (outgoing (l_os w)) t" using answer_sent(1)[OF e(1) w(1,2)] by (simp add: t_def)
  moreover have "objects_ok h t" "l_files t = g" "current_tcp_port t = current_tcp_port s + 1" using e(1) w by (simp_all add: t_def)
  ultimately show ?thesis using c g
    by (intro exI[of _ "t\<lparr>server_state := WAITING\<rparr>"] exI[of _ content] exI[of _ "outgoing (l_os w)"])
      (simp add: legacy_ok_def)
qed

section \<open>Renaming\<close>

lemma rename_regular:
  assumes "resolve f old = Some a" "resolve f new = Some b" "lookup f a = Some (RegularFile x)" "lookup f b = None"
    and "writable f a" "writable f b" "fs_wf f" "\<not> dotted old" "\<not> dotted new"
  shows "\<exists>g. rename_path old new f = (True, g) \<and> lookup g = (lookup f)(a := None, b := Some (RegularFile x))"
proof -
  have ab: "a \<noteq> b" "\<not> is_dir f a" "b \<noteq> []" using assms(3,4) by (auto simp: is_dir_def lookup_def)
  have "File_System.rename old new f = Some (move_node a b f)"
    using assms(1-6) ab by (simp add: File_System.rename_def)
  moreover have "lookup (move_node a b f) = (lookup f)(a := None, b := Some (RegularFile x))"
    using lookup_move_node[OF assms(7) ab(2,1,3)] assms(3) by simp
  moreover have "stat f old \<noteq> Some Directory" using assms(1,3) by (simp add: stat_lookup)
  ultimately show ?thesis using assms(8,9) by (simp add: rename_path_def)
qed

text \<open>The new name is taken: the server asks, finds no answer at once, and gives up.\<close>

lemma rename_target_taken:
  assumes "commanded h (CMD_RENAME h) name a d [(k, b, x)] s" "k \<le> clock (l_os s) + 1"
    and "c_array (get_data h (overlay (data_msg s) (take (data_bytes h) x))) = Some new"
    and "checkFile (''backup/'' @ name) (l_files s) = Some True" "checkFile (''backup/'' @ new) (l_files s) = Some True"
  shows "\<exists>t r. legacy_round h ram s = Some (True, t) \<and> legacy_ok h t \<and> l_files t = l_files s \<and>
    send_script (l_os t) = [] \<and> outgoing (l_os t) = outgoing (l_os s) @ [(b, r)] \<and>
    cmd_object h r \<and> get_cmd h r = CMD_FILE_EXISTS"
proof -
  define u where "u = entered PROCESS_RENAME a d [(k, b, x)] s"
  have u: "header_ok h" "send_script (l_os s) = []" "objects_ok h u" "l_files u = l_files s" "cmd_msg u = d"
    "send_script (l_os u) = []" "data_msg u = data_msg s" "incoming (l_os u) = [(k, b, x)]" "k \<le> clock (l_os u)"
    "outgoing (l_os u) = outgoing (l_os s)" "length (data_msg s) = data_bytes h"
    using entered_ok[OF assms(1)] assms(1,2) by (simp_all add: u_def) (simp add: commanded_def legacy_ok_def objects_ok_def)
  define m where "m = overlay (data_msg s) (take (data_bytes h) x)"
  define v where "v = u\<lparr>l_os := (l_os u)\<lparr>incoming := []\<rparr>, client_addr := b, data_msg := m\<rparr>"
  have v: "objects_ok h v" "send_script (l_os v) = []" "outgoing (l_os v) = outgoing (l_os s)" "l_files v = l_files s"
    "incoming (l_os v) = []" "client_addr v = b"
    using u by (simp_all add: v_def objects_ok_def m_def l_files_def)
  define t where "t = snd (answer h CMD_FILE_EXISTS 0 v)"
  have l: "l_receive (data_msg u) u = Some (int (length (take (data_bytes h) x)), m,
      u\<lparr>l_os := (l_os u)\<lparr>incoming := []\<rparr>, client_addr := b\<rparr>)"
    using receive_arrived[OF u(8,9), of "data_msg u"] u(7,11) by (simp add: m_def)
  have t: "objects_ok h t" "send_script (l_os t) = []" "l_files t = l_files s" "incoming (l_os t) = []"
    "outgoing (l_os t) = outgoing (l_os s) @ [(b, put_error h 0 (put_cmd h CMD_FILE_EXISTS (ack_msg v)))]"
    using answer_sent(2)[OF u(1) v(1,2), of CMD_FILE_EXISTS 0] u(1) v by (simp_all add: t_def answer_out)
  have "l_receive ram t = Some (-1, ram, t)" using t(1,4) by (intro receive_nothing) (simp_all add: objects_ok_def)
  then have "confirm_rename h ram (''backup/'' @ name) (''backup/'' @ new) v = Some t"
    by (simp add: confirm_rename_def Let_def t_def)
  moreover have "c_array (get_filename h d) = Some name" "c_array (get_data h m) = Some new"
    using assms(1,3) by (simp_all add: commanded_def m_def)
  ultimately have "process_rename h ram u = Some (t\<lparr>server_state := WAITING\<rparr>)"
    using u(4,5) l v(4) assms(4,5) by (simp add: process_rename_def Let_def v_def[symmetric])
  then have "legacy_round h ram s = Some (True, t\<lparr>server_state := WAITING\<rparr>)" using rounds(4)[OF assms(1)] by (simp add: u_def)
  moreover have "cmd_object h (ack_msg v)" using v(1) by (simp add: objects_ok_def)
  ultimately show ?thesis
    using t header_members[OF u(1)]
    by (intro exI[of _ "t\<lparr>server_state := WAITING\<rparr>"] exI[of _ "put_error h 0 (put_cmd h CMD_FILE_EXISTS (ack_msg v))"])
      (simp add: legacy_ok_def)
qed

text \<open>
  A rename whose new name has already arrived, and names nothing, moves the regular file there and
  answers with error 0.
\<close>

theorem legacy_rename:
  assumes "commanded h (CMD_RENAME h) name a d ((k, b, x) # rest) s" "k \<le> clock (l_os s) + 1"
    and "c_array (get_data h (overlay (data_msg s) (take (data_bytes h) x))) = Some new"
    and "resolve (l_files s) (''backup/'' @ name) = Some q" "lookup (l_files s) q = Some (RegularFile y)"
    and "resolve (l_files s) (''backup/'' @ new) = Some r" "lookup (l_files s) r = None"
    and "writable (l_files s) q" "writable (l_files s) r" "fs_wf (l_files s)" "\<not> dotted (''backup/'' @ name)" "\<not> dotted (''backup/'' @ new)"
  shows "\<exists>t. legacy_round h ram s = Some (True, t) \<and> legacy_ok h t \<and>
    lookup (l_files t) = (lookup (l_files s))(q := None, r := Some (RegularFile y)) \<and>
    replied h (CMD_ACK h) 0 (outgoing (l_os s)) t"
proof -
  let ?old = "''backup/'' @ name" and ?new = "''backup/'' @ new"
  define u where "u = entered PROCESS_RENAME a d ((k, b, x) # rest) s"
  have e: "header_ok h" "send_script (l_os s) = []" "objects_ok h u" "l_files u = l_files s" "cmd_msg u = d"
    "send_script (l_os u) = []" "data_msg u = data_msg s" "incoming (l_os u) = (k, b, x) # rest" "k \<le> clock (l_os u)"
    "outgoing (l_os u) = outgoing (l_os s)"
    using entered_ok[OF assms(1)] assms(2) by (simp_all add: u_def)
  define m where "m = overlay (data_msg s) (take (data_bytes h) x)"
  define v where "v = u\<lparr>l_os := (l_os u)\<lparr>incoming := rest\<rparr>, client_addr := b, data_msg := m\<rparr>"
  have len: "length (data_msg s) = data_bytes h" using assms(1) by (simp add: commanded_def legacy_ok_def objects_ok_def)
  have v: "objects_ok h v" "send_script (l_os v) = []" "outgoing (l_os v) = outgoing (l_os s)" "l_files v = l_files s"
    using e len by (simp_all add: v_def objects_ok_def m_def l_files_def)
  have l: "l_receive (data_msg u) u = Some (int (length (take (data_bytes h) x)), m,
      u\<lparr>l_os := (l_os u)\<lparr>incoming := rest\<rparr>, client_addr := b\<rparr>)"
    using receive_arrived[OF e(8,9), of "data_msg u"] e(7) len by (simp add: m_def)
  obtain g where g: "rename_path ?old ?new (l_files s) = (True, g)"
    "lookup g = (lookup (l_files s))(q := None, r := Some (RegularFile y))"
    using rename_regular[OF assms(4,6,5,7-12)] by blast
  have n: "c_array (get_data h m) = Some new" using assms(3) by (simp add: m_def)
  define w where "w = set_l_files g v"
  define t where "t = snd (answer h (CMD_ACK h) 0 w)"
  have p: "perform_rename h ?old ?new v = t" using g(1) v(4) by (simp add: perform_rename_def t_def w_def)
  have "checkFile ?old (l_files s) = Some True" "checkFile ?new (l_files s) = Some False"
    using assms(4-7) by (auto intro!: checkFile_regular checkFile_missing simp: stat_lookup)
  moreover have "c_array (get_filename h d) = Some name" using assms(1) by (simp add: commanded_def)
  ultimately have "process_rename h ram u = Some (t\<lparr>server_state := WAITING\<rparr>)"
    using e(4,5) l n v(4) p by (simp add: process_rename_def Let_def v_def[symmetric])
  then have "legacy_round h ram s = Some (True, t\<lparr>server_state := WAITING\<rparr>)" using rounds(4)[OF assms(1)] by (simp add: u_def)
  moreover have "replied h (CMD_ACK h) 0 (outgoing (l_os s)) t"
    using answer_sent(1)[of h w "CMD_ACK h" 0] e(1) v by (simp add: t_def w_def)
  moreover have "objects_ok h t" "l_files t = g" using e(1) v(1) by (simp_all add: t_def w_def)
  ultimately show ?thesis using g(2) by (intro exI[of _ "t\<lparr>server_state := WAITING\<rparr>"]) (simp add: legacy_ok_def)
qed

section \<open>The loop\<close>

lemma bad_code_ends:
  assumes "header_ok h" "legacy_ok h s" "arrived a d rest s"
    and "11 \<le> get_cmd h (overlay (cmd_msg s) (take (length (cmd_msg s)) d))"
  shows "legacy_round h ram s = None \<and> legacy_loop h ram s = None"
proof -
  have "receive_command h s = dispatch h (took a d rest s)"
    using assms(1-3) by (intro command_arrived) (simp_all add: legacy_ok_def)
  then have "legacy_round h ram s = None" using assms(4) by (simp add: legacy_round_def dispatch_def Let_def)
  then show ?thesis by (subst legacy_loop.simps) simp
qed

text \<open>
  One datagram whose command code is eleven or more ends the server in undefined behaviour: the
  name of the command is looked up in an array of eleven strings before the code is checked. It need not
  be a command: data that arrives after its upload was given up is read in the same way.
\<close>

theorem legacy_bad_code:
  assumes "header_ok h" "legacy_ok h s" "arrived a d rest s"
    and "11 \<le> get_cmd h (overlay (cmd_msg s) (take (length (cmd_msg s)) d))"
  shows "legacy_round h ram s = None \<and> legacy_loop h ram s = None"
  using assms by (rule bad_code_ends)

text \<open>
  A SHUTDOWN command ends the loop in its round. The server prints that it acknowledges, but it sends
  nothing.
\<close>

theorem legacy_shutdown:
  assumes "commanded h (CMD_SHUTDOWN h) name a d rest s"
  shows "\<exists>t. legacy_loop h ram s = Some t \<and> server_state t = SHUTDOWN \<and> outgoing (l_os t) = outgoing (l_os s) \<and>
    l_files t = l_files s"
proof -
  have "legacy_loop h ram s = Some (entered SHUTDOWN a d rest s)"
    using rounds(5)[OF assms] by (subst legacy_loop.simps) simp
  then show ?thesis by simp
qed

definition next_round :: "header \<Rightarrow> string \<Rightarrow> legacy \<Rightarrow> (bool \<times> legacy) option + legacy" where
  "next_round h ram s =
     (case legacy_round h ram s of Some (True, t) \<Rightarrow> Inr t | r \<Rightarrow> Inl r)"

text \<open>
  C32: in every state the loop of the server reaches from its start, it waits for a command, its message
  objects have their sizes and its socket is non-blocking.
\<close>

theorem legacy_states:
  assumes "reach (next_round h ram) (legacy_start w tcp cmd ack data) s" "header_ok h"
    and "cmd_object h cmd" "cmd_object h ack" "length data = data_bytes h"
  shows "server_state s = WAITING \<and> cmd_object h (cmd_msg s) \<and> cmd_object h (ack_msg s) \<and>
    length (data_msg s) = data_bytes h \<and> nonblocking (l_os s)"
proof -
  have "legacy_ok h s"
    using assms(1)
  proof (induction "legacy_start w tcp cmd ack data" s rule: reach.induct)
    case reach_here
    then show ?case
      using assms(3-5) by (simp add: legacy_ok_def objects_ok_def legacy_start_def set_nonblocking_def)
  next
    case (reach_next t u)
    then have "legacy_round h ram t = Some (True, u)" by (auto simp: next_round_def split: option.splits prod.splits bool.splits)
    from round_keeps[OF this assms(2)] show ?case using reach_next by simp
  qed
  then show ?thesis by (simp add: legacy_ok_def objects_ok_def)
qed

section \<open>The theorems on concrete runs\<close>

text \<open>A directory \<open>backup\<close> with one file, and a file beside it.\<close>

definition labs_files :: filesystem where
  "labs_files =
     \<lparr>nodes = [([''backup''], Directory), ([''secret''], RegularFile ''x''), ([''backup'', ''a''], RegularFile ''old'')],
      cwd = [], writable = (\<lambda>q. True), dir_size = 4096\<rparr>"

definition labs_command :: "Command \<Rightarrow> string \<Rightarrow> u32 \<Rightarrow> string" where
  "labs_command c name n = encode_cmd LittleEndian ((setFilename name (setCommand c CmdMsg))\<lparr>m_size := n\<rparr>)"

definition labs_state :: "string \<Rightarrow> (nat \<times> addr \<times> string) list \<Rightarrow> tcp_session list \<Rightarrow> legacy" where
  "labs_state d later tcp =
     legacy_start ((quiet_os labs_files)\<lparr>incoming := (0, (0, 0), d) # later\<rparr>) tcp (zeros 137) (zeros 137) (zeros 3000)"

lemma labs_paths:
  "resolve labs_files ''backup/../secret'' = Some [''secret'']" "resolve labs_files ''backup/a'' = Some [''backup'', ''a'']"
  "resolve labs_files ''backup/b'' = Some [''backup'', ''b'']" "readdir ''backup'' labs_files = Some [''.'', ''..'', ''a'']"
  "lookup labs_files [''secret''] = Some (RegularFile ''x'')" "lookup labs_files [''backup'', ''a''] = Some (RegularFile ''old'')"
  "lookup labs_files [''backup'', ''b''] = None" "\<not> dotted ''backup/a''" "\<not> dotted ''backup/b''"
  by code_simp+

lemma labs_state_simps [simp]:
  "l_files (labs_state d later tcp) = labs_files" "incoming (l_os (labs_state d later tcp)) = (0, (0, 0), d) # later"
  "clock (l_os (labs_state d later tcp)) = 0" "data_msg (labs_state d later tcp) = zeros 3000"
  "l_sessions (labs_state d later tcp) = tcp" "outgoing (l_os (labs_state d later tcp)) = []"
  "send_script (l_os (labs_state d later tcp)) = []" "current_tcp_port (labs_state d later tcp) = 40000"
  using labs_paths(4)
  by (simp_all add: labs_state_def legacy_start_def l_files_def set_nonblocking_def quiet_os_def checkDirectory_def)

lemma labs_state_ok: "legacy_ok labs_header (labs_state d later tcp)"
  by (simp add: legacy_ok_def objects_ok_def cmd_object_def labs_state_def legacy_start_def set_nonblocking_def
      labs_header_def CMD_MSG_LEN_def FILE_NAME_LEN_def DATA_BUF_LEN_def)

lemma labs_commanded:
  assumes "NUL \<notin> set name" "length name \<le> 127"
  shows "commanded labs_header (uint (command_code c)) name (0, 0) (labs_command c name n) later
      (labs_state (labs_command c name n) later tcp)"
    "get_size labs_header (labs_command c name n) = unat n" "get_error labs_header (labs_command c name n) = 0"
proof -
  let ?m = "(setFilename name (setCommand c CmdMsg))\<lparr>m_size := n\<rparr>"
  have d: "decode_cmd LittleEndian (labs_command c name n) = ?m" "length (labs_command c name n) = 137"
    using cmd_codec.dec_enc[of ?m LittleEndian] cmd_codec.enc_width[of ?m LittleEndian]
    by (simp_all add: labs_command_def CMD_MSG_LEN_def FILE_NAME_LEN_def)
  then have "labs_command c name n \<noteq> []" by auto
  then show "commanded labs_header (uint (command_code c)) name (0, 0) (labs_command c name n) later
      (labs_state (labs_command c name n) later tcp)"
    using d labs_header_ok labs_state_ok setFilename_short[OF assms]
    by (simp add: commanded_def arrived_def cmd_object_def)
      (simp add: labs_header_def CMD_MSG_LEN_def FILE_NAME_LEN_def setCommand_def setFilename_def Let_def)
  show "get_size labs_header (labs_command c name n) = unat n" "get_error labs_header (labs_command c name n) = 0"
    using d by (simp_all add: labs_header_def)
qed

lemma labs_names:
  "NUL \<notin> set ''../secret''" "NUL \<notin> set ''a''" "NUL \<notin> set ''b''" "NUL \<notin> set []"
  by (simp_all add: NUL_def)

lemma labs_codes_of:
  "uint (command_code REMOVE) = CMD_REMOVE labs_header" "uint (command_code SEND) = CMD_SEND labs_header"
  "uint (command_code RENAME) = CMD_RENAME labs_header" "uint (command_code Command.SHUTDOWN) = CMD_SHUTDOWN labs_header"
  "uint (command_code OVERWRITE) = CMD_OVERWRITE"
  by (simp_all add: labs_header_def command_code_def command_table_def CMD_OVERWRITE_def)

theorem legacy_remove_witness:
  "\<exists>t. legacy_round labs_header [] (labs_state (labs_command REMOVE ''../secret'' 0) [] []) = Some (True, t) \<and>
     lookup (l_files t) [''secret''] = None"
proof -
  let ?s = "labs_state (labs_command REMOVE ''../secret'' 0) [] []"
  have c: "commanded labs_header (CMD_REMOVE labs_header) ''../secret'' (0, 0) (labs_command REMOVE ''../secret'' 0) [] ?s"
    using labs_commanded(1)[of "''../secret''" REMOVE 0 "[]" "[]"] labs_names labs_codes_of by simp
  have "resolve (l_files ?s) (''backup/'' @ ''../secret'') = Some [''secret'']"
    "lookup (l_files ?s) [''secret''] = Some (RegularFile ''x'')" "writable (l_files ?s) [''secret'']"
    using labs_paths by (simp_all add: labs_files_def[of])
  from legacy_remove[OF c this, of "[]"] show ?thesis by auto
qed

theorem legacy_small_upload_witness:
  "\<exists>t. legacy_round labs_header [] (labs_state (labs_command SEND ''b'' 2) [(0, (0, 0), ''hi'')] []) = Some (True, t) \<and>
     lookup (l_files t) [''backup'', ''b''] = Some (RegularFile ''hi'')"
proof -
  let ?d = "labs_command SEND ''b'' 2"
  let ?s = "labs_state ?d [(0, (0, 0), ''hi'')] []"
  have c: "commanded labs_header (CMD_SEND labs_header) ''b'' (0, 0) ?d [(0, (0, 0), ''hi'')] ?s"
    using labs_commanded(1)[of "''b''" SEND 2 "[(0, (0, 0), ''hi'')]" "[]"] labs_names labs_codes_of by simp
  have z: "get_size labs_header ?d = 2" using labs_commanded(2)[of "''b''" SEND 2] labs_names by simp
  have "resolve (l_files ?s) (''backup/'' @ ''b'') = Some [''backup'', ''b'']" "lookup (l_files ?s) [''backup'', ''b''] = None"
    "writable (l_files ?s) [''backup'', ''b'']" "get_size labs_header ?d \<le> data_len labs_header"
    using labs_paths z by (simp_all add: labs_files_def labs_header_def DATA_BUF_LEN_def)
  from legacy_small_upload[OF c this(4,1-3), of "[]"] z show ?thesis
    by (auto simp: labs_header_def overlay_def DATA_BUF_LEN_def zeros_def)
qed

theorem legacy_small_overwrite_lost_witness:
  "\<exists>u t. legacy_round labs_header [] (labs_state (labs_command SEND ''a'' 2) [(0, (0, 0), labs_command OVERWRITE ''a'' 2)] []) =
       Some (True, u) \<and>
     legacy_round labs_header [] u = Some (True, t) \<and>
     lookup (l_files t) [''backup'', ''a''] = Some (RegularFile ''old'')"
proof -
  let ?d = "labs_command SEND ''a'' 2" and ?x = "labs_command OVERWRITE ''a'' 2"
  let ?s = "labs_state ?d [(0, (0, 0), ?x)] []"
  have c: "commanded labs_header (CMD_SEND labs_header) ''a'' (0, 0) ?d [(0, (0, 0), ?x)] ?s"
    using labs_commanded(1)[of "''a''" SEND 2 "[(0, (0, 0), ?x)]" "[]"] labs_names labs_codes_of by simp
  have x: "commanded labs_header CMD_OVERWRITE ''a'' (0, 0) ?x [] (labs_state ?x [] [])"
    using labs_commanded(1)[of "''a''" OVERWRITE 2 "[]" "[]"] labs_names labs_codes_of by simp
  have "checkFile (''backup/'' @ ''a'') (l_files ?s) = Some True"
    using labs_paths by (simp add: checkFile_def stat_def)
  moreover have "get_size labs_header ?x = 2" "get_error labs_header ?x = 0"
    using labs_commanded(2,3)[of "''a''" OVERWRITE 2] labs_names by simp_all
  ultimately show ?thesis
    using legacy_small_overwrite_lost[OF c, of "''a''" "[]"] x labs_paths(6)
    by (auto simp: commanded_def labs_header_def DATA_BUF_LEN_def)
qed

theorem legacy_large_upload_witness:
  "\<exists>t content. legacy_round labs_header [] (labs_state (labs_command SEND ''b'' 4000) [] [Connected [''hello''] PeerCloses]) = Some (True, t) \<and>
     lookup (l_files t) [''backup'', ''b''] = Some (RegularFile content) \<and> prefix content ''hello'' \<and> current_tcp_port t = 40001"
proof -
  let ?d = "labs_command SEND ''b'' 4000" and ?tcp = "[Connected [''hello''] PeerCloses]"
  let ?s = "labs_state ?d [] ?tcp"
  have c: "commanded labs_header (CMD_SEND labs_header) ''b'' (0, 0) ?d [] ?s"
    using labs_commanded(1)[of "''b''" SEND 4000 "[]" ?tcp] labs_names labs_codes_of by simp
  have z: "data_len labs_header < get_size labs_header ?d"
    using labs_commanded(2)[of "''b''" SEND 4000] labs_names by (simp add: labs_header_def DATA_BUF_LEN_def)
  have p: "resolve (l_files ?s) (''backup/'' @ ''b'') = Some [''backup'', ''b'']" "lookup (l_files ?s) [''backup'', ''b''] = None"
    "writable (l_files ?s) [''backup'', ''b'']" "l_sessions ?s = Connected [''hello''] PeerCloses # []" "\<forall>x \<in> set [''hello'']. x \<noteq> []"
    using labs_paths by simp_all (simp add: labs_files_def)
  from legacy_large_upload[OF c z p, of "[]"] show ?thesis by auto
qed

theorem legacy_rename_witness:
  "\<exists>t. legacy_round labs_header [] (labs_state (labs_command RENAME ''a'' 0) [(0, (0, 0), ''b'' @ zeros 10)] []) = Some (True, t) \<and>
     lookup (l_files t) [''backup'', ''b''] = Some (RegularFile ''old'')"
proof -
  let ?d = "labs_command RENAME ''a'' 0"
  let ?s = "labs_state ?d [(0, (0, 0), ''b'' @ zeros 10)] []"
  have c: "commanded labs_header (CMD_RENAME labs_header) ''a'' (0, 0) ?d [(0, (0, 0), ''b'' @ zeros 10)] ?s"
    using labs_commanded(1)[of "''a''" RENAME 0 "[(0, (0, 0), ''b'' @ zeros 10)]" "[]"] labs_names labs_codes_of by simp
  have "overlay (zeros 3000) (take 3000 (''b'' @ zeros 10)) = ''b'' @ zeros 2999"
    by (simp add: overlay_def zeros_def flip: replicate_add)
  moreover have "c_array (''b'' @ zeros 2999) = Some ''b''" using labs_names by (intro c_array_append_zeros) simp_all
  ultimately have n: "c_array (get_data labs_header (overlay (data_msg ?s) (take (data_bytes labs_header) (''b'' @ zeros 10)))) = Some ''b''"
    by (simp add: labs_header_def DATA_BUF_LEN_def)
  have "fs_wf labs_files" by (simp add: fs_wf_def labs_files_def good_name_def is_dir_def lookup_def slash_def NUL_def)
  then show ?thesis
    using legacy_rename[OF c _ n, of "[''backup'', ''a'']" "''old''" "[''backup'', ''b'']" "[]"] labs_paths
    by (auto simp: labs_files_def)
qed

text \<open>A listing is asked for and answered: the first round from the start of the server.\<close>

theorem legacy_states_witness:
  "\<exists>s. reach (next_round labs_header []) (labs_state (labs_command LS [] 0) [] []) s \<and> s \<noteq> labs_state (labs_command LS [] 0) [] [] \<and>
     server_state s = WAITING \<and> nonblocking (l_os s)"
proof -
  let ?s = "labs_state (labs_command LS [] 0) [] []"
  have c: "commanded labs_header (CMD_LS labs_header) [] (0, 0) (labs_command LS [] 0) [] ?s"
    using labs_commanded(1)[of "[]" LS 0 "[]" "[]"] by (simp add: labs_header_def command_code_def command_table_def)
  define t where "t = process_ls labs_header (entered PROCESS_LS (0, 0) (labs_command LS [] 0) [] ?s)"
  have "next_round labs_header [] ?s = Inr t" using rounds(1)[OF c] by (simp add: next_round_def t_def)
  then have r: "reach (next_round labs_header []) ?s t" using reach_here by (rule reach_next[rotated])
  have "incoming (l_os t) = []" by (simp add: t_def process_ls_def Let_def case_prod_beta)
  then have "t \<noteq> ?s" by auto
  moreover have "cmd_object labs_header (zeros 137)" "length (zeros 3000) = data_bytes labs_header"
    by (simp_all add: cmd_object_def labs_header_def CMD_MSG_LEN_def FILE_NAME_LEN_def DATA_BUF_LEN_def)
  ultimately show ?thesis
    using r legacy_states[OF r[unfolded labs_state_def] labs_header_ok, of] by (auto simp: labs_state_def)
qed

theorem legacy_bad_code_witness:
  "legacy_loop labs_header [] (labs_state (labs_command READY_FOR_NEW_NAME ''a'' 0) [] []) = None"
proof -
  let ?d = "labs_command READY_FOR_NEW_NAME ''a'' 0"
  have c: "commanded labs_header (uint (command_code READY_FOR_NEW_NAME)) ''a'' (0, 0) ?d [] (labs_state ?d [] [])"
    using labs_names by (intro labs_commanded) simp_all
  have "uint (command_code READY_FOR_NEW_NAME) = 11" by (simp add: command_code_def command_table_def)
  then show ?thesis
    using legacy_bad_code[of labs_header "labs_state ?d [] []" "(0, 0)" ?d "[]" "[]"] c commanded_took(2)[OF c]
    by (simp add: commanded_def)
qed

end
