(* ===== verification/Legacy_Client.thy ===== *)
theory Legacy_Client
  imports Legacy_Header
begin

text \<open>
  The client of the first version, \<open>src/original-labs/client.cc\<close>: the variables of \<open>main\<close> are a record,
  each case of its switch a definition. Its socket waits five seconds for an answer. \<open>screen\<close> holds the
  lines the loop prints, those on \<open>cout\<close> and those on \<open>cerr\<close> in one order; the prompts, which end no line,
  are left out. \<open>ram\<close> is what an uninitialised message on the stack holds. \<open>None\<close> is undefined behaviour,
  or the use of a file that is neither regular nor missing.
\<close>

section \<open>State\<close>

datatype Client_State_T =
    WAITING | PROCESS_LS | PROCESS_SEND | PROCESS_GET | PROCESS_REMOVE | PROCESS_RENAME | SHUTDOWN | QUIT

record legacy_client =
  client_state :: Client_State_T
  in_cmd :: string
  file_name :: string
  new_filename :: string
  c_cmd_msg :: string
  c_data_msg :: string
  port_msg :: string
  server_addr :: addr
  cin :: string
  screen :: "string list"
  lc_os :: os
  tcp_connections :: "tcp_client list"
  tcp_streams :: "(addr \<times> string) list"

definition show_line :: "string \<Rightarrow> legacy_client \<Rightarrow> legacy_client" where
  "show_line line s = s\<lparr>screen := screen s @ [line]\<rparr>"

abbreviation show_lines :: "string list \<Rightarrow> legacy_client \<Rightarrow> legacy_client" where
  "show_lines ls s \<equiv> foldl (\<lambda>s l. show_line l s) s ls"

text \<open>An integer on a stream, and a \<open>size_t\<close> assigned to an \<open>int\<close>.\<close>

definition print_int :: "int \<Rightarrow> string" where
  "print_int i = (if i < 0 then CHR ''-'' # print_nat (nat (- i)) else print_nat (nat i))"

definition as_int :: "nat \<Rightarrow> int" where
  "as_int n = sint (of_nat n :: 32 word)"

text \<open>\<open>cin >> word\<close> leaves the word as it was when there is none.\<close>

definition read_word :: "string \<Rightarrow> legacy_client \<Rightarrow> string \<times> legacy_client" where
  "read_word old s =
     (let (w, rest) = getWord (cin s) in (if w = [] then old else w, s\<lparr>cin := rest\<rparr>))"

text \<open>\<open>cin >> answer\<close>; at the end of the input the answer stays uninitialised.\<close>

definition read_yes :: "legacy_client \<Rightarrow> (bool \<times> legacy_client) option" where
  "read_yes s =
     (case dropWhile isspace (cin s) of
        [] \<Rightarrow> None
      | c # rest \<Rightarrow> Some (tolower c = CHR ''y'', s\<lparr>cin := rest\<rparr>))"

section \<open>Messages\<close>

definition c_send :: "string \<Rightarrow> legacy_client \<Rightarrow> bool \<times> legacy_client" where
  "c_send d s = (case send_to (server_addr s) d (lc_os s) of (sent, w) \<Rightarrow> (sent, s\<lparr>lc_os := w\<rparr>))"

text \<open>A receive overwrites the object, and the address of the server by the sender's.\<close>

definition c_receive :: "string \<Rightarrow> legacy_client \<Rightarrow> (bool \<times> string \<times> legacy_client) option" where
  "c_receive object s =
     map_option (\<lambda>(r, w).
       case r of
         None \<Rightarrow> (False, object, s\<lparr>lc_os := w\<rparr>)
       | Some (a, d) \<Rightarrow> (True, overlay object d, s\<lparr>lc_os := w, server_addr := a\<rparr>))
       (recvfrom (length object) (lc_os s))"

text \<open>\<open>strncpy(m.filename, name, FILE_NAME_LEN-1); m.filename[FILE_NAME_LEN-1] = 0\<close>\<close>

definition set_name :: "header \<Rightarrow> string \<Rightarrow> string \<Rightarrow> string" where
  "set_name h name x =
     (let copied = take (name_len h - 1) (c_str name)
      in put_filename h (copied @ zeros (name_len h - 1 - length copied) @ [NUL]) x)"

section \<open>LS\<close>

definition client_ls :: "header \<Rightarrow> legacy_client \<Rightarrow> legacy_client option" where
  "client_ls h s =
     (let s = s\<lparr>c_cmd_msg := put_error h 0 (put_filename h (zeros (name_len h)) (put_size h 0 (put_cmd h (CMD_LS h) (c_cmd_msg s))))\<rparr>
      in case c_send (c_cmd_msg s) s of
           (sent, s) \<Rightarrow>
             if \<not> sent then Some (show_line ''Error sending LS command'' s)
             else do {
               (ok, object, s) \<leftarrow> c_receive (c_data_msg s) s;
               let s = s\<lparr>c_data_msg := object\<rparr>;
               if \<not> ok then Some (show_line ''Timeout or error receiving LS response'' s)
               else if hd (get_data h object) = NUL then Some (show_line '' - server backup folder is empty.'' s)
               else do {
                 names \<leftarrow> parseListing (get_data h object);
                 Some (foldl (\<lambda>s n. show_line ('' - '' @ n) s) (show_line ''Files on server:'' s) names)
               }
             })"

section \<open>SEND\<close>

text \<open>What the loop that sends prints: a line per segment, the error that ends it, the count at the end.\<close>

function segment_lines :: "nat \<Rightarrow> nat option list \<Rightarrow> nat \<Rightarrow> nat \<Rightarrow> string list" where
  "segment_lines filesize script bytes_sent segment_count =
     (let last = ''Total Segment Number is: '' @ print_nat segment_count
      in if bytes_sent < filesize
         then let buffer_size = min 3000 (filesize - bytes_sent);
                  shown = ''Buffer size: '' @ print_nat buffer_size
              in case script of
                   [] \<Rightarrow> shown # segment_lines filesize [] (bytes_sent + buffer_size) (segment_count + 1)
                 | None # script \<Rightarrow> [''Error sending file data'', last]
                 | Some k # script \<Rightarrow>
                     shown # segment_lines filesize script (bytes_sent + min k buffer_size) (segment_count + 1)
         else [last])"
  by pat_completeness auto

termination
  by (relation "measures [\<lambda>(filesize, script, bytes_sent, segment_count). length script,
      \<lambda>(filesize, script, bytes_sent, segment_count). filesize - bytes_sent]") auto

declare segment_lines.simps [simp del]

text \<open>
  The transfer over TCP: the loop that sends is the one the later version kept, its result is ignored,
  and \<open>port_msg\<close> receives the final answer.
\<close>

definition send_tcp :: "header \<Rightarrow> nat \<Rightarrow> string \<Rightarrow> legacy_client \<Rightarrow> legacy_client option" where
  "send_tcp h tcp_port bytes s =
     (let s = show_line ('' - TCP port:'' @ print_int (as_int tcp_port)) s;
          (connection, s) =
            (case tcp_connections s of [] \<Rightarrow> (ConnectFails, s) | x # xs \<Rightarrow> (x, s\<lparr>tcp_connections := xs\<rparr>))
      in case connection of
           ClientSocketFails \<Rightarrow> Some (show_line ''Error creating TCP socket'' s)
         | ConnectFails \<Rightarrow> Some (show_line ''Error connecting to TCP server'' s)
         | ConnectedTo script \<Rightarrow> do {
             let (complete, wire) = sendLoop (length bytes) bytes (zeros 3000) script 0 [];
             let s = show_lines (segment_lines (length bytes) script 0 0)
                       (s\<lparr>tcp_streams := tcp_streams s @ [((fst (server_addr s), of_nat tcp_port), wire)]\<rparr>);
             (ok, object, s) \<leftarrow> c_receive (port_msg s) s;
             let s = s\<lparr>port_msg := object\<rparr>;
             Some (show_line
               (if \<not> ok then ''Timeout or error receiving completion confirmation''
                else if get_cmd h object = CMD_ACK h \<and> get_error h object = 0
                then '' - file transmission is completed.'' else ''Failed to complete file transfer'') s)
           })"

definition send_small :: "header \<Rightarrow> string \<Rightarrow> string \<Rightarrow> legacy_client \<Rightarrow> legacy_client option" where
  "send_small h ram bytes s =
     (let s = s\<lparr>c_data_msg := put_data h (overlay (zeros (data_len h)) bytes) (c_data_msg s)\<rparr>
      in case c_send (c_data_msg s) s of
           (sent, s) \<Rightarrow>
             if \<not> sent then Some (show_line ''Error sending file data'' s)
             else do {
               (ok, ack_msg, s) \<leftarrow> c_receive ram s;
               Some (show_line
                 (if \<not> ok then ''Timeout or error receiving response''
                  else if get_cmd h ack_msg = CMD_ACK h \<and> get_error h ack_msg = 0
                  then ''File sent successfully'' else ''Failed to send file'') s)
             })"

text \<open>
  The file exists on the server. When the user agrees, a large file is sent; for a small one nothing is
  left to do in the code.
\<close>

definition confirm_overwrite :: "header \<Rightarrow> string \<Rightarrow> string \<Rightarrow> string \<Rightarrow> string \<Rightarrow> legacy_client \<Rightarrow> legacy_client option" where
  "confirm_overwrite h ram resp_msg name bytes s = do {
     (yes, s) \<leftarrow> read_yes s;
     let filesize = length bytes;
     let confirm_msg =
       (if yes then set_name h name (put_size h filesize (put_error h 0 (put_cmd h CMD_OVERWRITE ram)))
        else put_error h 1 (put_cmd h CMD_OVERWRITE ram));
     let (sent, s) = c_send confirm_msg s;
     if \<not> sent then Some (show_line ''Error sending confirmation'' s)
     else do {
       (ok, resp_msg, s) \<leftarrow> c_receive resp_msg s;
       if \<not> yes
       then Some (show_line '' - File transfer cancelled.''
                   (if ok then s else show_line ''Timeout or error receiving response'' s))
       else if \<not> ok then Some (show_line ''Timeout or error receiving server confirmation'' s)
       else if get_cmd h resp_msg \<noteq> CMD_ACK h \<and> get_cmd h resp_msg \<noteq> CMD_ACK h + 10
       then Some (show_line (''Unexpected server response: '' @ show_cmd h (get_cmd h resp_msg)) s)
       else do {
         let s = show_line '' - Server ready to receive file'' s;
         if filesize \<le> data_len h then Some s
         else if get_cmd h resp_msg = CMD_ACK h \<and> 0 < get_size h resp_msg
         then send_tcp h (get_size h resp_msg) bytes s
         else do {
           (ok, resp_msg, s) \<leftarrow> c_receive resp_msg s;
           if \<not> ok then Some (show_line ''Timeout or error receiving TCP port'' s)
           else send_tcp h (get_size h resp_msg) bytes s
         }
       }
     }
   }"

definition debug_line :: "header \<Rightarrow> string \<Rightarrow> string" where
  "debug_line h resp_msg =
     '' - DEBUG: Received command: '' @ print_int (get_cmd h resp_msg) @ '', error: '' @
     print_int (get_error h resp_msg) @ '', size: '' @ print_nat (get_size h resp_msg)"

definition client_send :: "header \<Rightarrow> string \<Rightarrow> legacy_client \<Rightarrow> legacy_client option" where
  "client_send h ram s =
     (let (name, s) = read_word (file_name s) s;
          s = s\<lparr>file_name := name\<rparr>
      in case stat (fs (lc_os s)) name of
           None \<Rightarrow> Some (show_line (''File not found: '' @ name) s)
         | Some Socket \<Rightarrow> Some (show_line (''File not found: '' @ name) s)
         | Some (RegularFile bytes) \<Rightarrow>
             (let s = s\<lparr>c_cmd_msg := put_error h 0 (put_size h (length bytes)
                          (set_name h name (put_cmd h (CMD_SEND h) (c_cmd_msg s))))\<rparr>;
                  s = show_line ('' - filesize:'' @ print_nat (length bytes)) s
              in case c_send (c_cmd_msg s) s of
                   (sent, s) \<Rightarrow>
                     if \<not> sent then Some (show_line ''Error sending command'' s)
                     else do {
                       (ok, resp_msg, s) \<leftarrow> c_receive ram s;
                       if \<not> ok then Some (show_line ''Timeout or error receiving response'' s)
                       else do {
                         let s = show_line (debug_line h resp_msg) s;
                         if get_cmd h resp_msg = CMD_FILE_EXISTS then confirm_overwrite h ram resp_msg name bytes s
                         else if get_cmd h resp_msg = CMD_ACK h then
                           (if data_len h < length bytes then send_tcp h (get_size h resp_msg) bytes s
                            else send_small h ram bytes s)
                         else Some s
                       }
                     })
         | _ \<Rightarrow> None)"

section \<open>REMOVE, RENAME and SHUTDOWN\<close>

definition client_remove :: "header \<Rightarrow> string \<Rightarrow> legacy_client \<Rightarrow> legacy_client option" where
  "client_remove h ram s =
     (let (name, s) = read_word (file_name s) s;
          s = s\<lparr>file_name := name, c_cmd_msg := put_error h 0 (put_size h 0
                 (set_name h name (put_cmd h (CMD_REMOVE h) (c_cmd_msg s))))\<rparr>
      in case c_send (c_cmd_msg s) s of
           (sent, s) \<Rightarrow>
             if \<not> sent then Some (show_line ''Error sending delete command'' s)
             else do {
               (ok, ack_msg, s) \<leftarrow> c_receive ram s;
               Some (if \<not> ok then show_line ''Timeout or error receiving response'' s
                     else if get_cmd h ack_msg \<noteq> CMD_ACK h then s
                     else if get_error h ack_msg = 0 then show_line '' - file is removed.'' s
                     else if get_error h ack_msg = 1 then show_line '' - file does not exist on server.'' s
                     else show_line ''Failed to delete file'' s)
             })"

text \<open>
  The target of a rename exists. The result: the answer to the confirmation, or \<open>None\<close> where the case is
  left at once.
\<close>

definition confirm_target :: "header \<Rightarrow> string \<Rightarrow> string \<Rightarrow> legacy_client \<Rightarrow> (string option \<times> legacy_client) option" where
  "confirm_target h ram ack_msg s = do {
     (yes, s) \<leftarrow> read_yes s;
     let (sent, s) = c_send (put_error h (if yes then 0 else 1) (put_cmd h CMD_OVERWRITE ram)) s;
     if \<not> sent then Some (None, show_line ''Error sending confirmation'' s)
     else do {
       (ok, ack_msg, s) \<leftarrow> c_receive ack_msg s;
       Some (if \<not> ok then (None, show_line ''Timeout or error receiving response'' s)
             else if get_error h ack_msg = 2 then (None, show_line '' - Rename cancelled.'' s)
             else (Some ack_msg, s))
     }
   }"

text \<open>A second receive, with a timeout of one second, after an answer that is no acknowledgement.\<close>

definition last_chance :: "header \<Rightarrow> bool \<Rightarrow> string \<Rightarrow> legacy_client \<Rightarrow> (bool \<times> string \<times> legacy_client) option" where
  "last_chance h rename_success ack_msg s =
     (if rename_success \<or> get_cmd h ack_msg = CMD_ACK h then Some (rename_success, ack_msg, s)
      else do {
        let old = rcvtimeo (lc_os s);
        (ok, ack_msg, s) \<leftarrow> c_receive ack_msg (s\<lparr>lc_os := set_rcvtimeo 1000 (lc_os s)\<rparr>);
        Some (ok \<and> get_cmd h ack_msg = CMD_ACK h \<and> get_error h ack_msg = 0, ack_msg,
              s\<lparr>lc_os := set_rcvtimeo old (lc_os s)\<rparr>)
      })"

definition renamed :: "header \<Rightarrow> bool \<Rightarrow> string \<Rightarrow> legacy_client \<Rightarrow> legacy_client" where
  "renamed h rename_success ack_msg s =
     (if rename_success \<or> get_cmd h ack_msg = CMD_ACK h then show_line '' -file has been renamed.'' s else s)"

definition client_rename :: "header \<Rightarrow> string \<Rightarrow> legacy_client \<Rightarrow> legacy_client option" where
  "client_rename h ram s =
     (let (name, s) = read_word (file_name s) s;
          (new, s) = read_word (new_filename s) s;
          s = s\<lparr>file_name := name, new_filename := new,
                c_cmd_msg := put_error h 0 (put_size h 0 (set_name h name (put_cmd h (CMD_RENAME h) (c_cmd_msg s)))),
                c_data_msg := put_data h (overlay (zeros (data_len h)) (take (data_len h - 1) (c_str new))) (c_data_msg s)\<rparr>
      in case c_send (c_cmd_msg s) s of
           (sent, s) \<Rightarrow>
             if \<not> sent then Some (show_line ''Error sending rename command'' s)
             else (case c_send (c_data_msg s) s of
                     (sent, s) \<Rightarrow>
                       if \<not> sent then Some (show_line ''Error sending new filename'' s)
                       else do {
                         (ok, ack_msg, s) \<leftarrow> c_receive ram s;
                         if \<not> ok then Some (renamed h False ack_msg (show_line ''Timeout or error receiving response'' s))
                         else if get_cmd h ack_msg = CMD_ACK h \<and> get_error h ack_msg = 1
                         then Some (show_line '' - source file does not exist on server.'' s)
                         else do {
                           let rename_success = (get_cmd h ack_msg = CMD_ACK h \<and> get_error h ack_msg = 0);
                           (answer, s) \<leftarrow> (if get_cmd h ack_msg = CMD_FILE_EXISTS then confirm_target h ram ack_msg s
                                            else Some (Some ack_msg, s));
                           case answer of
                             None \<Rightarrow> Some s
                           | Some ack_msg \<Rightarrow> do {
                               (rename_success, ack_msg, s) \<leftarrow> last_chance h rename_success ack_msg s;
                               Some (renamed h rename_success ack_msg s)
                             }
                         }
                       }))"

definition client_shutdown :: "header \<Rightarrow> legacy_client \<Rightarrow> legacy_client" where
  "client_shutdown h s =
     (let s = s\<lparr>c_cmd_msg := put_error h 0 (put_size h 0 (put_cmd h (CMD_SHUTDOWN h) (c_cmd_msg s)))\<rparr>
      in case c_send (c_cmd_msg s) s of
           (sent, s) \<Rightarrow> show_line (if sent then '' - server is shutdown.'' else ''Error sending shutdown command'') s)"

section \<open>The loop\<close>

definition read_command :: "legacy_client \<Rightarrow> legacy_client" where
  "read_command s =
     (let (c, s) = read_word (in_cmd s) s;
          s = s\<lparr>in_cmd := c\<rparr>
      in if c = ''ls'' then s\<lparr>client_state := PROCESS_LS\<rparr>
         else if c = ''send'' then s\<lparr>client_state := PROCESS_SEND\<rparr>
         else if c = ''remove'' then s\<lparr>client_state := PROCESS_REMOVE\<rparr>
         else if c = ''rename'' then s\<lparr>client_state := PROCESS_RENAME\<rparr>
         else if c = ''shutdown'' then s\<lparr>client_state := SHUTDOWN\<rparr>
         else if c = ''quit'' then s\<lparr>client_state := QUIT\<rparr>
         else (show_line '' - wrong command.'' s)\<lparr>client_state := WAITING\<rparr>)"

text \<open>One round of the loop, which begins with a pause of 100 milliseconds; does another one follow?\<close>

definition client_round :: "header \<Rightarrow> string \<Rightarrow> legacy_client \<Rightarrow> (bool \<times> legacy_client) option" where
  "client_round h ram s =
     (let s = s\<lparr>lc_os := (lc_os s)\<lparr>clock := clock (lc_os s) + 100\<rparr>\<rparr>;
          back = map_option (\<lambda>s. (True, s\<lparr>client_state := WAITING\<rparr>))
      in case client_state s of
           WAITING \<Rightarrow> Some (True, read_command s)
         | PROCESS_LS \<Rightarrow> back (client_ls h s)
         | PROCESS_SEND \<Rightarrow> back (client_send h ram s)
         | PROCESS_REMOVE \<Rightarrow> back (client_remove h ram s)
         | PROCESS_RENAME \<Rightarrow> back (client_rename h ram s)
         | SHUTDOWN \<Rightarrow> back (Some (client_shutdown h s))
         | QUIT \<Rightarrow> Some (False, show_line ''Exiting client'' s)
         | PROCESS_GET \<Rightarrow> back (Some s))"

partial_function (option) client_loop :: "header \<Rightarrow> string \<Rightarrow> legacy_client \<Rightarrow> legacy_client option" where
  "client_loop h ram s =
     Option.bind (client_round h ram s) (\<lambda>(goes, s). if goes then client_loop h ram s else Some s)"

text \<open>The command line: two or four arguments, in pairs; one pair must not be the address.\<close>

fun client_pairs :: "nat \<Rightarrow> string list \<Rightarrow> u16 \<Rightarrow> string \<Rightarrow> (u16 \<times> string) option option" where
  "client_pairs argc (a # v # rest) udp_port server_host =
     (if a = ''-port'' then Option.bind (atoi v) (\<lambda>n. client_pairs argc rest (of_int n) server_host)
      else if a = ''-address'' then (if argc = 3 then Some None else client_pairs argc rest udp_port v)
      else Some None)"
| "client_pairs argc _ udp_port server_host = Some (Some (udp_port, server_host))"

definition legacy_client_start :: "addr \<Rightarrow> os \<Rightarrow> string \<Rightarrow> tcp_client list \<Rightarrow> string \<Rightarrow> string \<Rightarrow> string \<Rightarrow> legacy_client" where
  "legacy_client_start server w input tcp cmd data port =
     \<lparr>client_state = WAITING, in_cmd = [], file_name = [], new_filename = [], c_cmd_msg = cmd, c_data_msg = data,
      port_msg = port, server_addr = server, cin = input, screen = [], lc_os = set_rcvtimeo 5000 w,
      tcp_connections = tcp, tcp_streams = []\<rparr>"

definition legacy_client_main ::
  "header \<Rightarrow> string list \<Rightarrow> bool \<Rightarrow> (string \<Rightarrow> u32 option) \<Rightarrow> os \<Rightarrow> string \<Rightarrow> tcp_client list \<Rightarrow> string \<Rightarrow> string \<Rightarrow> string \<Rightarrow>
     string \<Rightarrow> int option"
where
  "legacy_client_main h arguments created resolveHost w input tcp cmd data port ram =
     (if length arguments \<noteq> 2 \<and> length arguments \<noteq> 4 then Some 1
      else do {
        parsed \<leftarrow> client_pairs (length arguments + 1) arguments 0 ''127.0.0.1'';
        case parsed of
          None \<Rightarrow> Some 1
        | Some (udp_port, server_host) \<Rightarrow>
            if \<not> created then Some 1
            else (case resolveHost server_host of
                    None \<Rightarrow> Some 1
                  | Some a \<Rightarrow>
                      map_option (\<lambda>_. 0)
                        (client_loop h ram (legacy_client_start (a, udp_port) w input tcp cmd data port)))
      })"

end
