(* ===== verification/Legacy_System.thy ===== *)
theory Legacy_System
  imports Legacy_Spec Legacy_Client Listing
begin

text \<open>
  The first versions of client and server together, and what the client tells its user: the data of a
  small upload is sent only after the server has given up waiting for it; a rename that failed is
  reported as done; at the end of its input the client repeats its last command for ever. A listing and a
  removal work.
\<close>

section \<open>Sending and receiving\<close>

lemma c_send_ok: "send_script (lc_os s) = [] \<Longrightarrow>
    c_send d s = (True, s\<lparr>lc_os := (lc_os s)\<lparr>outgoing := outgoing (lc_os s) @ [(server_addr s, d)]\<rparr>\<rparr>)"
  by (simp add: c_send_def send_to_def)

lemma c_receive_answer:
  assumes "incoming (lc_os s) = (k, b, r) # later" "\<not> nonblocking (lc_os s)" "0 < rcvtimeo (lc_os s)"
    and "k \<le> clock (lc_os s) + rcvtimeo (lc_os s)" "length r = length x"
  shows "c_receive x s = Some (True, r, s\<lparr>lc_os := (lc_os s)\<lparr>incoming := later, clock := max k (clock (lc_os s))\<rparr>, server_addr := b\<rparr>)"
  using assms by (auto simp: c_receive_def recvfrom_def max_def)

lemma c_receive_silent:
  assumes "incoming (lc_os s) = []" "\<not> nonblocking (lc_os s)" "0 < rcvtimeo (lc_os s)"
  shows "c_receive x s = Some (False, x, s\<lparr>lc_os := (lc_os s)\<lparr>clock := clock (lc_os s) + rcvtimeo (lc_os s)\<rparr>\<rparr>)"
  using assms by (simp add: c_receive_def recvfrom_def)

lemma read_word_present:
  "getWord (cin s) = (w, rest) \<Longrightarrow> w \<noteq> [] \<Longrightarrow> read_word old s = (w, s\<lparr>cin := rest\<rparr>)"
  by (simp add: read_word_def)

lemma show_line_fields [simp]: "screen (show_line l s) = screen s @ [l]" "lc_os (show_line l s) = lc_os s"
  by (simp_all add: show_line_def)

section \<open>A small upload\<close>

text \<open>The commands the client sends about a file.\<close>

definition command_message :: "header \<Rightarrow> int \<Rightarrow> string \<Rightarrow> nat \<Rightarrow> string \<Rightarrow> string" where
  "command_message h code name n x = put_error h 0 (put_size h n (set_name h name (put_cmd h code x)))"

abbreviation send_message :: "header \<Rightarrow> string \<Rightarrow> nat \<Rightarrow> string \<Rightarrow> string" where
  "send_message h \<equiv> command_message h (CMD_SEND h)"

abbreviation rename_message :: "header \<Rightarrow> string \<Rightarrow> string \<Rightarrow> string" where
  "rename_message h name \<equiv> command_message h (CMD_RENAME h) name 0"

abbreviation remove_message :: "header \<Rightarrow> string \<Rightarrow> string \<Rightarrow> string" where
  "remove_message h name \<equiv> command_message h (CMD_REMOVE h) name 0"

lemma set_name_reads:
  assumes "header_ok h" "cmd_object h x" "NUL \<notin> set name" "length name < name_len h"
  shows "cmd_object h (set_name h name x)" "c_array (get_filename h (set_name h name x)) = Some name"
    "get_cmd h (set_name h name x) = get_cmd h x" "get_size h (set_name h name x) = get_size h x"
    "get_error h (set_name h name x) = get_error h x"
proof -
  let ?f = "name @ zeros (name_len h - 1 - length name) @ [NUL]"
  have n: "take (name_len h - 1) (c_str name) = name" "length ?f = name_len h" using assms(3,4) by simp_all
  then have "set_name h name x = put_filename h ?f x" by (simp add: set_name_def)
  moreover have "c_array ?f = Some name"
    using c_array_append_zeros[OF assms(3), of "Suc (name_len h - 1 - length name)"]
    by (simp add: zeros_def replicate_append_same)
  ultimately show "cmd_object h (set_name h name x)" "c_array (get_filename h (set_name h name x)) = Some name"
    "get_cmd h (set_name h name x) = get_cmd h x" "get_size h (set_name h name x) = get_size h x"
    "get_error h (set_name h name x) = get_error h x"
    using assms(1,2) n(2) by (simp_all add: header_ok_def)
qed

lemma command_message_reads:
  assumes "header_ok h" "cmd_object h x" "NUL \<notin> set name" "length name < name_len h" "code \<in> codes h"
  shows "cmd_object h (command_message h code name n x)" "get_cmd h (command_message h code name n x) = code"
    "c_array (get_filename h (command_message h code name n x)) = Some name"
    "n < 2 ^ 31 \<Longrightarrow> get_size h (command_message h code name n x) = n"
proof -
  let ?y = "put_cmd h code x"
  have y: "cmd_object h ?y" "get_cmd h ?y = code" using header_members[OF assms(1,2)] assms(5) by simp_all
  note z = set_name_reads[OF assms(1) y(1) assms(3,4)]
  show "cmd_object h (command_message h code name n x)" "get_cmd h (command_message h code name n x) = code"
    "c_array (get_filename h (command_message h code name n x)) = Some name"
    "n < 2 ^ 31 \<Longrightarrow> get_size h (command_message h code name n x) = n"
    using assms(1) y(2) z by (simp_all add: command_message_def header_ok_def)
qed

text \<open>The environment of either program when the given datagrams are what arrives next.\<close>

definition hearing :: "(nat \<times> addr \<times> string) list \<Rightarrow> legacy_client \<Rightarrow> legacy_client" where
  "hearing arrivals c = c\<lparr>lc_os := (lc_os c)\<lparr>incoming := arrivals\<rparr>\<rparr>"

definition delivered :: "(nat \<times> addr \<times> string) list \<Rightarrow> legacy \<Rightarrow> legacy" where
  "delivered arrivals s = s\<lparr>l_os := (l_os s)\<lparr>incoming := arrivals\<rparr>\<rparr>"

lemma delivered_simps [simp]:
  "legacy_ok h (delivered q s) = legacy_ok h s" "cmd_msg (delivered q s) = cmd_msg s" "l_files (delivered q s) = l_files s"
  "incoming (l_os (delivered q s)) = q" "send_script (l_os (delivered q s)) = send_script (l_os s)"
  "outgoing (l_os (delivered q s)) = outgoing (l_os s)" "clock (l_os (delivered q s)) = clock (l_os s)"
  by (simp_all add: delivered_def legacy_ok_def objects_ok_def l_files_def)

lemma hearing_simps [simp]:
  "cin (hearing q c) = cin c" "file_name (hearing q c) = file_name c" "new_filename (hearing q c) = new_filename c"
  "c_cmd_msg (hearing q c) = c_cmd_msg c" "c_data_msg (hearing q c) = c_data_msg c" "server_addr (hearing q c) = server_addr c"
  "screen (hearing q c) = screen c" "incoming (lc_os (hearing q c)) = q" "fs (lc_os (hearing q c)) = fs (lc_os c)"
  "clock (lc_os (hearing q c)) = clock (lc_os c)" "outgoing (lc_os (hearing q c)) = outgoing (lc_os c)"
  "nonblocking (lc_os (hearing q c)) = nonblocking (lc_os c)" "rcvtimeo (lc_os (hearing q c)) = rcvtimeo (lc_os c)"
  "send_script (lc_os (hearing q c)) = send_script (lc_os c)"
  by (simp_all add: hearing_def)

text \<open>A client at work: complete objects, a blocking socket with a timeout, and sending works.\<close>

definition client_ready :: "header \<Rightarrow> legacy_client \<Rightarrow> bool" where
  "client_ready h c \<longleftrightarrow>
     cmd_object h (c_cmd_msg c) \<and> length (c_data_msg c) = data_bytes h \<and> \<not> nonblocking (lc_os c) \<and>
     0 < rcvtimeo (lc_os c) \<and> send_script (lc_os c) = []"

text \<open>The data message of a small upload.\<close>

definition data_message :: "header \<Rightarrow> string \<Rightarrow> string \<Rightarrow> string" where
  "data_message h bytes x = put_data h (overlay (zeros (data_len h)) bytes) x"

lemma client_sends_small:
  assumes "header_ok h" "client_ready h c" "fst (getWord (cin c)) = name" "name \<noteq> []"
    and "stat (fs (lc_os c)) name = Some (RegularFile bytes)" "length bytes \<le> data_len h"
    and "length ram = cmd_bytes h" "length r = cmd_bytes h" "get_cmd h r = CMD_ACK h" "k \<le> clock (lc_os c) + rcvtimeo (lc_os c)"
  shows "\<exists>t. client_send h ram (hearing [(k, b, r)] c) = Some t \<and>
    screen t = screen c @ ['' - filesize:'' @ print_nat (length bytes), debug_line h r, ''Timeout or error receiving response''] \<and>
    outgoing (lc_os t) = outgoing (lc_os c) @
      [(server_addr c, send_message h name (length bytes) (c_cmd_msg c)), (b, data_message h bytes (c_data_msg c))]"
proof -
  let ?c = "hearing [(k, b, r)] c" and ?m = "send_message h name (length bytes) (c_cmd_msg c)"
    and ?d = "data_message h bytes (c_data_msg c)"
  obtain rest where "getWord (cin ?c) = (name, rest)" using assms(3) by (cases "getWord (cin c)") simp
  then have w: "read_word (file_name ?c) ?c = (name, ?c\<lparr>cin := rest\<rparr>)" using assms(4) by (rule read_word_present)
  define c1 where "c1 = show_line ('' - filesize:'' @ print_nat (length bytes)) (?c\<lparr>cin := rest, file_name := name, c_cmd_msg := ?m\<rparr>)"
  define c2 where "c2 = c1\<lparr>lc_os := (lc_os c1)\<lparr>outgoing := outgoing (lc_os c) @ [(server_addr c, ?m)]\<rparr>\<rparr>"
  define c2' where "c2' = c2\<lparr>lc_os := (lc_os c2)\<lparr>incoming := [], clock := max k (clock (lc_os c))\<rparr>, server_addr := b\<rparr>"
  define c3 where "c3 = show_line (debug_line h r) c2'"
  define c4 where "c4 = c3\<lparr>c_data_msg := ?d\<rparr>"
  define c5 where "c5 = c4\<lparr>lc_os := (lc_os c4)\<lparr>outgoing := outgoing (lc_os c3) @ [(b, ?d)]\<rparr>\<rparr>"
  note steps = c1_def c2_def c2'_def c3_def c4_def c5_def show_line_def
  have s1: "c_send ?m c1 = (True, c2)" using assms(2) by (subst c_send_ok) (simp_all add: steps client_ready_def)
  have s2: "c_receive ram c2 = Some (True, r, c2')"
    using assms(2,7,8,10) by (subst c_receive_answer[of _ k b r "[]"]) (simp_all add: steps client_ready_def)
  have s3: "c_send ?d c4 = (True, c5)" using assms(2) by (subst c_send_ok) (simp_all add: steps client_ready_def)
  obtain c6 where s4: "c_receive ram c5 = Some (False, ram, c6)" "screen c6 = screen c5" "outgoing (lc_os c6) = outgoing (lc_os c5)"
    using c_receive_silent[of c5 ram] assms(2) by (simp add: steps client_ready_def)
  have "c_data_msg c3 = c_data_msg c" by (simp add: steps)
  then have "send_small h ram bytes c3 = Some (show_line ''Timeout or error receiving response'' c6)"
    using s3 s4 by (simp add: send_small_def data_message_def Let_def c4_def)
  moreover have "CMD_ACK h \<noteq> CMD_FILE_EXISTS" using assms(1) by (auto simp: header_ok_def)
  moreover have "c_cmd_msg c1 = ?m" by (simp add: steps)
  ultimately have "client_send h ram ?c = Some (show_line ''Timeout or error receiving response'' c6)"
    using w s1 s2 assms(5,6,9) by (simp add: client_send_def Let_def command_message_def c1_def c3_def)
  moreover have "screen c5 = screen c @ ['' - filesize:'' @ print_nat (length bytes), debug_line h r]"
    "outgoing (lc_os c5) = outgoing (lc_os c) @ [(server_addr c, ?m), (b, ?d)]"
    by (simp_all add: steps)
  ultimately show ?thesis using s4(2,3) by simp
qed

text \<open>The word the user typed is a name that both programs can use.\<close>

definition typed :: "header \<Rightarrow> string \<Rightarrow> legacy_client \<Rightarrow> bool" where
  "typed h name c \<longleftrightarrow> fst (getWord (cin c)) = name \<and> name \<noteq> [] \<and> NUL \<notin> set name \<and> length name < name_len h"

text \<open>
  C28: the two programs together cannot upload a small new file. The client sends the command and waits for
  the answer; the server finds no data, refuses with error 1 and stores nothing. The client takes the
  refusal for the go-ahead and sends the data, which the server reads as its next command. If the first
  byte of the data gives a code of eleven or more, as that of any text does in the usual layout, the
  server ends in undefined behaviour in that round. What the user sees: the size of the file, a debugging
  line with the error 1, and, as no further answer comes, that of a timeout, never that the file was sent.
\<close>

theorem legacy_upload_kills_server:
  assumes "header_ok h" "legacy_ok h s" "send_script (l_os s) = []" "client_ready h c" "typed h name c"
    and "stat (fs (lc_os c)) name = Some (RegularFile bytes)" "length bytes \<le> data_len h" "length bytes < 2 ^ 31"
    and "checkFile (''backup/'' @ name) (l_files s) = Some False" "length ram = cmd_bytes h"
    and "11 \<le> get_cmd h (overlay (send_message h name (length bytes) (c_cmd_msg c))
           (take (cmd_bytes h) (data_message h bytes (c_data_msg c))))"
  shows "\<exists>t r c'. legacy_round h ram (delivered [(0, a, send_message h name (length bytes) (c_cmd_msg c))] s) = Some (True, t) \<and>
    l_files t = l_files s \<and> outgoing (l_os t) = outgoing (l_os s) @ [(a, r)] \<and> get_error h r = 1 \<and>
    client_send h ram (hearing [(0, b, r)] c) = Some c' \<and>
    screen c' = screen c @
      ['' - filesize:'' @ print_nat (length bytes),
       '' - DEBUG: Received command: '' @ print_int (CMD_ACK h) @ '', error: 1, size: '' @ print_nat (get_size h r),
       ''Timeout or error receiving response''] \<and>
    outgoing (lc_os c') = outgoing (lc_os c) @
      [(server_addr c, send_message h name (length bytes) (c_cmd_msg c)), (b, data_message h bytes (c_data_msg c))] \<and>
    legacy_round h ram (delivered [(0, a, data_message h bytes (c_data_msg c))] t) = None"
proof -
  let ?m = "send_message h name (length bytes) (c_cmd_msg c)" and ?d = "data_message h bytes (c_data_msg c)"
  have c: "cmd_object h (c_cmd_msg c)" "length (c_data_msg c) = data_bytes h" using assms(4) by (simp_all add: client_ready_def)
  have n: "NUL \<notin> set name" "length name < name_len h" "fst (getWord (cin c)) = name" "name \<noteq> []" using assms(5) by (simp_all add: typed_def)
  note m = command_message_reads[OF assms(1) c(1) n(1,2), of "CMD_SEND h" "length bytes", simplified]
  have "0 < cmd_bytes h" using assms(1) by (simp add: header_ok_def)
  then have "?m \<noteq> []" using m(1) by (auto simp: cmd_object_def)
  then have s: "commanded h (CMD_SEND h) name a ?m [] (delivered [(0, a, ?m)] s)"
    using assms(1-3) m(1-3) by (simp add: commanded_def arrived_def)
  obtain t r where t: "legacy_round h ram (delivered [(0, a, ?m)] s) = Some (True, t)" "legacy_ok h t" "l_files t = l_files s"
    "cmd_msg t = ?m" "outgoing (l_os t) = outgoing (l_os s) @ [(a, r)]" "cmd_object h r" "get_cmd h r = CMD_ACK h" "get_error h r = 1"
    using small_upload_refused[OF s, of ram] assms(7-9) m(4) by auto
  obtain c' where c': "client_send h ram (hearing [(0, b, r)] c) = Some c'"
    "screen c' = screen c @ ['' - filesize:'' @ print_nat (length bytes), debug_line h r, ''Timeout or error receiving response'']"
    "outgoing (lc_os c') = outgoing (lc_os c) @ [(server_addr c, ?m), (b, ?d)]"
    using client_sends_small[OF assms(1,4) n(3,4) assms(6,7,10), of r 0 b] t(6,7) by (auto simp: cmd_object_def)
  have "print_int 1 = ''1''" by code_simp
  then have l: "debug_line h r =
      '' - DEBUG: Received command: '' @ print_int (CMD_ACK h) @ '', error: 1, size: '' @ print_nat (get_size h r)"
    using t(7,8) by (simp add: debug_line_def)
  have "length ?d = data_bytes h" "0 < data_bytes h" using assms(1,7) c(2) by (simp_all add: data_message_def header_ok_def)
  then have "arrived a ?d [] (delivered [(0, a, ?d)] t)" by (auto simp: arrived_def)
  then have "legacy_round h ram (delivered [(0, a, ?d)] t) = None"
    using bad_code_ends[OF assms(1), of "delivered [(0, a, ?d)] t" a ?d "[]" ram] t(2,4) m(1) assms(11) by (simp add: cmd_object_def)
  with t(1,3,5,8) c' show ?thesis unfolding l by blast
qed

section \<open>Listing\<close>

text \<open>With the buffer size of the later version both versions pack the names alike.\<close>

lemma pack_names_eq: "pack_names DATA_BUF_LEN ns offset data = packNames ns offset data"
  by (induction ns arbitrary: offset data) simp_all

lemma ls_answered:
  assumes "commanded h (CMD_LS h) name a d rest s" "data_len h = DATA_BUF_LEN" "readdir ''backup'' (l_files s) = Some entries"
  shows "\<exists>t r. legacy_round h ram s = Some (True, t) \<and> l_files t = l_files s \<and>
    outgoing (l_os t) = outgoing (l_os s) @ [(a, r)] \<and> length r = data_bytes h \<and>
    get_data h r = packNames (filter (\<lambda>n. n \<noteq> ''.'' \<and> n \<noteq> ''..'') entries) 0 DataMsg"
proof -
  define u where "u = entered Server_State_T.PROCESS_LS a d rest s"
  have u: "send_script (l_os u) = []" "header_ok h" "l_files u = l_files s" "outgoing (l_os u) = outgoing (l_os s)" "client_addr u = a"
    using entered_ok[OF assms(1)] by (simp_all add: u_def)
  define names where "names = filter (\<lambda>n. n \<noteq> ''.'' \<and> n \<noteq> ''..'') entries"
  define x where "x = put_data h (packNames names 0 DataMsg) (zeros (data_bytes h))"
  have z: "get_data h (zeros (data_bytes h)) = DataMsg" using u(2) assms(2) by (simp add: header_ok_def DataMsg_def)
  have "length (packNames names 0 DataMsg) = data_len h"
    using length_pack_names[of DataMsg "data_len h"] assms(2) by (simp add: pack_names_eq DataMsg_def)
  then have x: "length x = data_bytes h" "get_data h x = packNames names 0 DataMsg"
    using u(2) by (simp_all add: x_def header_ok_def)
  define v where "v = (set_l_files (l_files s) u)\<lparr>data_msg := x\<rparr>"
  have v: "send_script (l_os v) = []" "outgoing (l_os v) = outgoing (l_os s)" "client_addr v = a" "l_files v = l_files s"
    using u by (simp_all add: v_def) (simp add: l_files_def set_l_files_def)
  have "process_ls h u = (snd (l_send x v))\<lparr>server_state := Server_State_T.WAITING\<rparr>"
    using assms(2,3) u(3) z by (simp add: process_ls_def getDirectory_def Let_def v_def x_def names_def pack_names_eq)
  moreover have "outgoing (l_os (snd (l_send x v))) = outgoing (l_os s) @ [(a, x)]"
    using v by (simp add: l_send_def send_to_def)
  ultimately show ?thesis
    using rounds(1)[OF assms(1)] v(4) x by (simp add: u_def names_def)
qed

lemma listing_empty: "parseListing data = Some ns \<Longrightarrow> hd data = NUL \<longleftrightarrow> ns = []"
  by (cases data) (subst (asm) parseListing.simps, auto split: if_splits option.splits)+

definition ls_message :: "header \<Rightarrow> string \<Rightarrow> string" where
  "ls_message h x = put_error h 0 (put_filename h (zeros (name_len h)) (put_size h 0 (put_cmd h (CMD_LS h) x)))"

lemma ls_message_commands:
  assumes "header_ok h" "legacy_ok h s" "send_script (l_os s) = []" "cmd_object h x"
  shows "commanded h (CMD_LS h) [] a (ls_message h x) [] (delivered [(0, a, ls_message h x)] s)"
proof -
  have m: "cmd_object h (ls_message h x)" "get_cmd h (ls_message h x) = CMD_LS h"
    "get_filename h (ls_message h x) = zeros (name_len h)"
    using assms(1,4) by (simp_all add: ls_message_def header_ok_def codes_def)
  have "c_array (zeros (name_len h)) = Some []"
    using c_array_append_zeros[of "[]" "name_len h"] assms(1) by (simp add: header_ok_def)
  moreover have "ls_message h x \<noteq> []" using m(1) assms(1) by (auto simp: cmd_object_def header_ok_def)
  ultimately show ?thesis using assms(1-3) m by (simp add: commanded_def arrived_def)
qed

text \<open>
  C27: a listing works between the two programs, when the data array has the 3000 bytes of the later version:
  whatever legal names the backup directory holds, the server packs those that fit into one message, and
  the client shows exactly these, in order, or says that the folder is empty. The datagram the client sends
  is such a command, in this state of the server or any other.
\<close>

theorem legacy_ls_end_to_end:
  assumes "header_ok h" "data_len h = DATA_BUF_LEN" "commanded h (CMD_LS h) name a m [] s" "client_ready h c"
    and "readdir ''backup'' (l_files s) = Some entries" "names = filter (\<lambda>n. n \<noteq> ''.'' \<and> n \<noteq> ''..'') entries"
    and "\<forall>n \<in> set names. NUL \<notin> set n \<and> n \<noteq> []"
  shows "\<exists>t r c'. legacy_round h ram s = Some (True, t) \<and> outgoing (l_os t) = outgoing (l_os s) @ [(a, r)] \<and>
    l_files t = l_files s \<and> client_ls h (hearing [(0, b, r)] c) = Some c' \<and>
    screen c' = screen c @ (if placedNames names 0 = [] then ['' - server backup folder is empty.'']
      else ''Files on server:'' # map (\<lambda>n. '' - '' @ n) (placedNames names 0)) \<and>
    (length (packed names) < 3000 \<longrightarrow> placedNames names 0 = names) \<and>
    outgoing (lc_os c') = outgoing (lc_os c) @ [(server_addr c, ls_message h (c_cmd_msg c))] \<and>
    (\<forall>s' a'. legacy_ok h s' \<and> send_script (l_os s') = [] \<longrightarrow>
       commanded h (CMD_LS h) [] a' (ls_message h (c_cmd_msg c)) [] (delivered [(0, a', ls_message h (c_cmd_msg c))] s'))"
proof -
  obtain t r where t: "legacy_round h ram s = Some (True, t)" "l_files t = l_files s"
    "outgoing (l_os t) = outgoing (l_os s) @ [(a, r)]" "length r = data_bytes h" "get_data h r = packNames names 0 DataMsg"
    using ls_answered[OF assms(3,2,5), of ram] assms(6) by blast
  note p = parse_pack[OF assms(7)]
  have e: "hd (get_data h r) = NUL \<longleftrightarrow> placedNames names 0 = []"
    using listing_empty p t(5) by metis
  have shown: "screen (foldl (\<lambda>s n. show_line ('' - '' @ n) s) u ns) = screen u @ map (\<lambda>n. '' - '' @ n) ns"
    "lc_os (foldl (\<lambda>s n. show_line ('' - '' @ n) s) u ns) = lc_os u" for u ns
    by (induction ns arbitrary: u) simp_all
  let ?c = "hearing [(0, b, r)] c"
    and ?m = "put_error h 0 (put_filename h (zeros (name_len h)) (put_size h 0 (put_cmd h (CMD_LS h) (c_cmd_msg c))))"
  define c1 where "c1 = ?c\<lparr>c_cmd_msg := ?m\<rparr>"
  define c2 where "c2 = c1\<lparr>lc_os := (lc_os c1)\<lparr>outgoing := outgoing (lc_os c) @ [(server_addr c, ?m)]\<rparr>\<rparr>"
  define c3 where "c3 = c2\<lparr>lc_os := (lc_os c2)\<lparr>incoming := [], clock := clock (lc_os c)\<rparr>, server_addr := b\<rparr>"
  note steps = c1_def c2_def c3_def
  have "c_send ?m c1 = (True, c2)" using assms(4) by (subst c_send_ok) (simp_all add: steps client_ready_def)
  moreover have "c_receive (c_data_msg c2) c2 = Some (True, r, c3)"
    using assms(4) t(4) by (subst c_receive_answer[of _ 0 b r "[]"]) (simp_all add: steps client_ready_def)
  moreover define c4 where "c4 = c3\<lparr>c_data_msg := r\<rparr>"
  moreover define c' where "c' = (if placedNames names 0 = [] then show_line '' - server backup folder is empty.'' c4
    else foldl (\<lambda>s n. show_line ('' - '' @ n) s) (show_line ''Files on server:'' c4) (placedNames names 0))"
  moreover have "server_addr ?c = server_addr c" "c_cmd_msg ?c = c_cmd_msg c" by simp_all
  ultimately have "client_ls h ?c = Some c'"
    using p t(5) e by (simp add: client_ls_def Let_def c1_def)
  moreover have "screen c' = screen c @ (if placedNames names 0 = [] then ['' - server backup folder is empty.'']
      else ''Files on server:'' # map (\<lambda>n. '' - '' @ n) (placedNames names 0))"
    unfolding c'_def using shown by (simp add: c4_def steps)
  moreover have "outgoing (lc_os c') = outgoing (lc_os c) @ [(server_addr c, ls_message h (c_cmd_msg c))]"
    unfolding c'_def using shown by (simp add: c4_def steps ls_message_def)
  moreover have "cmd_object h (c_cmd_msg c)" using assms(4) by (simp add: client_ready_def)
  ultimately show ?thesis using t p ls_message_commands[OF assms(1)] by blast
qed

section \<open>Removing\<close>

text \<open>
  C26: a removal works between the two programs: the command the client sends makes the server delete the
  regular file of that name, and nothing else, and with the server's answer the client tells its user so.
  The path is taken as the user typed it, so the file may lie outside the backup directory.
\<close>

theorem legacy_remove_end_to_end:
  assumes "header_ok h" "legacy_ok h s" "send_script (l_os s) = []" "client_ready h c" "typed h name c"
    and "resolve (l_files s) (''backup/'' @ name) = Some q" "lookup (l_files s) q = Some (RegularFile x)"
    and "writable (l_files s) q" "length ram = cmd_bytes h"
  shows "\<exists>t r c'. legacy_round h ram (delivered [(0, a, remove_message h name (c_cmd_msg c))] s) = Some (True, t) \<and>
    lookup (l_files t) = (lookup (l_files s))(q := None) \<and> outgoing (l_os t) = outgoing (l_os s) @ [(a, r)] \<and>
    client_remove h ram (hearing [(0, b, r)] c) = Some c' \<and> screen c' = screen c @ ['' - file is removed.''] \<and>
    outgoing (lc_os c') = outgoing (lc_os c) @ [(server_addr c, remove_message h name (c_cmd_msg c))]"
proof -
  let ?m = "remove_message h name (c_cmd_msg c)"
  have c: "cmd_object h (c_cmd_msg c)" using assms(4) by (simp add: client_ready_def)
  have n: "NUL \<notin> set name" "length name < name_len h" "fst (getWord (cin c)) = name" "name \<noteq> []"
    using assms(5) by (simp_all add: typed_def)
  note m = command_message_reads[OF assms(1) c n(1,2), of "CMD_REMOVE h" 0, simplified]
  have "?m \<noteq> []" using m(1) assms(1) by (auto simp: cmd_object_def header_ok_def)
  then have "commanded h (CMD_REMOVE h) name a ?m [] (delivered [(0, a, ?m)] s)"
    using assms(1-3) m by (simp add: commanded_def arrived_def)
  then obtain t r where t: "legacy_round h ram (delivered [(0, a, ?m)] s) = Some (True, t)"
    "lookup (l_files t) = (lookup (l_files s))(q := None)" "outgoing (l_os t) = outgoing (l_os s) @ [(a, r)]"
    "cmd_object h r" "get_cmd h r = CMD_ACK h" "get_error h r = 0"
    using remove_answered[of h name a ?m "[]" "delivered [(0, a, ?m)] s" q x ram] assms(6-8) by auto
  let ?c = "hearing [(0, b, r)] c"
  obtain rest where "getWord (cin ?c) = (name, rest)" using n(3) by (cases "getWord (cin c)") simp
  then have w: "read_word (file_name ?c) ?c = (name, ?c\<lparr>cin := rest\<rparr>)" using n(4) by (rule read_word_present)
  define c1 where "c1 = ?c\<lparr>cin := rest, file_name := name, c_cmd_msg := ?m\<rparr>"
  define c2 where "c2 = c1\<lparr>lc_os := (lc_os c1)\<lparr>outgoing := outgoing (lc_os c) @ [(server_addr c, ?m)]\<rparr>\<rparr>"
  define c3 where "c3 = c2\<lparr>lc_os := (lc_os c2)\<lparr>incoming := [], clock := clock (lc_os c)\<rparr>, server_addr := b\<rparr>"
  note steps = c1_def c2_def c3_def
  have "c_send ?m c1 = (True, c2)" using assms(4) by (subst c_send_ok) (simp_all add: steps client_ready_def)
  moreover have "c_receive ram c2 = Some (True, r, c3)"
    using assms(4,9) t(4) by (subst c_receive_answer[of _ 0 b r "[]"]) (simp_all add: steps client_ready_def cmd_object_def)
  ultimately have "client_remove h ram ?c = Some (show_line '' - file is removed.'' c3)"
    using w t(5,6) by (simp add: client_remove_def Let_def command_message_def c1_def)
  with t show ?thesis by (simp add: steps show_line_def)
qed

section \<open>A rename onto a name that is taken\<close>

definition confirmation :: "header \<Rightarrow> string \<Rightarrow> string" where
  "confirmation h ram = put_error h 0 (put_cmd h CMD_OVERWRITE ram)"

lemma confirmation_reads:
  assumes "header_ok h" "cmd_object h x"
  shows "cmd_object h (confirmation h x)" "get_cmd h (confirmation h x) = CMD_OVERWRITE" "get_error h (confirmation h x) = 0"
    "get_filename h (confirmation h x) = get_filename h x" "get_size h (confirmation h x) = get_size h x"
proof -
  show "cmd_object h (confirmation h x)" "get_cmd h (confirmation h x) = CMD_OVERWRITE" "get_error h (confirmation h x) = 0"
    using header_members[OF assms(1)] assms(2) by (simp_all add: confirmation_def)
  show "get_filename h (confirmation h x) = get_filename h x" "get_size h (confirmation h x) = get_size h x"
    using assms by (simp_all add: confirmation_def header_ok_def)
qed

text \<open>The user types the two names and agrees to overwrite.\<close>

definition typed_rename :: "header \<Rightarrow> string \<Rightarrow> string \<Rightarrow> legacy_client \<Rightarrow> bool" where
  "typed_rename h name new c \<longleftrightarrow>
     (\<exists>rest rest' ch rest''. getWord (cin c) = (name, rest) \<and> getWord rest = (new, rest') \<and>
        dropWhile isspace rest' = ch # rest'' \<and> tolower ch = CHR ''y'') \<and>
     name \<noteq> [] \<and> NUL \<notin> set name \<and> length name < name_len h \<and> new \<noteq> [] \<and> NUL \<notin> set new \<and> length new < data_len h"

lemma client_believes:
  assumes "header_ok h" "client_ready h c" "typed_rename h name new c" "length ram = cmd_bytes h"
    and "length r1 = cmd_bytes h" "get_cmd h r1 = CMD_FILE_EXISTS" "length r2 = cmd_bytes h" "get_cmd h r2 = CMD_ACK h"
    and "get_error h r2 \<noteq> 2"
  shows "\<exists>t. client_rename h ram (hearing [(0, b, r1), (0, b, r2)] c) = Some t \<and>
    screen t = screen c @ ['' -file has been renamed.''] \<and>
    outgoing (lc_os t) = outgoing (lc_os c) @
      [(server_addr c, rename_message h name (c_cmd_msg c)), (server_addr c, data_message h new (c_data_msg c)),
       (b, confirmation h ram)]"
proof -
  let ?c = "hearing [(0, b, r1), (0, b, r2)] c" and ?m = "rename_message h name (c_cmd_msg c)"
    and ?d = "data_message h new (c_data_msg c)" and ?a = "server_addr c"
  obtain rest rest' ch rest'' where w: "getWord (cin c) = (name, rest)" "getWord rest = (new, rest')"
    "dropWhile isspace rest' = ch # rest''" "tolower ch = CHR ''y''" "name \<noteq> []" "new \<noteq> []"
    "NUL \<notin> set new" "length new < data_len h"
    using assms(3) unfolding typed_rename_def by blast
  define c1 where "c1 = ?c\<lparr>cin := rest', file_name := name, new_filename := new, c_cmd_msg := ?m, c_data_msg := ?d\<rparr>"
  define c2 where "c2 = c1\<lparr>lc_os := (lc_os c1)\<lparr>outgoing := outgoing (lc_os c) @ [(?a, ?m)]\<rparr>\<rparr>"
  define c3 where "c3 = c2\<lparr>lc_os := (lc_os c2)\<lparr>outgoing := outgoing (lc_os c) @ [(?a, ?m), (?a, ?d)]\<rparr>\<rparr>"
  define c4 where "c4 = c3\<lparr>lc_os := (lc_os c3)\<lparr>incoming := [(0, b, r2)], clock := clock (lc_os c)\<rparr>, server_addr := b\<rparr>"
  define c5 where "c5 = c4\<lparr>cin := rest''\<rparr>"
  define c6 where "c6 = c5\<lparr>lc_os := (lc_os c5)\<lparr>outgoing := outgoing (lc_os c3) @ [(b, confirmation h ram)]\<rparr>\<rparr>"
  define c7 where "c7 = c6\<lparr>lc_os := (lc_os c6)\<lparr>incoming := [], clock := clock (lc_os c)\<rparr>, server_addr := b\<rparr>"
  note steps = c1_def c2_def c3_def c4_def c5_def c6_def c7_def
  have s0: "read_word (file_name ?c) ?c = (name, ?c\<lparr>cin := rest\<rparr>)"
    "read_word (new_filename c) (?c\<lparr>cin := rest\<rparr>) = (new, ?c\<lparr>cin := rest'\<rparr>)"
    using w by (simp_all add: read_word_present)
  have s1: "c_send ?m c1 = (True, c2)" "c_send ?d c2 = (True, c3)"
    using assms(2) by (subst c_send_ok; simp add: steps client_ready_def)+
  have s2: "c_receive ram c3 = Some (True, r1, c4)"
    using assms(2,4,5) by (subst c_receive_answer[of _ 0 b r1 "[(0, b, r2)]"]) (simp_all add: steps client_ready_def)
  have s3: "read_yes c4 = Some (True, c5)" using w by (simp add: steps read_yes_def)
  have s4: "c_send (confirmation h ram) c5 = (True, c6)"
    using assms(2) by (subst c_send_ok) (simp_all add: steps client_ready_def)
  have s5: "c_receive r1 c6 = Some (True, r2, c7)"
    using assms(2,5,7) by (subst c_receive_answer[of _ 0 b r2 "[]"]) (simp_all add: steps client_ready_def)
  have "confirm_target h ram r1 c4 = Some (Some r2, c7)"
    using s3 s4 s5 assms(9) by (simp add: confirm_target_def Let_def confirmation_def)
  moreover have "take (data_len h - 1) (c_str new) = new" using w(7,8) by simp
  moreover have "CMD_FILE_EXISTS \<noteq> CMD_ACK h" using assms(1) by (auto simp: header_ok_def)
  moreover have "c_data_msg c2 = ?d" by (simp add: steps)
  ultimately have "client_rename h ram ?c = Some (renamed h False r2 c7)"
    using s0 s1 s2 assms(6,8)
    by (simp add: client_rename_def Let_def command_message_def data_message_def last_chance_def c1_def)
  then show ?thesis using assms(8) by (simp add: renamed_def show_line_def steps)
qed

text \<open>
  C29: the two programs together report a rename onto an existing name as done that never happened. Both
  messages of the client have arrived when the server processes the command: it asks for a confirmation
  and at once gives up, changing nothing. The confirmation the user gives becomes the next command, an
  OVERWRITE whose name and size the client never initialised; if they look like a name and a small size
  the server acknowledges without doing anything, and the client tells its user that the file was renamed.
\<close>

theorem legacy_rename_only_reported:
  assumes "header_ok h" "legacy_ok h s" "send_script (l_os s) = []" "client_ready h c" "typed_rename h name new c"
    and "checkFile (''backup/'' @ name) (l_files s) = Some True" "checkFile (''backup/'' @ new) (l_files s) = Some True"
    and "cmd_object h ram" "c_array (get_filename h ram) = Some junk" "junk \<noteq> []" "get_size h ram \<le> data_len h"
  shows "\<exists>t u r1 r2 c'.
    legacy_round h ram' (delivered [(0, a, rename_message h name (c_cmd_msg c)), (0, a, data_message h new (c_data_msg c))] s) =
      Some (True, t) \<and> outgoing (l_os t) = outgoing (l_os s) @ [(a, r1)] \<and>
    legacy_round h ram' (delivered [(0, a, confirmation h ram)] t) = Some (True, u) \<and>
      outgoing (l_os u) = outgoing (l_os t) @ [(a, r2)] \<and> l_files u = l_files s \<and>
    client_rename h ram (hearing [(0, b, r1), (0, b, r2)] c) = Some c' \<and>
      screen c' = screen c @ ['' -file has been renamed.''] \<and>
      outgoing (lc_os c') = outgoing (lc_os c) @
        [(server_addr c, rename_message h name (c_cmd_msg c)), (server_addr c, data_message h new (c_data_msg c)),
         (b, confirmation h ram)]"
proof -
  let ?m = "rename_message h name (c_cmd_msg c)" and ?d = "data_message h new (c_data_msg c)" and ?x = "confirmation h ram"
  have c: "cmd_object h (c_cmd_msg c)" "length (c_data_msg c) = data_bytes h" using assms(4) by (simp_all add: client_ready_def)
  have n: "NUL \<notin> set name" "length name < name_len h" "NUL \<notin> set new" "length new < data_len h"
    using assms(5) by (auto simp: typed_rename_def)
  have pos: "y \<noteq> []" if "cmd_object h y" for y using that assms(1) by (auto simp: cmd_object_def header_ok_def)
  note m = command_message_reads[OF assms(1) c(1) n(1,2), of "CMD_RENAME h" 0, simplified] and x = confirmation_reads[OF assms(1,8)]
  have "length ?d = data_bytes h" "get_data h ?d = overlay (zeros (data_len h)) new"
    using assms(1) c(2) by (simp_all add: data_message_def header_ok_def)
  then have d: "c_array (get_data h (overlay (data_msg s) (take (data_bytes h) ?d))) = Some new"
    using assms(2) n(3,4) by (simp add: legacy_ok_def objects_ok_def overlay_zeros c_array_append_zeros)
  let ?s = "delivered [(0, a, ?m), (0, a, ?d)] s"
  have "commanded h (CMD_RENAME h) name a ?m [(0, a, ?d)] ?s"
    using assms(1-3) m pos by (simp add: commanded_def arrived_def)
  moreover have "data_msg ?s = data_msg s" by (simp add: delivered_def)
  ultimately obtain t r1 where t: "legacy_round h ram' ?s = Some (True, t)" "legacy_ok h t" "l_files t = l_files s"
    "send_script (l_os t) = []" "outgoing (l_os t) = outgoing (l_os s) @ [(a, r1)]" "cmd_object h r1" "get_cmd h r1 = CMD_FILE_EXISTS"
    using rename_target_taken[of h name a ?m 0 a ?d ?s new ram'] d assms(6,7) by auto
  have "commanded h CMD_OVERWRITE junk a ?x [] (delivered [(0, a, ?x)] t)"
    using assms(1,9) t(2,4) x pos by (simp add: commanded_def arrived_def)
  from overwrite_acknowledged[OF this x(3) assms(10), of ram'] obtain u r2 where u:
    "legacy_round h ram' (delivered [(0, a, ?x)] t) = Some (True, u)" "l_files u = l_files s"
    "outgoing (l_os u) = outgoing (l_os t) @ [(a, r2)]" "cmd_object h r2" "get_cmd h r2 = CMD_ACK h" "get_error h r2 = 0"
    using x(5) assms(11) t(3) by auto
  from client_believes[OF assms(1,4,5), of ram r1 r2 b] t u assms(8) show ?thesis by (auto simp: cmd_object_def)
qed

section \<open>The end of the input\<close>

text \<open>Nothing but blanks is left of the input; what a command then does to it and to the last command word.\<close>

definition spent :: "legacy_client \<Rightarrow> bool" where
  "spent s \<longleftrightarrow> (\<forall>c \<in> set (cin s). isspace c)"

definition keeps_input :: "legacy_client \<Rightarrow> legacy_client \<Rightarrow> bool" where
  "keeps_input s t \<longleftrightarrow> in_cmd t = in_cmd s \<and> (spent s \<longrightarrow> spent t)"

lemma read_word_input: "read_word old s = (w, t) \<Longrightarrow> keeps_input s t"
  by (auto simp: read_word_def getWord_def Let_def keeps_input_def spent_def
      dest!: in_set_dropD set_dropWhileD split: if_splits)

lemma read_yes_input:
  assumes "read_yes s = Some (y, t)"
  shows "keeps_input s t"
proof -
  obtain ch rest where r: "dropWhile isspace (cin s) = ch # rest" "t = s\<lparr>cin := rest\<rparr>"
    using assms by (auto simp: read_yes_def split: list.splits)
  then have "set rest \<subseteq> set (cin s)" by (metis set_dropWhileD list.set_intros(2) subsetI)
  then show ?thesis using r(2) by (auto simp: keeps_input_def spent_def)
qed

lemma c_send_input: "c_send d s = (b, t) \<Longrightarrow> keeps_input s t"
  by (auto simp: c_send_def keeps_input_def spent_def split: prod.splits)

lemma c_receive_input: "c_receive x s = Some (b, y, t) \<Longrightarrow> keeps_input s t"
  by (auto simp: c_receive_def keeps_input_def spent_def split: option.splits)

lemmas input_steps = read_word_input read_yes_input c_send_input c_receive_input

lemma keeps_input_refl [simp]: "keeps_input s s"
  by (simp add: keeps_input_def)

lemma keeps_input_trans: "keeps_input s t \<Longrightarrow> keeps_input t u \<Longrightarrow> keeps_input s u"
  by (simp add: keeps_input_def)

lemma keeps_input_fields [simp]:
  "keeps_input (s\<lparr>c_cmd_msg := x\<rparr>) t = keeps_input s t" "keeps_input (s\<lparr>c_data_msg := x\<rparr>) t = keeps_input s t"
  "keeps_input (s\<lparr>port_msg := x\<rparr>) t = keeps_input s t" "keeps_input (s\<lparr>file_name := x\<rparr>) t = keeps_input s t"
  "keeps_input (s\<lparr>new_filename := x\<rparr>) t = keeps_input s t" "keeps_input (s\<lparr>tcp_connections := y\<rparr>) t = keeps_input s t"
  "keeps_input (s\<lparr>tcp_streams := z\<rparr>) t = keeps_input s t" "keeps_input (s\<lparr>lc_os := w\<rparr>) t = keeps_input s t"
  "keeps_input (show_line l s) t = keeps_input s t"
  "keeps_input s (show_line l t) = keeps_input s t" "keeps_input s (t\<lparr>lc_os := w\<rparr>) = keeps_input s t"
  "keeps_input s (t\<lparr>client_state := v\<rparr>) = keeps_input s t" "keeps_input s (t\<lparr>c_data_msg := x\<rparr>) = keeps_input s t"
  "keeps_input s (t\<lparr>port_msg := x\<rparr>) = keeps_input s t" "keeps_input s (t\<lparr>tcp_connections := y\<rparr>) = keeps_input s t"
  "keeps_input s (t\<lparr>file_name := x\<rparr>) = keeps_input s t" "keeps_input s (t\<lparr>c_cmd_msg := x\<rparr>) = keeps_input s t"
  by (simp_all add: keeps_input_def spent_def show_line_def)

lemma show_lines_input [simp]:
  "keeps_input (foldl (\<lambda>s l. show_line l s) s ls) t = keeps_input s t"
  by (induction ls arbitrary: s) simp_all

lemma send_tcp_input:
  assumes "send_tcp h p bytes s = Some t"
  shows "keeps_input s t"
proof (cases "tcp_connections s")
  case Nil
  moreover have "tcp_connections (show_line l s) = tcp_connections s" for l by (simp add: show_line_def)
  ultimately show ?thesis using assms by (auto simp: send_tcp_def)
next
  case (Cons x xs)
  moreover have "tcp_connections (show_line l s) = tcp_connections s" for l by (simp add: show_line_def)
  ultimately show ?thesis
    using assms
    by (cases x) (auto simp: send_tcp_def bind_eq_Some_conv Let_def dest!: c_receive_input split: prod.splits)
qed

lemma send_small_input: "send_small h ram bytes s = Some t \<Longrightarrow> keeps_input s t"
  by (auto simp: send_small_def bind_eq_Some_conv Let_def dest!: input_steps intro: keeps_input_trans split: prod.splits if_splits)

lemma confirm_overwrite_input:
  assumes "confirm_overwrite h ram r name bytes s = Some t"
  shows "keeps_input s t"
proof -
  obtain yes s1 where y: "read_yes s = Some (yes, s1)" using assms by (auto simp: confirm_overwrite_def bind_eq_Some_conv)
  let ?m = "if yes then set_name h name (put_size h (length bytes) (put_error h 0 (put_cmd h CMD_OVERWRITE ram)))
    else put_error h 1 (put_cmd h CMD_OVERWRITE ram)"
  obtain sent s2 where m: "c_send ?m s1 = (sent, s2)" by fastforce
  have s2: "keeps_input s s2" using read_yes_input[OF y] c_send_input[OF m] by (rule keeps_input_trans)
  show ?thesis
  proof (cases sent)
    case False
    then show ?thesis using assms y m s2 by (auto simp: confirm_overwrite_def Let_def)
  next
    case True
    then obtain ok r' s3 where r: "c_receive r s2 = Some (ok, r', s3)"
      using assms y m by (auto simp: confirm_overwrite_def Let_def bind_eq_Some_conv)
    have "keeps_input s s3" using s2 c_receive_input[OF r] by (rule keeps_input_trans)
    moreover have "keeps_input s3 t"
      using assms y m r True
      by (auto simp: confirm_overwrite_def Let_def bind_eq_Some_conv
          dest!: c_receive_input send_tcp_input intro: keeps_input_trans split: if_splits)
    ultimately show ?thesis by (rule keeps_input_trans)
  qed
qed


lemma client_ls_input:
  assumes "client_ls h s = Some t"
  shows "keeps_input s t"
proof -
  have shown: "keeps_input u (foldl (\<lambda>s n. show_line ('' - '' @ n) s) v names) = keeps_input u v" for u v names
    by (induction names arbitrary: v) simp_all
  let ?m = "put_error h 0 (put_filename h (zeros (name_len h)) (put_size h 0 (put_cmd h (CMD_LS h) (c_cmd_msg s))))"
  obtain sent s1 where m: "c_send ?m (s\<lparr>c_cmd_msg := ?m\<rparr>) = (sent, s1)" by fastforce
  then have "keeps_input s s1" using c_send_input by fastforce
  moreover have "keeps_input s1 t"
    using assms m shown by (auto simp: client_ls_def Let_def bind_eq_Some_conv dest!: c_receive_input split: if_splits)
  ultimately show ?thesis by (rule keeps_input_trans)
qed

lemma client_remove_input:
  assumes "client_remove h ram s = Some t"
  shows "keeps_input s t"
proof -
  obtain name s0 where w: "read_word (file_name s) s = (name, s0)" by fastforce
  let ?m = "put_error h 0 (put_size h 0 (set_name h name (put_cmd h (CMD_REMOVE h) (c_cmd_msg s0))))"
  obtain sent s1 where m: "c_send ?m (s0\<lparr>file_name := name, c_cmd_msg := ?m\<rparr>) = (sent, s1)" by fastforce
  then have "keeps_input s s1" using read_word_input[OF w] c_send_input[OF m] keeps_input_trans by simp
  moreover have "keeps_input s1 t"
    using assms w m by (auto simp: client_remove_def Let_def bind_eq_Some_conv dest!: c_receive_input split: if_splits)
  ultimately show ?thesis by (rule keeps_input_trans)
qed

lemma client_send_input:
  assumes "client_send h ram s = Some t"
  shows "keeps_input s t"
proof -
  obtain name s0 where w: "read_word (file_name s) s = (name, s0)" by fastforce
  have s0: "keeps_input s s0" using w by (rule read_word_input)
  show ?thesis
  proof (cases "\<exists>bytes. stat (fs (lc_os s0)) name = Some (RegularFile bytes)")
    case False
    then show ?thesis
      using assms w s0 by (auto simp: client_send_def Let_def split: option.splits inode.splits)
  next
    case True
    then obtain bytes where f: "stat (fs (lc_os s0)) name = Some (RegularFile bytes)" by blast
    let ?m = "put_error h 0 (put_size h (length bytes) (set_name h name (put_cmd h (CMD_SEND h) (c_cmd_msg s0))))"
    let ?s = "show_line ('' - filesize:'' @ print_nat (length bytes)) (s0\<lparr>file_name := name, c_cmd_msg := ?m\<rparr>)"
    have q: "c_cmd_msg ?s = ?m" by (simp add: show_line_def)
    obtain sent s1 where m: "c_send ?m ?s = (sent, s1)" by fastforce
    have "keeps_input s s1"
      by (rule keeps_input_trans[OF s0]) (use c_send_input[OF m] in simp)
    moreover have "keeps_input s1 t"
      using assms w f m q
      by (auto simp: client_send_def Let_def bind_eq_Some_conv
          dest!: c_receive_input confirm_overwrite_input send_tcp_input send_small_input intro: keeps_input_trans split: if_splits)
    ultimately show ?thesis by (rule keeps_input_trans)
  qed
qed

lemma confirm_target_input:
  assumes "confirm_target h ram r s = Some (final, t)"
  shows "keeps_input s t"
proof -
  obtain yes s1 where y: "read_yes s = Some (yes, s1)" using assms by (auto simp: confirm_target_def bind_eq_Some_conv)
  let ?m = "put_error h (if yes then 0 else 1) (put_cmd h CMD_OVERWRITE ram)"
  obtain sent s2 where m: "c_send ?m s1 = (sent, s2)" by fastforce
  have "keeps_input s s2" using read_yes_input[OF y] c_send_input[OF m] by (rule keeps_input_trans)
  moreover have "keeps_input s2 t"
    using assms y m by (auto simp: confirm_target_def Let_def bind_eq_Some_conv dest!: c_receive_input split: if_splits)
  ultimately show ?thesis by (rule keeps_input_trans)
qed

lemma last_chance_input: "last_chance h ok r s = Some (ok', r', t) \<Longrightarrow> keeps_input s t"
  by (auto simp: last_chance_def Let_def bind_eq_Some_conv dest!: c_receive_input split: if_splits)

lemma renamed_input [simp]: "keeps_input s (renamed h ok r t) = keeps_input s t"
  by (simp add: renamed_def)

lemma client_rename_input:
  assumes "client_rename h ram s = Some t"
  shows "keeps_input s t"
proof -
  obtain name s0 where w: "read_word (file_name s) s = (name, s0)" by fastforce
  obtain new s1 where w': "read_word (new_filename s0) s0 = (new, s1)" by fastforce
  let ?m = "put_error h 0 (put_size h 0 (set_name h name (put_cmd h (CMD_RENAME h) (c_cmd_msg s1))))"
    and ?d = "put_data h (overlay (zeros (data_len h)) (take (data_len h - 1) (c_str new))) (c_data_msg s1)"
  let ?s = "s1\<lparr>file_name := name, new_filename := new, c_cmd_msg := ?m, c_data_msg := ?d\<rparr>"
  obtain sent s2 where m: "c_send ?m ?s = (sent, s2)" by fastforce
  obtain sent' s3 where d: "c_send (c_data_msg s2) s2 = (sent', s3)" by fastforce
  have s2: "keeps_input s s2"
    using read_word_input[OF w] read_word_input[OF w'] c_send_input[OF m] keeps_input_trans by simp
  then have s3: "keeps_input s s3" using c_send_input[OF d] by (rule keeps_input_trans)
  show ?thesis
  proof (cases "sent \<and> sent'")
    case False
    then show ?thesis using assms w w' m d s2 s3 by (auto simp: client_rename_def Let_def split: if_splits)
  next
    case True
    then have "keeps_input s3 t"
      using assms w w' m d
      by (auto simp: client_rename_def Let_def bind_eq_Some_conv
          dest!: c_receive_input confirm_target_input last_chance_input split: if_splits option.splits)
        (metis keeps_input_trans)+
    with s3 show ?thesis by (rule keeps_input_trans)
  qed
qed

lemma client_shutdown_input: "keeps_input s (client_shutdown h s)"
  by (auto simp: client_shutdown_def Let_def dest!: c_send_input split: prod.splits)


text \<open>
  The iteration of the loop: a step is a round after which another one follows. \<open>Inl\<close> is a round that
  leaves the loop or is undefined.
\<close>

definition next_client :: "header \<Rightarrow> string \<Rightarrow> legacy_client \<Rightarrow> (bool \<times> legacy_client) option + legacy_client" where
  "next_client h ram s =
     (case client_round h ram s of Some (True, t) \<Rightarrow> Inr t | r \<Rightarrow> Inl r)"

text \<open>The state a command word leads to.\<close>

definition command_state :: "string \<Rightarrow> Client_State_T" where
  "command_state w =
     (if w = ''ls'' then PROCESS_LS else if w = ''send'' then PROCESS_SEND else if w = ''remove'' then PROCESS_REMOVE
      else if w = ''rename'' then PROCESS_RENAME else if w = ''shutdown'' then Client_State_T.SHUTDOWN
      else if w = ''quit'' then QUIT else Client_State_T.WAITING)"

lemma steps_invariant:
  assumes "\<And>k u v. P k u \<Longrightarrow> step u = Inr v \<Longrightarrow> P (Suc k) v"
  shows "steps step n s = Some t \<Longrightarrow> P k s \<Longrightarrow> P (k + n) t"
proof (induction n arbitrary: k s)
  case (Suc n)
  then obtain v where v: "step s = Inr v" "steps step n v = Some t" by (auto split: sum.splits)
  from Suc.IH[OF v(2) assms[OF Suc.prems(2) v(1)]] show ?case by simp
qed simp

lemma steps_append: "steps step (m + n) s = Option.bind (steps step m s) (steps step n)"
  by (induction m arbitrary: s) (auto split: sum.splits)

lemma read_word_spent: "spent s \<Longrightarrow> read_word old s = (old, s\<lparr>cin := []\<rparr>)"
proof -
  assume "spent s"
  then have "dropWhile isspace (cin s) = []" by (simp add: spent_def)
  then have "getWord (cin s) = ([], [])" unfolding getWord_def Let_def by (simp del: dropWhile_eq_Nil_conv)
  then show ?thesis by (simp add: read_word_def)
qed

lemma read_command_spent:
  assumes "spent s"
  shows "in_cmd (read_command s) = in_cmd s" "spent (read_command s)"
    "client_state (read_command s) = command_state (in_cmd s)"
  using read_word_spent[OF assms, of "in_cmd s"]
  by (simp_all add: read_command_def Let_def command_state_def show_line_def spent_def)

text \<open>A command's round returns to the prompt, with the word of the command and the end of the input kept.\<close>

lemma round_working:
  assumes "client_round h ram s = Some (goes, t)" "client_state s \<noteq> Client_State_T.WAITING" "client_state s \<noteq> QUIT"
  shows "goes \<and> client_state t = Client_State_T.WAITING \<and> keeps_input s t"
  using assms client_shutdown_input[of "s\<lparr>lc_os := (lc_os s)\<lparr>clock := clock (lc_os s) + 100\<rparr>\<rparr>" h]
  by (cases "client_state s")
    (auto simp: client_round_def Let_def dest!: client_ls_input client_send_input client_remove_input client_rename_input)

text \<open>The client at the end of its input, \<open>k\<close> rounds after the prompt was shown.\<close>

definition repeating :: "string \<Rightarrow> nat \<Rightarrow> legacy_client \<Rightarrow> bool" where
  "repeating w k s \<longleftrightarrow>
     spent s \<and> in_cmd s = w \<and> client_state s = (if even k then Client_State_T.WAITING else command_state w)"

lemma command_state_quit: "command_state w = QUIT \<longleftrightarrow> w = ''quit''"
  by (simp add: command_state_def)

lemma round_repeating:
  assumes "repeating w k s" "w \<noteq> ''quit''" "client_round h ram s = Some (goes, t)"
  shows "goes \<and> repeating w (Suc k) t"
proof (cases "client_state s = Client_State_T.WAITING")
  case True
  let ?s = "s\<lparr>lc_os := (lc_os s)\<lparr>clock := clock (lc_os s) + 100\<rparr>\<rparr>"
  have "spent ?s" "in_cmd ?s = w" using assms(1) by (simp_all add: repeating_def spent_def)
  with read_command_spent[of ?s] assms(1,3) True show ?thesis
    by (auto simp: client_round_def Let_def repeating_def split: if_splits)
next
  case False
  moreover have "client_state s \<noteq> QUIT" using assms(1,2) by (auto simp: repeating_def command_state_quit)
  ultimately show ?thesis using round_working[OF assms(3)] assms(1) by (auto simp: repeating_def keeps_input_def)
qed

lemma steps_repeating:
  assumes "steps (next_client h ram) n s = Some t" "repeating w 0 s" "w \<noteq> ''quit''"
  shows "repeating w n t"
proof -
  have "repeating w (Suc k) v" if "repeating w k u" "next_client h ram u = Inr v" for k u v
    using round_repeating[OF that(1) assms(3)] that(2)
    by (auto simp: next_client_def split: option.splits prod.splits bool.splits)
  from steps_invariant[of "repeating w", OF this assms(1,2)] show ?thesis by simp
qed

text \<open>The commands that a working client carries out whatever arrives: a removal and a shutdown.\<close>

lemma c_receive_returns:
  assumes "client_ready h s"
  shows "\<exists>ok y t. c_receive x s = Some (ok, y, t) \<and> client_ready h t \<and> file_name t = file_name s \<and>
    outgoing (lc_os t) = outgoing (lc_os s)"
  using assms
  by (auto simp: c_receive_def recvfrom_def client_ready_def split: list.splits prod.splits)

definition repeats :: "header \<Rightarrow> legacy_client \<Rightarrow> string \<Rightarrow> bool" where
  "repeats h s d \<longleftrightarrow>
     (if in_cmd s = ''shutdown'' then get_cmd h d = CMD_SHUTDOWN h
      else get_cmd h d = CMD_REMOVE h \<and> c_array (get_filename h d) = Some (file_name s))"

lemma client_ready_show [simp]: "client_ready h (show_line l s) = client_ready h s"
  "file_name (show_line l s) = file_name s"
  by (simp_all add: client_ready_def show_line_def)

lemma remove_again:
  assumes "header_ok h" "client_ready h s" "spent s" "NUL \<notin> set (file_name s)" "length (file_name s) < name_len h"
  shows "\<exists>t a d. client_remove h ram s = Some t \<and> client_ready h t \<and> file_name t = file_name s \<and>
    outgoing (lc_os t) = outgoing (lc_os s) @ [(a, d)] \<and> get_cmd h d = CMD_REMOVE h \<and>
    c_array (get_filename h d) = Some (file_name s)"
proof -
  let ?m = "remove_message h (file_name s) (c_cmd_msg s)"
  have "cmd_object h (c_cmd_msg s)" using assms(2) by (simp add: client_ready_def)
  note m = command_message_reads[OF assms(1) this assms(4,5), of "CMD_REMOVE h" 0, simplified]
  define s1 where "s1 = s\<lparr>cin := [], c_cmd_msg := ?m\<rparr>"
  define s2 where "s2 = s1\<lparr>lc_os := (lc_os s1)\<lparr>outgoing := outgoing (lc_os s) @ [(server_addr s, ?m)]\<rparr>\<rparr>"
  have "c_send ?m s1 = (True, s2)" using assms(2) by (subst c_send_ok) (simp_all add: s1_def s2_def client_ready_def)
  moreover have "client_ready h s2" using assms(2) m(1) by (simp add: s1_def s2_def client_ready_def)
  then obtain ok y t where t: "c_receive ram s2 = Some (ok, y, t)" "client_ready h t" "file_name t = file_name s2"
    "outgoing (lc_os t) = outgoing (lc_os s2)" using c_receive_returns by blast
  moreover have "s\<lparr>cin := [], file_name := file_name s, c_cmd_msg := ?m\<rparr> = s1" by (simp add: s1_def)
  ultimately show ?thesis
    using read_word_spent[OF assms(3), of "file_name s"] m(2,3)
    by (auto simp: client_remove_def Let_def command_message_def s1_def s2_def)
qed

lemma shutdown_again:
  assumes "header_ok h" "client_ready h s"
  shows "\<exists>a d. client_ready h (client_shutdown h s) \<and> file_name (client_shutdown h s) = file_name s \<and>
    outgoing (lc_os (client_shutdown h s)) = outgoing (lc_os s) @ [(a, d)] \<and> get_cmd h d = CMD_SHUTDOWN h"
proof -
  let ?m = "put_error h 0 (put_size h 0 (put_cmd h (CMD_SHUTDOWN h) (c_cmd_msg s)))"
  have "cmd_object h (c_cmd_msg s)" using assms(2) by (simp add: client_ready_def)
  then have m: "cmd_object h ?m" "get_cmd h ?m = CMD_SHUTDOWN h"
    using assms(1) by (simp_all add: header_ok_def codes_def)
  then show ?thesis
    using assms(2) by (simp add: client_shutdown_def c_send_def send_to_def client_ready_def show_line_def)
qed

lemma two_rounds:
  assumes "header_ok h" "client_ready h s" "repeating w 0 s"
    and "w = ''shutdown'' \<or> w = ''remove'' \<and> NUL \<notin> set (file_name s) \<and> length (file_name s) < name_len h"
  shows "\<exists>t a d. steps (next_client h ram) 2 s = Some t \<and> client_ready h t \<and> repeating w 0 t \<and>
    file_name t = file_name s \<and> outgoing (lc_os t) = outgoing (lc_os s) @ [(a, d)] \<and> repeats h s d"
proof -
  define p where "p = (\<lambda>s :: legacy_client. s\<lparr>lc_os := (lc_os s)\<lparr>clock := clock (lc_os s) + 100\<rparr>\<rparr>)"
  have p: "client_ready h (p u) = client_ready h u" "file_name (p u) = file_name u" "in_cmd (p u) = in_cmd u"
    "outgoing (lc_os (p u)) = outgoing (lc_os u)" "spent (p u) = spent u" "client_state (p u) = client_state u" for u
    by (simp_all add: p_def client_ready_def spent_def)
  define s1 where "s1 = read_command (p s)"
  have w: "w \<noteq> ''quit''" using assms(4) by auto
  have s: "client_state s = Client_State_T.WAITING" "spent s" "in_cmd s = w" using assms(3) by (simp_all add: repeating_def)
  have r1: "client_round h ram s = Some (True, s1)" using s(1) p(6)[of s] by (simp add: client_round_def s1_def p_def)
  have s1: "repeating w 1 s1" using round_repeating[OF assms(3) w r1] by simp
  then have f: "client_ready h s1" "file_name s1 = file_name s" "outgoing (lc_os s1) = outgoing (lc_os s)" "spent s1"
    using read_word_spent[of "p s" "in_cmd (p s)"] p s assms(2,4)
    by (auto simp: s1_def read_command_def Let_def client_ready_def repeating_def)
  have "\<exists>t a d. client_round h ram s1 = Some (True, t) \<and> client_ready h t \<and> file_name t = file_name s \<and>
    outgoing (lc_os t) = outgoing (lc_os s) @ [(a, d)] \<and> repeats h s d"
  proof (cases "w = ''shutdown''")
    case True
    then have "client_state s1 = Client_State_T.SHUTDOWN" using s1 by (simp add: repeating_def command_state_def)
    then show ?thesis using shutdown_again[OF assms(1), of "p s1"] f p s(3) True
      by (auto simp: client_round_def Let_def p_def repeats_def client_ready_def)
  next
    case False
    then have "w = ''remove''" "NUL \<notin> set (file_name (p s1))" "length (file_name (p s1)) < name_len h"
      using assms(4) f p by auto
    moreover from this have "client_state s1 = PROCESS_REMOVE" using s1 by (simp add: repeating_def command_state_def)
    ultimately show ?thesis using remove_again[OF assms(1), of "p s1" ram] f p s(3)
      by (auto simp: client_round_def Let_def p_def repeats_def client_ready_def)
  qed
  then obtain t a d where t: "client_round h ram s1 = Some (True, t)" "client_ready h t" "file_name t = file_name s"
    "outgoing (lc_os t) = outgoing (lc_os s) @ [(a, d)]" "repeats h s d" by blast
  have "repeating w 2 t" using round_repeating[OF s1 w t(1)] by (simp add: numeral_2_eq_2)
  then have "repeating w 0 t" by (simp add: repeating_def)
  with t r1 show ?thesis by (simp add: numeral_2_eq_2 next_client_def)
qed

lemma again_and_again:
  assumes "header_ok h" "client_ready h s" "repeating w 0 s"
    and "w = ''shutdown'' \<or> w = ''remove'' \<and> NUL \<notin> set (file_name s) \<and> length (file_name s) < name_len h"
  shows "\<exists>t ds. steps (next_client h ram) (2 * n) s = Some t \<and> outgoing (lc_os t) = outgoing (lc_os s) @ ds \<and>
    length ds = n \<and> (\<forall>(a, d) \<in> set ds. repeats h s d)"
  using assms(2-)
proof (induction n arbitrary: s)
  case (Suc n)
  from two_rounds[OF assms(1) Suc.prems, of ram] obtain t a d where t: "steps (next_client h ram) 2 s = Some t"
    "client_ready h t" "repeating w 0 t" "file_name t = file_name s"
    "outgoing (lc_os t) = outgoing (lc_os s) @ [(a, d)]" "repeats h s d" by blast
  from Suc.IH[OF t(2,3)] Suc.prems(3) t(4) obtain u ds where u: "steps (next_client h ram) (2 * n) t = Some u"
    "outgoing (lc_os u) = outgoing (lc_os t) @ ds" "length ds = n" "\<forall>(a, d) \<in> set ds. repeats h t d" by auto
  have "repeats h t = repeats h s"
    using Suc.prems(2) t(3,4) by (auto simp: repeats_def repeating_def)
  moreover have "steps (next_client h ram) (2 * Suc n) s = Some u"
    using t(1) u(1) steps_append[of "next_client h ram" 2 "2 * n" s] by simp
  ultimately show ?case using t(5,6) u(2-4) by (intro exI[of _ u] exI[of _ "(a, d) # ds"]) auto
qed simp

text \<open>
  C33: the client does not notice the end of its input. When nothing but blanks is left and the last command
  was not quit, then in every round that follows the last command word is kept, every second round is the
  round of its command (or says again that it is wrong), and no round is the last. With a removal or a
  shutdown as the last command and a socket that can send, every two rounds succeed, whatever arrives: in
  \<open>2 * n\<close> rounds the client sends \<open>n\<close> more messages with the code of the command and, for a removal, with
  the name of its file.
\<close>

theorem legacy_client_repeats:
  assumes "\<forall>c \<in> set (cin s). isspace c" "in_cmd s \<noteq> ''quit''" "client_state s = Client_State_T.WAITING"
  shows "(\<forall>n t. steps (next_client h ram) n s = Some t \<longrightarrow>
      in_cmd t = in_cmd s \<and> client_state t = (if even n then Client_State_T.WAITING else command_state (in_cmd s)) \<and>
      (\<forall>u. client_round h ram t \<noteq> Some (False, u))) \<and>
    (header_ok h \<and> client_ready h s \<and>
      (in_cmd s = ''shutdown'' \<or>
       in_cmd s = ''remove'' \<and> NUL \<notin> set (file_name s) \<and> length (file_name s) < name_len h) \<longrightarrow>
     (\<forall>n. \<exists>t ds. steps (next_client h ram) (2 * n) s = Some t \<and> outgoing (lc_os t) = outgoing (lc_os s) @ ds \<and>
        length ds = n \<and>
        (\<forall>(a, d) \<in> set ds.
           if in_cmd s = ''shutdown'' then get_cmd h d = CMD_SHUTDOWN h
           else get_cmd h d = CMD_REMOVE h \<and> c_array (get_filename h d) = Some (file_name s))))"
proof -
  have s: "repeating (in_cmd s) 0 s" using assms by (simp add: repeating_def spent_def)
  have "in_cmd t = in_cmd s \<and> client_state t = (if even n then Client_State_T.WAITING else command_state (in_cmd s)) \<and>
      (\<forall>u. client_round h ram t \<noteq> Some (False, u))" if "steps (next_client h ram) n s = Some t" for n t
  proof -
    have r: "repeating (in_cmd s) n t" by (rule steps_repeating[OF that s assms(2)])
    have "client_round h ram t \<noteq> Some (False, u)" for u using round_repeating[OF r assms(2), of h ram False u] by blast
    with r show ?thesis by (simp add: repeating_def)
  qed
  moreover have "\<exists>t ds. steps (next_client h ram) (2 * n) s = Some t \<and> outgoing (lc_os t) = outgoing (lc_os s) @ ds \<and>
      length ds = n \<and> (\<forall>(a, d) \<in> set ds. repeats h s d)"
    if "header_ok h \<and> client_ready h s \<and> (in_cmd s = ''shutdown'' \<or>
       in_cmd s = ''remove'' \<and> NUL \<notin> set (file_name s) \<and> length (file_name s) < name_len h)" for n
    using that by (intro again_and_again[OF _ _ s]) blast+
  ultimately show ?thesis unfolding repeats_def by blast
qed

section \<open>The theorems on concrete runs\<close>

definition labs_client :: "string \<Rightarrow> legacy_client" where
  "labs_client input =
     legacy_client_start (0, 0)
       (quiet_os \<lparr>nodes = [([''b''], RegularFile ''hi'')], cwd = [], writable = (\<lambda>q. True), dir_size = 4096\<rparr>)
       input [] (zeros 137) (zeros 3000) (zeros 137)"

lemma labs_client_ready: "client_ready labs_header (labs_client input)"
  by (simp add: client_ready_def labs_client_def legacy_client_start_def cmd_object_def labs_header_def CMD_MSG_LEN_def
      FILE_NAME_LEN_def DATA_BUF_LEN_def quiet_os_def set_rcvtimeo_def)

lemma labs_words:
  "getWord (cin (labs_client ''b'')) = (''b'', [])" "getWord (cin (labs_client ''a ../secret y'')) = (''a'', '' ../secret y'')"
  "getWord '' ../secret y'' = (''../secret'', '' y'')" "dropWhile isspace '' y'' = ''y''" "tolower (CHR ''y'') = CHR ''y''"
  "stat (fs (lc_os (labs_client ''b''))) ''b'' = Some (RegularFile ''hi'')"
  by code_simp+

lemma labs_server:
  "header_ok labs_header" "legacy_ok labs_header (labs_state [] [] [])" "send_script (l_os (labs_state [] [] [])) = []"
  "checkFile (''backup/'' @ ''b'') (l_files (labs_state [] [] [])) = Some False"
  "checkFile (''backup/'' @ ''a'') (l_files (labs_state [] [] [])) = Some True"
  "checkFile (''backup/'' @ ''../secret'') (l_files (labs_state [] [] [])) = Some True"
  using labs_header_ok labs_state_ok labs_paths by (simp_all add: checkFile_def stat_def)

lemma labs_text_code:
  assumes "length m = 137" "data \<noteq> []"
  shows "get_cmd labs_header (overlay m (take (cmd_bytes labs_header) (data_message labs_header data x))) =
    uint (of_nat (of_char (hd data)) :: u8)"
proof -
  have "take 137 (overlay (zeros 3000) data) ! 0 = hd data" "length (take 137 (overlay (zeros 3000) data)) = 137"
    using assms(2) by (simp_all add: overlay_def nth_append hd_conv_nth)
  then show ?thesis
    using assms(1) by (simp add: data_message_def labs_header_def decode_cmd_def CMD_MSG_LEN_def FILE_NAME_LEN_def DATA_BUF_LEN_def)
qed

theorem legacy_upload_kills_server_witness:
  "\<exists>t r c' m d.
    legacy_round labs_header (zeros 137) (delivered [(0, (1, 1), m)] (labs_state [] [] [])) = Some (True, t) \<and>
    client_send labs_header (zeros 137) (hearing [(0, (0, 0), r)] (labs_client ''b'')) = Some c' \<and>
    outgoing (lc_os c') = [((0, 0), m), ((0, 0), d)] \<and> last (screen c') = ''Timeout or error receiving response'' \<and>
    legacy_round labs_header (zeros 137) (delivered [(0, (1, 1), d)] t) = None"
proof -
  let ?c = "labs_client ''b''"
  have c: "typed labs_header ''b'' ?c" "length ''hi'' \<le> data_len labs_header" "length ''hi'' < 2 ^ 31"
    "length (zeros 137) = cmd_bytes labs_header" "outgoing (lc_os ?c) = []" "server_addr ?c = (0, 0)"
    using labs_words(1) labs_names
    by (simp_all add: typed_def labs_header_def FILE_NAME_LEN_def DATA_BUF_LEN_def CMD_MSG_LEN_def)
      (simp_all add: labs_client_def legacy_client_start_def quiet_os_def set_rcvtimeo_def)
  have "cmd_object labs_header (c_cmd_msg ?c)" using labs_client_ready by (simp add: client_ready_def)
  then have "length (send_message labs_header ''b'' (length ''hi'') (c_cmd_msg ?c)) = 137"
    using command_message_reads(1)[OF labs_server(1) _ _ _ codes_members(2), of "c_cmd_msg ?c" "''b''" "length ''hi''"] labs_names
    by (simp add: cmd_object_def labs_header_def FILE_NAME_LEN_def CMD_MSG_LEN_def)
  from labs_text_code[OF this, of "''hi''"]
  have "11 \<le> get_cmd labs_header (overlay (send_message labs_header ''b'' (length ''hi'') (c_cmd_msg ?c))
      (take (cmd_bytes labs_header) (data_message labs_header ''hi'' (c_data_msg ?c))))"
    by simp
  from legacy_upload_kills_server[OF labs_server(1-3) labs_client_ready c(1) labs_words(6) c(2,3) labs_server(4) c(4) this,
      of "(1, 1)" "(0, 0)"]
  obtain t r c' where run: "legacy_round labs_header (zeros 137) (delivered [(0, (1, 1),
        send_message labs_header ''b'' (length ''hi'') (c_cmd_msg ?c))] (labs_state [] [] [])) = Some (True, t)"
    "client_send labs_header (zeros 137) (hearing [(0, (0, 0), r)] ?c) = Some c'"
    "last (screen c') = ''Timeout or error receiving response''"
    "outgoing (lc_os c') = [((0, 0), send_message labs_header ''b'' (length ''hi'') (c_cmd_msg ?c)),
      ((0, 0), data_message labs_header ''hi'' (c_data_msg ?c))]"
    "legacy_round labs_header (zeros 137) (delivered [(0, (1, 1), data_message labs_header ''hi'' (c_data_msg ?c))] t) = None"
    unfolding c(5,6) by (auto simp del: append_Cons)
  then show ?thesis by blast
qed

theorem legacy_rename_only_reported_witness:
  "\<exists>t u r1 r2 c' m d x.
    legacy_round labs_header [] (delivered [(0, (1, 1), m), (0, (1, 1), d)] (labs_state [] [] [])) = Some (True, t) \<and>
    legacy_round labs_header [] (delivered [(0, (1, 1), x)] t) = Some (True, u) \<and> l_files u = labs_files \<and>
    client_rename labs_header (labs_command NONE ''j'' 0) (hearing [(0, (0, 0), r1), (0, (0, 0), r2)] (labs_client ''a ../secret y'')) = Some c' \<and>
    screen c' = ['' -file has been renamed.''] \<and> outgoing (lc_os c') = [((0, 0), m), ((0, 0), d), ((0, 0), x)]"
proof -
  let ?c = "labs_client ''a ../secret y''" and ?ram = "labs_command NONE ''j'' 0"
  have c: "typed_rename labs_header ''a'' ''../secret'' ?c" "outgoing (lc_os ?c) = []" "server_addr ?c = (0, 0)" "screen ?c = []"
    using labs_words(2-5) labs_names
    by (simp_all add: typed_rename_def labs_header_def FILE_NAME_LEN_def DATA_BUF_LEN_def)
      (simp_all add: labs_client_def legacy_client_start_def quiet_os_def set_rcvtimeo_def)
  have j: "NUL \<notin> set ''j''" by (simp add: NUL_def)
  then have r: "cmd_object labs_header ?ram" "c_array (get_filename labs_header ?ram) = Some ''j''" "''j'' \<noteq> []"
    "get_size labs_header ?ram \<le> data_len labs_header"
    using labs_commanded(1)[of "''j''" NONE 0 "[]" "[]"] labs_commanded(2)[of "''j''" NONE 0] by (simp_all add: commanded_def)
  from legacy_rename_only_reported[OF labs_server(1-3) labs_client_ready c(1) labs_server(5,6) r,
      of "[]" "(1, 1)" "(0, 0)"] c(2-4)
  show ?thesis by (simp del: append_Nil) (metis append_Nil labs_state_simps(1))
qed

theorem legacy_remove_end_to_end_witness:
  "\<exists>t r c' m. legacy_round labs_header (zeros 137) (delivered [(0, (1, 1), m)] (labs_state [] [] [])) = Some (True, t) \<and>
     lookup (l_files t) [''secret''] = None \<and>
     client_remove labs_header (zeros 137) (hearing [(0, (0, 0), r)] (labs_client ''../secret'')) = Some c' \<and>
     screen c' = ['' - file is removed.'']"
proof -
  let ?c = "labs_client ''../secret''"
  have "getWord (cin ?c) = (''../secret'', [])" by code_simp
  then have c: "typed labs_header ''../secret'' ?c" "screen ?c = []" "length (zeros 137) = cmd_bytes labs_header"
    using labs_names by (simp_all add: typed_def labs_header_def FILE_NAME_LEN_def CMD_MSG_LEN_def)
      (simp_all add: labs_client_def legacy_client_start_def)
  have f: "resolve (l_files (labs_state [] [] [])) (''backup/'' @ ''../secret'') = Some [''secret'']"
    "lookup (l_files (labs_state [] [] [])) [''secret''] = Some (RegularFile ''x'')"
    "writable (l_files (labs_state [] [] [])) [''secret'']"
    using labs_paths by simp_all (simp add: labs_files_def)
  from legacy_remove_end_to_end[OF labs_server(1-3) labs_client_ready c(1) f c(3), of "(1, 1)" "(0, 0)"] c(2)
  show ?thesis by (metis append_Nil fun_upd_same)
qed

theorem legacy_ls_end_to_end_witness:
  "\<exists>t r c'. legacy_round labs_header [] (labs_state (labs_command LS [] 0) [] []) = Some (True, t) \<and>
     client_ls labs_header (hearing [(0, (0, 0), r)] (labs_client [])) = Some c' \<and>
     screen c' = [''Files on server:'', '' - a'']"
proof -
  let ?s = "labs_state (labs_command LS [] 0) [] []"
  have c: "commanded labs_header (CMD_LS labs_header) [] (0, 0) (labs_command LS [] 0) [] ?s"
    using labs_commanded(1)[of "[]" LS 0 "[]" "[]"] by (simp add: labs_header_def command_code_def command_table_def)
  have d: "data_len labs_header = DATA_BUF_LEN" by (simp add: labs_header_def)
  have r: "readdir ''backup'' (l_files ?s) = Some [''.'', ''..'', ''a'']" using labs_paths(4) by simp
  have n: "[''a''] = filter (\<lambda>n. n \<noteq> ''.'' \<and> n \<noteq> ''..'') [''.'', ''..'', ''a'']" "placedNames [''a''] 0 = [''a'']"
    "\<forall>n \<in> set [''a'']. NUL \<notin> set n \<and> n \<noteq> []" "screen (labs_client []) = []"
    using labs_names by (simp_all add: labs_client_def legacy_client_start_def DATA_BUF_LEN_def)
  from legacy_ls_end_to_end[OF labs_header_ok d c labs_client_ready r n(1,3), of "[]" "(0, 0)" "[]"] n(2,4)
  show ?thesis by auto
qed

theorem legacy_client_repeats_witness:
  "\<exists>t ds. steps (next_client labs_header (zeros 137)) 20 ((labs_client '' '')\<lparr>in_cmd := ''remove'', file_name := ''b''\<rparr>) = Some t \<and>
     outgoing (lc_os t) = ds \<and> length ds = 10 \<and>
     (\<forall>(a, d) \<in> set ds. get_cmd labs_header d = CMD_REMOVE labs_header \<and> c_array (get_filename labs_header d) = Some ''b'')"
proof -
  let ?s = "(labs_client '' '')\<lparr>in_cmd := ''remove'', file_name := ''b''\<rparr>"
  have s: "\<forall>c \<in> set (cin ?s). isspace c" "in_cmd ?s \<noteq> ''quit''" "client_state ?s = Client_State_T.WAITING"
    "outgoing (lc_os ?s) = []"
    by (simp_all add: labs_client_def legacy_client_start_def isspace_def quiet_os_def set_rcvtimeo_def)
  have "client_ready labs_header ?s" using labs_client_ready[of "'' ''"] by (simp add: client_ready_def)
  moreover have "NUL \<notin> set (file_name ?s)" "length (file_name ?s) < name_len labs_header"
    using labs_names by (simp_all add: labs_header_def FILE_NAME_LEN_def)
  ultimately have "header_ok labs_header \<and> client_ready labs_header ?s \<and> (in_cmd ?s = ''shutdown'' \<or>
       in_cmd ?s = ''remove'' \<and> NUL \<notin> set (file_name ?s) \<and> length (file_name ?s) < name_len labs_header)"
    using labs_header_ok by simp
  with legacy_client_repeats[OF s(1-3), of labs_header "zeros 137"] obtain t ds where
    "steps (next_client labs_header (zeros 137)) (2 * 10) ?s = Some t" "outgoing (lc_os t) = outgoing (lc_os ?s) @ ds"
    "length ds = 10"
    "\<forall>(a, d) \<in> set ds. if in_cmd ?s = ''shutdown'' then get_cmd labs_header d = CMD_SHUTDOWN labs_header
       else get_cmd labs_header d = CMD_REMOVE labs_header \<and> c_array (get_filename labs_header d) = Some (file_name ?s)"
    by blast
  with s(4) show ?thesis by auto
qed

end
