(* ===== verification/Spec2Isabelle.thy ===== *)
theory Spec2Isabelle
  imports System Listing Server_Rename Http_Proofs Startup Gbn_Limits Repeat_Lossless Legacy_System
begin

text \<open>
  A verification development for the Reliable Remote Backup System
  (\<open>src/reliable-remote-backup-system\<close>): a UDP/TCP server that keeps files in a backup directory,
  a command-line client, and an HTTP management server in the server's process; and for the two
  transport protocols of \<open>src/original-labs\<close>, Go-Back-N and selective repeat over a simulated channel,
  and the first version of the backup server and client, \<open>server.cc\<close> and \<open>client.cc\<close> in the same directory.

  \<^bold>\<open>The program.\<close> The client (\<open>src/client/client.cpp\<close>) sends command messages over UDP
  (\<open>include/protocol/message.h\<close>); the server (\<open>src/server/server.cpp\<close>) polls its socket, receives
  one command at a time, runs its handler, which may hold a dialogue of further datagrams or accept
  a TCP connection for a large file, and answers. The HTTP server (\<open>src/server/http_server.cpp\<close>)
  offers the same file operations to a browser and a report of the metrics
  (\<open>src/common/metrics.cpp\<close>). All of them validate names with \<open>src/common/utils.cpp\<close> and touch files
  through \<open>src/common/file_utils.cpp\<close>. The labs \<open>gbn.c\<close> and \<open>stable.c\<close> are programs of their own: an
  emulator keeps a list of events ordered by time (messages to send, packets that arrive, timers),
  and calls the handlers of the sender A and the receiver B, which send packets through a channel that
  delivers, corrupts or loses them. The first version of the backup program exchanges the same kinds of
  messages in two functions \<open>main\<close>: a switch over the command and a switch over the state in the server, a
  switch over the state in the client.

  \<^bold>\<open>The theories, in the order of their imports.\<close>
  \<^item> \<open>Prelude\<close>: bytes, C strings and buffers, printing of numbers.
  \<^item> \<open>Error_Codes\<close> (\<open>error_codes.h/.cpp\<close>), \<open>Codec\<close> (byte encodings of integers and the locale
    \<open>codec\<close> for encodings of fixed width), \<open>Message\<close> (\<open>message.h\<close>).
  \<^item> \<open>Utils\<close> (\<open>utils.cpp\<close>), \<open>Doubles\<close> (IEEE double arithmetic, \<open>formatBytes\<close> and the clocks).
  \<^item> \<open>File_System\<close>: a tree of inodes with the system calls the program uses, and \<open>file_utils.cpp\<close>
    over it. \<open>Backup_Store\<close>: the abstract contract of a backup directory, a partial map from names to
    contents, as the locale \<open>backup_store\<close>, interpreted on the file operations.
  \<^item> \<open>Metrics\<close> (\<open>metrics.cpp\<close>), with the locale \<open>counters\<close> for its counter maps.
  \<^item> \<open>Sockets\<close>: the process's environment as a script (datagrams with arrival times, failing sends,
    TCP connections with the segments that arrive).
  \<^item> \<open>Http_Life\<close>: the thread of the HTTP server, started and joined by \<open>Server::run\<close> (\<open>start\<close> and \<open>stop\<close> of
    \<open>http_server.cpp\<close>); whether it listens and how long it drains are arguments.
  \<^item> \<open>Server\<close> (\<open>server.cpp\<close>, one definition per member function, loops apart);
    \<open>Server_Safety\<close> (what a handler may change), \<open>Server_Spec\<close>, \<open>Server_Transfer\<close>,
    \<open>Server_Rename\<close> (functional behaviour of the handlers against the store), \<open>Server_Loop\<close> (the
    main loop: reachable states, shutdown, confinement of a run).
  \<^item> \<open>Client\<close> (\<open>client.cpp\<close>), \<open>Listing\<close> (LS from the directory to the screen), \<open>System\<close> (client
    and server together).
  \<^item> \<open>Http_Server\<close> (the route handlers of \<open>http_server.cpp\<close>; the JSON library is a parameter, and what
    it documents the hypotheses \<open>dumps_utf8\<close>, that exactly the values with UTF-8 strings can be
    dumped, and \<open>parses_utf8\<close>), \<open>Http_Proofs\<close>, and \<open>Startup\<close> (\<open>Server::initialize\<close> and the
    two \<open>main\<close> functions).
  \<^item> \<open>Packets\<close> (packets and checksum), \<open>Emulator\<close> (event list, timers, channel, main loop, and the
    locale \<open>protocol\<close>: what a transport protocol promises to the application), \<open>Transport\<close> (the
    sender's globals and the report; both labs share all this code, the map names \<open>gbn.c\<close>).
  \<^item> \<open>Gbn\<close> (\<open>gbn.c\<close>), \<open>Gbn_Safety\<close> (the invariant of Go-Back-N, which interprets \<open>protocol\<close>),
    \<open>Gbn_Limits\<close> (where it loses messages). \<open>Selective_Repeat\<close> (\<open>stable.c\<close>), \<open>Rounding\<close> and \<open>Channel\<close>
    (times are floats: the clock never runs backwards and packets do not overtake each other),
    \<open>Repeat_Safety\<close> and \<open>Repeat_Delivery\<close> (its invariant, which interprets \<open>protocol\<close>), \<open>Repeat_Limits\<close>
    (where it fails), \<open>Repeat_Lossless\<close> (over a perfect channel it delivers everything and ends).
  \<^item> \<open>Legacy_Header\<close>: the messages of the first version. Their header \<open>message.h\<close> is not in the repository,
    so command codes, sizes and layouts are a parameter \<open>header\<close> of all definitions, with the laws \<open>header_ok\<close>
    that C++ gives for any structure; \<open>labs_header\<close> is an instance. \<open>Legacy_Server\<close> (\<open>server.cc\<close>, one definition
    per case of its switches), \<open>Legacy_Spec\<close> (its invariant and what a round does), \<open>Legacy_Client\<close>
    (\<open>client.cc\<close>, with every line its loop prints), \<open>Legacy_System\<close> (both together). They use the file system, the sockets and the transfer
    loops of the later version.

  \<^bold>\<open>Conventions.\<close> Objects are records (\<open>server\<close>, \<open>client\<close>, \<open>metrics\<close>, \<open>http_server\<close>), messages the
  record \<open>cmd_msg\<close> with its packed byte layout, fixed-width integers are words, a byte is a \<open>char\<close>.
  A handler maps a state to \<open>Some (result, state')\<close>; \<open>None\<close> stands for a call that never returns (a
  blocking call nobody answers) or for undefined behaviour (a string read past its array). Error
  codes are values of \<open>ErrorCode\<close>. The transfer loops are total functions, by measures on the segments
  to come or the bytes still to send; the main loops \<open>runLoop\<close> and \<open>clientLoop\<close> may run for ever and are
  \<open>partial_function (option)\<close>, and the theorems about stopping prove that they return; that the first client never ends is stated over
  its rounds, where \<open>None\<close> is undefined behaviour or an unusable file, never a run without end.
  \<open>stop_at\<close> is the time another thread calls \<open>requestShutdown\<close>.

  \<^bold>\<open>What is shown.\<close> Whatever datagrams arrive, a command changes nothing but entries directly in the
  backup directory, upload confirmations apart, whose name is not validated. On a directory of
  regular files the handlers implement the store: removing, renaming, small and large uploads do
  what the abstract operations do, and answer so; the listing round-trips to the client's screen.
  A server that is asked to stop does so, within 100 milliseconds and the time its HTTP thread takes to
  end. Uploads, removals and renames over HTTP do to the store what they should, with the status each case
  has; a name that is not UTF-8 is served but answered 500. The file utilities return true exactly when
  they have done what they say. The wire format round-trips, the validator accepts exactly the names described, the counters and
  latency statistics are what was recorded. A number of theorems state where the program falls short
  of its intent: timeouts without effect on the non-blocking socket, data taken for commands,
  truncated uploads acknowledged, short sends that skip bytes. Both transport protocols deliver the
  messages in order, each once and unaltered, over every channel and in every reachable state, and
  A's window never passes what B has, for up to 5000 messages (Go-Back-N, whose buffer has that size and
  is not checked to be full) and up to 30000 (selective repeat); other theorems exhibit channels and windows with which they stop
  delivering or never end; over a perfect channel selective repeat ends with everything delivered and
  nothing sent twice, as long as its clock, a \<open>float\<close>, stays exact enough (\<open>2 ^ 22\<close>). The first version of the
  backup program lists and removes files as it should, between the screen of its client and the directory
  of its server; but no name is validated, a small upload is always refused and its data may end the
  server, an existing file is never replaced by a small one, a rename onto a name that is taken is reported
  without having happened, and the client repeats its last command when its input has ended. A simulation is a \<open>partial_function (option)\<close> whose value \<open>None\<close> is a run
  without end; its step says how a run stops, undefined behaviour included.

  \<^bold>\<open>Not modelled.\<close> The logger (a wrapper of spdlog), the Windows branches, terminal output of the
  later version other than the client's dialogue and listing, HTTP requests that run beside a command (they
  are modelled one by one), threads inside one update of the metrics (atomic or under a mutex in the
  code), routing and transport of HTTP (httplib), the syntax of JSON (nlohmann, a parameter).
  Symbolic links and full disks are outside the file-system model. Of the first version of the program the
  output of the server and the prompts of the client are left out. The trace output of the transport labs is
  left out, and overflow of their integers, which they exclude.
\<close>

end
